(* ===== verification/Go_Prelude.thy ===== *)
theory Go_Prelude
  imports Main "HOL-Library.Signed_Division"
begin

text \<open>
  Shared ground of the development: the fixed-width signed integers of Go, durations,
  the two interface locales that several components implement (transition systems with
  an invariant, configuration defaulting), and generic lemmas on lists and options.

  Go's \<^verbatim>\<open>int\<close>, \<^verbatim>\<open>int64\<close> and \<^verbatim>\<open>time.Duration\<close> are 64 bits wide on the platforms the
  library is built for; values are kept as \<^typ>\<open>int\<close> and every operation that can leave
  the range is followed by the wrap-around of its width.
\<close>

named_theorems go_arith \<open>facts about wrap-around arithmetic\<close>

section \<open>Fixed-width signed integers\<close>

definition wrap :: "nat \<Rightarrow> int \<Rightarrow> int" where
  "wrap w x = (x + 2 ^ (w - 1)) mod 2 ^ w - 2 ^ (w - 1)"

abbreviation wrap64 :: "int \<Rightarrow> int" where "wrap64 \<equiv> wrap 64"
abbreviation wrap32 :: "int \<Rightarrow> int" where "wrap32 \<equiv> wrap 32"

definition fits :: "nat \<Rightarrow> int \<Rightarrow> bool" where
  "fits w x \<longleftrightarrow> - (2 ^ (w - 1)) \<le> x \<and> x < 2 ^ (w - 1)"

abbreviation int64 :: "int \<Rightarrow> bool" where "int64 \<equiv> fits 64"
abbreviation int32 :: "int \<Rightarrow> bool" where "int32 \<equiv> fits 32"
abbreviation int16 :: "int \<Rightarrow> bool" where "int16 \<equiv> fits 16"

lemma pow_split: "0 < w \<Longrightarrow> (2::int) ^ w = 2 * 2 ^ (w - 1)"
  by (cases w) auto

lemma wrap_fits [go_arith]: "0 < w \<Longrightarrow> fits w (wrap w x)"
  using pos_mod_bound [of "2 ^ w" "x + 2 ^ (w - 1)"] pos_mod_sign [of "2 ^ w" "x + 2 ^ (w - 1)"]
  by (auto simp: fits_def wrap_def pow_split)

lemma wrap_id [go_arith]: "0 < w \<Longrightarrow> fits w x \<Longrightarrow> wrap w x = x"
  by (auto simp: fits_def wrap_def pow_split)

lemma wrap64_id [go_arith]: "- 9223372036854775808 \<le> x \<Longrightarrow> x < 9223372036854775808 \<Longrightarrow> wrap64 x = x"
  by (rule wrap_id) (auto simp: fits_def)

lemma wrap32_id [go_arith]: "- 2147483648 \<le> x \<Longrightarrow> x < 2147483648 \<Longrightarrow> wrap32 x = x"
  by (rule wrap_id) (auto simp: fits_def)

section \<open>Durations\<close>

text \<open>\<^verbatim>\<open>time.Duration\<close> counts nanoseconds in an \<^verbatim>\<open>int64\<close>.\<close>

type_synonym duration = int

text \<open>Instants are kept in nanoseconds too, without a bound.\<close>

type_synonym instant = int

definition second :: duration where "second = 1000000000"
definition minute :: duration where "minute = 60 * second"
definition hour :: duration where "hour = 60 * minute"

lemmas duration_units = second_def minute_def hour_def

text \<open>
  \<^verbatim>\<open>int32(d.Seconds())\<close>: the seconds as a \<^verbatim>\<open>float64\<close>, truncated towards zero. Below
  $2^{23}$ seconds (97 days) the rounding of the floating-point quotient cannot reach the
  next integer, so the truncated quotient is exact; \<open>exact_seconds\<close> is that range and
  the facts that depend on the value carry it as a hypothesis.
\<close>

definition seconds_int32 :: "duration \<Rightarrow> int" where
  "seconds_int32 d = wrap32 (d sdiv second)"

definition exact_seconds :: "duration \<Rightarrow> bool" where
  "exact_seconds d \<longleftrightarrow> 0 \<le> d \<and> d < 8388608 * second"

lemma seconds_int32_div: "exact_seconds d \<Longrightarrow> seconds_int32 d = d div second"
proof -
  assume d: "exact_seconds d"
  then have "0 \<le> d div second" and "d div second < 8388608"
    by (auto simp: exact_seconds_def second_def)
  moreover have "d sdiv second = d div second"
    using d by (auto simp: exact_seconds_def signed_divide_int_def second_def sgn_if)
  ultimately show ?thesis
    by (simp add: seconds_int32_def wrap32_id)
qed

lemma seconds_int32_bounds:
  assumes "exact_seconds d"
  shows "seconds_int32 d * second \<le> d" and "d < (seconds_int32 d + 1) * second"
  using assms by (auto simp: seconds_int32_div second_def)

section \<open>Transition systems and their invariants\<close>

text \<open>
  The contract every step relation of the development is used through: the invariant
  holds at the start and each step keeps it.
\<close>

inductive reach :: "('s \<Rightarrow> bool) \<Rightarrow> ('s \<Rightarrow> 's \<Rightarrow> bool) \<Rightarrow> 's \<Rightarrow> bool" for start step where
  reach_start [intro]: "start s \<Longrightarrow> reach start step s"
| reach_step [intro]: "reach start step s \<Longrightarrow> step s t \<Longrightarrow> reach start step t"

locale transition_invariant =
  fixes start :: "'s \<Rightarrow> bool"
    and step :: "'s \<Rightarrow> 's \<Rightarrow> bool"
    and invar :: "'s \<Rightarrow> bool"
  assumes invar_start: "start s \<Longrightarrow> invar s"
    and invar_step: "invar s \<Longrightarrow> step s t \<Longrightarrow> invar t"
begin

lemma invar_reach: "reach start step s \<Longrightarrow> invar s"
  by (induction rule: reach.induct) (auto intro: invar_start invar_step)

lemma invar_run: "step\<^sup>*\<^sup>* s t \<Longrightarrow> invar s \<Longrightarrow> invar t"
  by (induction rule: rtranclp_induct) (auto intro: invar_step)

end

section \<open>Configuration defaulting\<close>

text \<open>
  Each package fills a configuration with \<^verbatim>\<open>withDefaults\<close>. The contract: the result is
  complete, and a complete configuration is left alone, so that defaulting twice (as
  \<^verbatim>\<open>postgresql.Open\<close> does through \<^verbatim>\<open>DSNString\<close>) is harmless.
\<close>

locale defaulting =
  fixes defaults :: "'c \<Rightarrow> 'c"
    and complete :: "'c \<Rightarrow> bool"
  assumes defaults_complete: "complete (defaults c)"
    and complete_defaults: "complete c \<Longrightarrow> defaults c = c"
begin

lemma defaults_idem: "defaults (defaults c) = defaults c"
  by (rule complete_defaults) (rule defaults_complete)

lemma defaults_fixpoint: "defaults c = c \<longleftrightarrow> complete c"
  using defaults_complete complete_defaults by metis

end

section \<open>Log levels\<close>

text \<open>The levels of \<^verbatim>\<open>log/slog\<close>, ordered by their numbers.\<close>

datatype log_level = LevelDebug | LevelInfo | LevelWarn | LevelError

fun level_number :: "log_level \<Rightarrow> int" where
  "level_number LevelDebug = - 4"
| "level_number LevelInfo = 0"
| "level_number LevelWarn = 4"
| "level_number LevelError = 8"

lemma level_number_inj: "level_number a = level_number b \<Longrightarrow> a = b"
  by (cases a; cases b) auto

instantiation log_level :: linorder
begin

definition less_eq_log_level :: "log_level \<Rightarrow> log_level \<Rightarrow> bool" where
  "less_eq_log_level a b \<longleftrightarrow> level_number a \<le> level_number b"

definition less_log_level :: "log_level \<Rightarrow> log_level \<Rightarrow> bool" where
  "less_log_level a b \<longleftrightarrow> level_number a < level_number b"

instance
  by standard (auto simp: less_eq_log_level_def less_log_level_def intro: level_number_inj)

end

type_synonym log_entry = "log_level \<times> string"

section \<open>Lists and options\<close>

lemma filter_map_keep: "(\<And>x. x \<in> set xs \<Longrightarrow> P (f x) \<longleftrightarrow> P x) \<Longrightarrow> filter P (map f xs) = map f (filter P xs)"
  by (induction xs) auto

lemma distinct_map_same: "(\<And>x. x \<in> set xs \<Longrightarrow> g (f x) = g x) \<Longrightarrow> map g (map f xs) = map g xs"
  by (induction xs) auto

lemma distinct_key_eq: "distinct (map g xs) \<Longrightarrow> x \<in> set xs \<Longrightarrow> y \<in> set xs \<Longrightarrow> g x = g y \<Longrightarrow> x = y"
  by (auto simp: distinct_map inj_on_def)

lemma in_drop_if_not_take: "x \<in> set xs \<Longrightarrow> x \<notin> set (take n xs) \<Longrightarrow> x \<in> set (drop n xs)"
  by (metis UnE append_take_drop_id set_append)

end
