(* ===== verification/Go_Text.thy ===== *)
theory Go_Text
  imports Go_Prelude
begin

text \<open>
  Go strings are byte sequences; here \<^typ>\<open>string\<close>, a list of 8-bit characters. This
  theory models what the packages use of the standard library on them: UTF-8 decoding
  and encoding (\<^verbatim>\<open>[]rune(s)\<close>, \<^verbatim>\<open>string(runes)\<close>), \<^verbatim>\<open>strings.Split\<close>,
  \<^verbatim>\<open>strings.TrimSpace\<close>, \<^verbatim>\<open>strings.EqualFold\<close> against an ASCII constant,
  \<^verbatim>\<open>strconv.Itoa\<close>, \<^verbatim>\<open>Duration.String\<close> and the quoting verb of \<^verbatim>\<open>fmt\<close>.
\<close>

section \<open>UTF-8\<close>

abbreviation byte :: "char \<Rightarrow> nat" where "byte \<equiv> of_char"

definition rune_error :: nat where "rune_error = 65533"

definition in_range :: "nat \<Rightarrow> nat \<Rightarrow> char \<Rightarrow> bool" where
  "in_range lo hi c \<longleftrightarrow> lo \<le> byte c \<and> byte c \<le> hi"

abbreviation continuation :: "char \<Rightarrow> bool" where "continuation \<equiv> in_range 128 191"

text \<open>
  \<^verbatim>\<open>utf8.DecodeRuneInString\<close>: the rune at the front and the number of bytes it takes. The
  second byte's range depends on the first (no overlong forms, no surrogates, nothing
  above U+10FFFF); anything else is \<open>rune_error\<close> of width one.
\<close>

definition second_range :: "nat \<Rightarrow> nat \<times> nat" where
  "second_range b =
     (if b = 224 then (160, 191) else if b = 237 then (128, 159)
      else if b = 240 then (144, 191) else if b = 244 then (128, 143) else (128, 191))"

definition second_ok :: "nat \<Rightarrow> char \<Rightarrow> bool" where
  "second_ok b c \<longleftrightarrow> in_range (fst (second_range b)) (snd (second_range b)) c"

fun decode_rune :: "string \<Rightarrow> nat \<times> nat" where
  "decode_rune [] = (rune_error, 0)"
| "decode_rune (c0 # s) =
     (let b0 = byte c0 in
      if b0 < 128 then (b0, 1)
      else if 194 \<le> b0 \<and> b0 \<le> 223 then
        (case s of
           c1 # _ \<Rightarrow> if continuation c1 then ((b0 - 192) * 64 + (byte c1 - 128), 2) else (rune_error, 1)
         | _ \<Rightarrow> (rune_error, 1))
      else if 224 \<le> b0 \<and> b0 \<le> 239 then
        (case s of
           c1 # c2 # _ \<Rightarrow>
             if second_ok b0 c1 \<and> continuation c2
             then ((b0 - 224) * 4096 + (byte c1 - 128) * 64 + (byte c2 - 128), 3) else (rune_error, 1)
         | _ \<Rightarrow> (rune_error, 1))
      else if 240 \<le> b0 \<and> b0 \<le> 244 then
        (case s of
           c1 # c2 # c3 # _ \<Rightarrow>
             if second_ok b0 c1 \<and> continuation c2 \<and> continuation c3
             then ((b0 - 240) * 262144 + (byte c1 - 128) * 4096 + (byte c2 - 128) * 64 + (byte c3 - 128), 4)
             else (rune_error, 1)
         | _ \<Rightarrow> (rune_error, 1))
      else (rune_error, 1))"

lemma decode_rune_width_pos: "s \<noteq> [] \<Longrightarrow> 0 < snd (decode_rune s)"
  by (cases s) (auto simp: Let_def split: list.splits)

text \<open>\<^verbatim>\<open>[]rune(s)\<close>.\<close>

function runes :: "string \<Rightarrow> nat list" where
  "runes s = (if s = [] then [] else fst (decode_rune s) # runes (drop (snd (decode_rune s)) s))"
  by pat_completeness auto
termination
  by (relation "measure length") (auto simp: decode_rune_width_pos)

declare runes.simps [simp del]

lemma runes_Nil [simp]: "runes [] = []"
  by (simp add: runes.simps)

definition valid_rune :: "nat \<Rightarrow> bool" where
  "valid_rune r \<longleftrightarrow> r < 55296 \<or> (57344 \<le> r \<and> r \<le> 1114111)"

text \<open>\<^verbatim>\<open>utf8.AppendRune\<close>; a surrogate or a value above U+10FFFF is encoded as the error rune.\<close>

definition encode_rune :: "nat \<Rightarrow> string" where
  "encode_rune r0 =
     (let r = (if valid_rune r0 then r0 else rune_error) in
      if r < 128 then [char_of r]
      else if r < 2048 then [char_of (192 + r div 64), char_of (128 + r mod 64)]
      else if r < 65536 then
        [char_of (224 + r div 4096), char_of (128 + (r div 64) mod 64), char_of (128 + r mod 64)]
      else [char_of (240 + r div 262144), char_of (128 + (r div 4096) mod 64),
            char_of (128 + (r div 64) mod 64), char_of (128 + r mod 64)])"

text \<open>\<^verbatim>\<open>string(rs)\<close> for a rune slice.\<close>

definition string_of_runes :: "nat list \<Rightarrow> string" where
  "string_of_runes rs = concat (map encode_rune rs)"

text \<open>\<^verbatim>\<open>utf8.ValidString\<close>: no position decodes to the width-one error.\<close>

function utf8_valid :: "string \<Rightarrow> bool" where
  "utf8_valid s =
     (if s = [] then True
      else if decode_rune s = (rune_error, 1) then False
      else utf8_valid (drop (snd (decode_rune s)) s))"
  by pat_completeness auto
termination
  by (relation "measure length") (auto simp: decode_rune_width_pos)

declare utf8_valid.simps [simp del]

lemma utf8_valid_Nil [simp]: "utf8_valid []"
  by (simp add: utf8_valid.simps)

lemma byte_char_of [simp]: "n < 256 \<Longrightarrow> byte (char_of n) = n"
  by simp

lemma decode_rune_width: "snd (decode_rune s) \<le> length s"
  by (cases s) (auto simp: Let_def split: list.splits)

lemma decode_rune_cases:
  assumes "s \<noteq> []" and "decode_rune s \<noteq> (rune_error, 1)"
  obtains (one) c0 t where "s = c0 # t" "byte c0 < 128"
  | (two) c0 c1 t where "s = c0 # c1 # t" "194 \<le> byte c0" "byte c0 \<le> 223" "continuation c1"
  | (three) c0 c1 c2 t where "s = c0 # c1 # c2 # t" "224 \<le> byte c0" "byte c0 \<le> 239"
      "second_ok (byte c0) c1" "continuation c2"
  | (four) c0 c1 c2 c3 t where "s = c0 # c1 # c2 # c3 # t" "240 \<le> byte c0" "byte c0 \<le> 244"
      "second_ok (byte c0) c1" "continuation c2" "continuation c3"
  using assms by (cases s) (auto simp: Let_def split: list.splits if_splits)

lemma second_ok_cont: "second_ok b c \<Longrightarrow> 128 \<le> byte c \<and> byte c \<le> 191"
  by (auto simp: second_ok_def second_range_def in_range_def split: if_splits)

lemma second_ok_range4:
  assumes "240 \<le> byte c0" "second_ok (byte c0) c1"
  shows "65536 \<le> (byte c0 - 240) * 262144 + (byte c1 - 128) * 4096"
  using assms by (auto simp: second_ok_def second_range_def in_range_def split: if_splits)

lemma decode_2:
  assumes "194 \<le> byte c0" "byte c0 \<le> 223" "continuation c1"
  shows "decode_rune (c0 # c1 # t) = ((byte c0 - 192) * 64 + (byte c1 - 128), 2)"
  using assms by simp

lemma decode_3:
  assumes "224 \<le> byte c0" "byte c0 \<le> 239" "second_ok (byte c0) c1" "continuation c2"
  shows "decode_rune (c0 # c1 # c2 # t) =
    ((byte c0 - 224) * 4096 + (byte c1 - 128) * 64 + (byte c2 - 128), 3)"
  using assms by simp

lemma decode_4:
  assumes "240 \<le> byte c0" "byte c0 \<le> 244" "second_ok (byte c0) c1" "continuation c2" "continuation c3"
  shows "decode_rune (c0 # c1 # c2 # c3 # t) =
    ((byte c0 - 240) * 262144 + (byte c1 - 128) * 4096 + (byte c2 - 128) * 64 + (byte c3 - 128), 4)"
  using assms by simp

lemma decode_rune_valid: "valid_rune (fst (decode_rune s))"
proof (cases "s = [] \<or> decode_rune s = (rune_error, 1)")
  case False
  then have "s \<noteq> []" and "decode_rune s \<noteq> (rune_error, 1)" by auto
  then show ?thesis
  proof (cases rule: decode_rune_cases)
    case (one c0 t)
    then show ?thesis by (simp add: valid_rune_def)
  next
    case (two c0 c1 t)
    then have "(byte c0 - 192) * 64 + (byte c1 - 128) < 2048" by (auto simp: in_range_def)
    then show ?thesis unfolding two(1) decode_2 [OF two(2-4)] valid_rune_def fst_conv by linarith
  next
    case (three c0 c1 c2 t)
    then have "(byte c0 - 224) * 4096 + (byte c1 - 128) * 64 + (byte c2 - 128) < 55296 \<or>
      57344 \<le> (byte c0 - 224) * 4096 + (byte c1 - 128) * 64"
      using second_ok_cont [OF three(4)]
      by (cases "byte c0 = 237") (auto simp: second_ok_def second_range_def in_range_def split: if_splits)
    moreover have "(byte c0 - 224) * 4096 + (byte c1 - 128) * 64 + (byte c2 - 128) \<le> 65535"
      using three second_ok_cont [OF three(4)] by (auto simp: in_range_def)
    ultimately show ?thesis unfolding three(1) decode_3 [OF three(2-5)] valid_rune_def fst_conv
      by linarith
  next
    case (four c0 c1 c2 c3 t)
    then have "(byte c0 - 240) * 262144 + (byte c1 - 128) * 4096 \<le> 1110016"
      using second_ok_cont [OF four(4)]
      by (cases "byte c0 = 244") (auto simp: second_ok_def second_range_def in_range_def split: if_splits)
    moreover have "65536 \<le> (byte c0 - 240) * 262144 + (byte c1 - 128) * 4096"
      using four(2,4) by (rule second_ok_range4)
    moreover have "(byte c2 - 128) * 64 + (byte c3 - 128) \<le> 4095"
      using four by (auto simp: in_range_def)
    ultimately show ?thesis unfolding four(1) decode_4 [OF four(2-6)] valid_rune_def fst_conv
      by linarith
  qed
qed (auto simp: valid_rune_def rune_error_def)

lemma runes_valid: "r \<in> set (runes s) \<Longrightarrow> valid_rune r"
proof (induction s rule: runes.induct)
  case (1 s)
  then show ?case
    by (cases "s = []") (auto simp: runes.simps [of s] decode_rune_valid)
qed

lemma encode_rune_nonempty: "encode_rune r \<noteq> []"
  by (simp add: encode_rune_def Let_def)

lemma encode_rune_2:
  assumes "128 \<le> r" "r < 2048"
  shows "encode_rune r = [char_of (192 + r div 64), char_of (128 + r mod 64)]"
  using assms by (simp add: encode_rune_def valid_rune_def)

lemma encode_rune_3:
  assumes "valid_rune r" "2048 \<le> r" "r < 65536"
  shows "encode_rune r =
    [char_of (224 + r div 4096), char_of (128 + (r div 64) mod 64), char_of (128 + r mod 64)]"
  using assms by (simp add: encode_rune_def)

lemma encode_rune_4:
  assumes "valid_rune r" "65536 \<le> r"
  shows "encode_rune r = [char_of (240 + r div 262144), char_of (128 + (r div 4096) mod 64),
    char_of (128 + (r div 64) mod 64), char_of (128 + r mod 64)]"
  using assms by (simp add: encode_rune_def)

lemma base64_digits: "(r::nat) div 4096 = r div 64 div 64"
  by (simp add: div_mult2_eq [symmetric])

lemma base64_digits': "(r::nat) div 262144 = r div 4096 div 64"
  by (simp add: div_mult2_eq [symmetric])

lemma mod64_le: "(x::nat) mod 64 \<le> 63"
  by presburger

lemma digit64: "f < 64 \<Longrightarrow> (x * 64 + f) div 64 = (x::nat)" "f < 64 \<Longrightarrow> (x * 64 + f) mod 64 = (f::nat)"
  by auto

lemma decode_encode:
  assumes v: "valid_rune r"
  shows "decode_rune (encode_rune r @ t) = (r, length (encode_rune r))"
proof -
  consider "r < 128" | "128 \<le> r" "r < 2048" | "2048 \<le> r" "r < 65536" | "65536 \<le> r" by linarith
  then show ?thesis
  proof cases
    case 1
    with v show ?thesis by (simp add: encode_rune_def)
  next
    case 2
    then have "2 \<le> r div 64" "r div 64 \<le> 31" by auto
    then show ?thesis
      by (simp add: encode_rune_2 [OF 2] decode_2 in_range_def)
  next
    case 3
    have b: "r div 4096 \<le> 15" using 3 by auto
    have lo: "r div 4096 = 0 \<Longrightarrow> 32 \<le> r div 64 mod 64"
      using 3 div_mult_mod_eq [of "r div 64" 64] by (simp add: base64_digits)
    have hi: "r < 55296 \<Longrightarrow> r div 4096 = 13 \<Longrightarrow> r div 64 mod 64 \<le> 31"
      using div_mult_mod_eq [of "r div 64" 64] by (simp add: base64_digits)
    have s: "second_ok (224 + r div 4096) (char_of (128 + (r div 64) mod 64))"
      using 3 v lo hi by (auto simp: second_ok_def second_range_def in_range_def valid_rune_def)
    have "r = r div 4096 * 4096 + (r div 64 mod 64) * 64 + r mod 64"
      using div_mult_mod_eq [of r 64] div_mult_mod_eq [of "r div 64" 64]
      unfolding base64_digits by linarith
    with b s show ?thesis
      by (simp add: encode_rune_3 [OF v 3] decode_3 in_range_def)
  next
    case 4
    have b: "r div 262144 \<le> 4" using v 4 by (auto simp: valid_rune_def)
    have lo: "r div 262144 = 0 \<Longrightarrow> 16 \<le> r div 4096 mod 64"
      using 4 div_mult_mod_eq [of "r div 4096" 64] by (simp add: base64_digits')
    have hi: "r \<le> 1114111 \<Longrightarrow> r div 262144 = 4 \<Longrightarrow> r div 4096 mod 64 \<le> 15"
      using div_mult_mod_eq [of "r div 4096" 64] by (simp add: base64_digits')
    have s: "second_ok (240 + r div 262144) (char_of (128 + (r div 4096) mod 64))"
      using 4 v lo hi by (auto simp: second_ok_def second_range_def in_range_def valid_rune_def)
    have "r = r div 262144 * 262144 + (r div 4096 mod 64) * 4096 + (r div 64 mod 64) * 64 + r mod 64"
      using div_mult_mod_eq [of r 64] div_mult_mod_eq [of "r div 64" 64]
        div_mult_mod_eq [of "r div 4096" 64]
      unfolding base64_digits base64_digits' by linarith
    with b s show ?thesis
      by (simp add: encode_rune_4 [OF v 4] decode_4 in_range_def mod64_le)
  qed
qed

lemma encode_rune_error_length [simp]: "length (encode_rune rune_error) = 3"
  by (auto simp: encode_rune_def rune_error_def valid_rune_def)

lemma decode_encode_ok: "valid_rune r \<Longrightarrow> decode_rune (encode_rune r @ t) \<noteq> (rune_error, 1)"
  by (auto simp: decode_encode)

lemma runes_string_of_runes:
  "(\<forall>r \<in> set rs. valid_rune r) \<Longrightarrow> runes (string_of_runes rs) = rs"
proof (induction rs)
  case (Cons r rs)
  then have "runes (encode_rune r @ string_of_runes rs) = r # rs"
    by (subst runes.simps) (simp add: decode_encode encode_rune_nonempty)
  then show ?case by (simp add: string_of_runes_def)
qed (simp add: string_of_runes_def)

lemma utf8_valid_string_of_runes:
  "(\<forall>r \<in> set rs. valid_rune r) \<Longrightarrow> utf8_valid (string_of_runes rs)"
proof (induction rs)
  case (Cons r rs)
  then have "utf8_valid (encode_rune r @ string_of_runes rs)"
    by (subst utf8_valid.simps) (simp add: decode_encode decode_encode_ok encode_rune_nonempty)
  then show ?case by (simp add: string_of_runes_def)
qed (simp add: string_of_runes_def)

lemma second_ok_range3:
  assumes "224 \<le> byte c0" "second_ok (byte c0) c1"
  shows "2048 \<le> (byte c0 - 224) * 4096 + (byte c1 - 128) * 64"
  using assms by (auto simp: second_ok_def second_range_def in_range_def split: if_splits)

lemma encode_decode:
  assumes "s \<noteq> []" and "decode_rune s \<noteq> (rune_error, 1)"
  shows "encode_rune (fst (decode_rune s)) = take (snd (decode_rune s)) s"
  using assms
proof (cases rule: decode_rune_cases)
  case (one c0 t)
  then show ?thesis by (simp add: encode_rune_def valid_rune_def)
next
  case (two c0 c1 t)
  define a where "a = byte c0 - 192"
  define b where "b = byte c1 - 128"
  have ab: "byte c0 = 192 + a" "byte c1 = 128 + b" "2 \<le> a" "a \<le> 31" "b < 64"
    using two by (auto simp: a_def b_def in_range_def)
  have d: "decode_rune s = (a * 64 + b, 2)"
    using two decode_2 [of c0 c1 t] by (simp add: a_def b_def)
  have "char_of (192 + a) = c0" "char_of (128 + b) = c1"
    using ab by (metis char_of_char)+
  then show ?thesis
    using ab two by (simp add: d encode_rune_2)
next
  case (three c0 c1 c2 t)
  define a where "a = byte c0 - 224"
  define b where "b = byte c1 - 128"
  define e where "e = byte c2 - 128"
  have ab: "byte c0 = 224 + a" "byte c1 = 128 + b" "byte c2 = 128 + e" "a \<le> 15" "b < 64" "e < 64"
    using three second_ok_cont [OF three(4)] by (auto simp: a_def b_def e_def in_range_def)
  define r where "r = a * 4096 + b * 64 + e"
  have d: "decode_rune s = (r, 3)"
    using three decode_3 [of c0 c1 c2 t] by (simp add: a_def b_def e_def r_def)
  have v: "valid_rune r"
    using decode_rune_valid [of s] by (simp add: d)
  have lo: "2048 \<le> r"
    using second_ok_range3 [OF three(2,4)] by (simp add: a_def b_def r_def)
  have hi: "r < 65536" using ab unfolding r_def by linarith
  have dm: "r div 4096 = a" "r div 64 mod 64 = b" "r mod 64 = e"
    using digit64 [OF ab(6), of "a * 64 + b"] digit64 [OF ab(5), of a]
    unfolding r_def by (simp_all add: base64_digits algebra_simps)
  have "char_of (224 + a) = c0" "char_of (128 + b) = c1" "char_of (128 + e) = c2"
    using ab by (metis char_of_char)+
  then show ?thesis
    unfolding d fst_conv snd_conv encode_rune_3 [OF v lo hi] dm using three by simp
next
  case (four c0 c1 c2 c3 t)
  define a where "a = byte c0 - 240"
  define b where "b = byte c1 - 128"
  define e where "e = byte c2 - 128"
  define f where "f = byte c3 - 128"
  have ab: "byte c0 = 240 + a" "byte c1 = 128 + b" "byte c2 = 128 + e" "byte c3 = 128 + f"
    "b < 64" "e < 64" "f < 64"
    using four second_ok_cont [OF four(4)] by (auto simp: a_def b_def e_def f_def in_range_def)
  define r where "r = a * 262144 + b * 4096 + e * 64 + f"
  have d: "decode_rune s = (r, 4)"
    using four decode_4 [of c0 c1 c2 c3 t] by (simp add: a_def b_def e_def f_def r_def)
  have v: "valid_rune r"
    using decode_rune_valid [of s] by (simp add: d)
  have lo: "65536 \<le> r"
    using second_ok_range4 [OF four(2,4)] by (simp add: a_def b_def r_def)
  have dm: "r div 262144 = a" "r div 4096 mod 64 = b" "r div 64 mod 64 = e" "r mod 64 = f"
    using digit64 [OF ab(7), of "(a * 64 + b) * 64 + e"] digit64 [OF ab(6), of "a * 64 + b"]
      digit64 [OF ab(5), of a]
    unfolding r_def by (simp_all add: base64_digits base64_digits' algebra_simps)
  have "char_of (240 + a) = c0" "char_of (128 + b) = c1" "char_of (128 + e) = c2" "char_of (128 + f) = c3"
    using ab by (metis char_of_char)+
  then show ?thesis
    unfolding d fst_conv snd_conv encode_rune_4 [OF v lo] dm using four by simp
qed

lemma string_of_runes_runes: "utf8_valid s \<Longrightarrow> string_of_runes (runes s) = s"
proof (induction s rule: utf8_valid.induct)
  case (1 s)
  show ?case
  proof (cases "s = []")
    case False
    with "1.prems" have ok: "decode_rune s \<noteq> (rune_error, 1)"
      and rest: "utf8_valid (drop (snd (decode_rune s)) s)"
      by (auto simp: utf8_valid.simps [of s] split: if_splits)
    have "string_of_runes (runes s) =
        encode_rune (fst (decode_rune s)) @ string_of_runes (runes (drop (snd (decode_rune s)) s))"
      using False by (simp add: runes.simps [of s] string_of_runes_def)
    also have "\<dots> = s"
      using "1.IH" [OF False ok rest] encode_decode [OF False ok] by simp
    finally show ?thesis .
  qed (simp add: string_of_runes_def)
qed

text \<open>Evaluation rules: an ASCII byte is its own rune.\<close>

lemmas char_eval = char_of_def bit_0

lemma runes_Cons:
  "runes (c # s) =
     (if byte c < 128 then byte c # runes s
      else fst (decode_rune (c # s)) # runes (drop (snd (decode_rune (c # s))) (c # s)))"
  by (subst runes.simps) simp

lemma utf8_valid_Cons:
  "utf8_valid (c # s) =
     (if byte c < 128 then utf8_valid s
      else decode_rune (c # s) \<noteq> (rune_error, 1) \<and> utf8_valid (drop (snd (decode_rune (c # s))) (c # s)))"
  by (subst utf8_valid.simps) (simp add: rune_error_def)

section \<open>Splitting and trimming\<close>

text \<open>\<^verbatim>\<open>strings.Split(s, sep)\<close> for a one-byte separator; never empty.\<close>

text \<open>\<^verbatim>\<open>strings.ToLower\<close> on ASCII text.\<close>

definition to_lower :: "string \<Rightarrow> string" where
  "to_lower s = map (\<lambda>c. if 65 \<le> byte c \<and> byte c \<le> 90 then char_of (byte c + 32) else c) s"

fun split_on :: "char \<Rightarrow> string \<Rightarrow> string list" where
  "split_on c [] = [[]]"
| "split_on c (x # xs) =
     (if x = c then [] # split_on c xs
      else (case split_on c xs of p # ps \<Rightarrow> (x # p) # ps | [] \<Rightarrow> [[x]]))"

lemma split_on_nonempty [simp]: "split_on c s \<noteq> []"
  by (induction s) (auto split: list.splits)

lemma split_on_no_sep: "c \<notin> set s \<Longrightarrow> split_on c s = [s]"
  by (induction s) auto

lemma split_on_sep: "c \<notin> set p \<Longrightarrow> split_on c (p @ c # s) = p # split_on c s"
  by (induction p) auto

lemma split_on_append: "split_on c (p @ c # s) = split_on c p @ split_on c s"
proof (induction p)
  case (Cons x p)
  then show ?case
    using split_on_nonempty [of c p] by (auto split: list.splits simp del: split_on_nonempty)
qed simp

lemma split_on_single: "split_on c s = [p] \<Longrightarrow> s = p"
  by (induction s arbitrary: p) (auto split: if_splits list.splits)

lemma split_on_more: "split_on c s = p # q # ps \<Longrightarrow> \<exists>r. s = p @ c # r \<and> split_on c r = q # ps"
proof (induction s arbitrary: p)
  case (Cons x s)
  show ?case
  proof (cases "x = c")
    case False
    then obtain p' where "split_on c s = p' # q # ps" "p = x # p'"
      using Cons.prems by (auto split: list.splits)
    with Cons.IH [of p'] show ?thesis by auto
  qed (use Cons.prems in auto)
qed simp

lemma split_on_parts: "q \<in> set (split_on c s) \<Longrightarrow> c \<notin> set q"
  by (induction s arbitrary: q) (auto split: if_splits list.splits)

text \<open>
  The UTF-8 encodings of the runes for which \<^verbatim>\<open>unicode.IsSpace\<close> holds. A string starts
  (ends) with such a rune exactly when one of these byte strings is a prefix (suffix).
\<close>

definition space_encodings :: "string list" where
  "space_encodings =
     [[CHR 0x09], [CHR 0x0A], [CHR 0x0B], [CHR 0x0C], [CHR 0x0D], '' '',
      [CHR 0xC2, CHR 0x85], [CHR 0xC2, CHR 0xA0], [CHR 0xE1, CHR 0x9A, CHR 0x80],
      [CHR 0xE2, CHR 0x80, CHR 0x80], [CHR 0xE2, CHR 0x80, CHR 0x81], [CHR 0xE2, CHR 0x80, CHR 0x82],
      [CHR 0xE2, CHR 0x80, CHR 0x83], [CHR 0xE2, CHR 0x80, CHR 0x84], [CHR 0xE2, CHR 0x80, CHR 0x85],
      [CHR 0xE2, CHR 0x80, CHR 0x86], [CHR 0xE2, CHR 0x80, CHR 0x87], [CHR 0xE2, CHR 0x80, CHR 0x88],
      [CHR 0xE2, CHR 0x80, CHR 0x89], [CHR 0xE2, CHR 0x80, CHR 0x8A], [CHR 0xE2, CHR 0x80, CHR 0xA8],
      [CHR 0xE2, CHR 0x80, CHR 0xA9], [CHR 0xE2, CHR 0x80, CHR 0xAF], [CHR 0xE2, CHR 0x81, CHR 0x9F],
      [CHR 0xE3, CHR 0x80, CHR 0x80]]"

lemma space_encodings_runes:
  "space_encodings = map encode_rune
     [9, 10, 11, 12, 13, 32, 133, 160, 5760, 8192, 8193, 8194, 8195, 8196, 8197, 8198, 8199, 8200,
      8201, 8202, 8232, 8233, 8239, 8287, 12288]"
  by (simp add: space_encodings_def encode_rune_def valid_rune_def char_of_def bit_0)

definition strip_one :: "string list \<Rightarrow> string \<Rightarrow> string option" where
  "strip_one ps s = map_option (\<lambda>p. drop (length p) s) (find (\<lambda>p. take (length p) s = p \<and> p \<noteq> []) ps)"

lemma strip_one_shorter: "strip_one ps s = Some t \<Longrightarrow> length t < length s"
  by (cases s) (auto simp: strip_one_def find_Some_iff)

function strip_front :: "string list \<Rightarrow> string \<Rightarrow> string" where
  "strip_front ps s = (case strip_one ps s of None \<Rightarrow> s | Some t \<Rightarrow> strip_front ps t)"
  by pat_completeness auto
termination
  by (relation "measure (\<lambda>(ps, s). length s)") (auto simp: strip_one_shorter)

declare strip_front.simps [simp del]

text \<open>\<^verbatim>\<open>strings.TrimSpace\<close>.\<close>

definition trim_space :: "string \<Rightarrow> string" where
  "trim_space s =
     rev (strip_front (map rev space_encodings) (rev (strip_front space_encodings s)))"

text \<open>A string that neither starts nor ends with white space is not changed.\<close>

definition trimmed :: "string \<Rightarrow> bool" where
  "trimmed s \<longleftrightarrow> strip_one space_encodings s = None \<and> strip_one (map rev space_encodings) (rev s) = None"

lemma strip_front_None: "strip_one ps s = None \<Longrightarrow> strip_front ps s = s"
  by (simp add: strip_front.simps)

lemma trim_space_trimmed: "trimmed s \<Longrightarrow> trim_space s = s"
  by (simp add: trimmed_def trim_space_def strip_front_None)

lemma strip_front_stripped: "strip_one ps (strip_front ps s) = None"
  by (induction ps s rule: strip_front.induct) (subst strip_front.simps, auto split: option.splits)

lemma strip_front_suffix: "\<exists>p. s = p @ strip_front ps s"
proof (induction ps s rule: strip_front.induct)
  case (1 ps s)
  show ?case
  proof (cases "strip_one ps s")
    case None
    then show ?thesis by (simp add: strip_front_None)
  next
    case (Some t)
    then obtain k where "t = drop k s" by (auto simp: strip_one_def)
    then have "s = take k s @ t" by simp
    moreover from 1 [OF Some] obtain p where "t = p @ strip_front ps t" by blast
    ultimately have "s = (take k s @ p) @ strip_front ps t" by (metis append_assoc)
    moreover have "strip_front ps s = strip_front ps t" using Some by (simp add: strip_front.simps [of ps s])
    ultimately show ?thesis by metis
  qed
qed

lemma strip_one_prefix: "strip_one ps (s @ t) = None \<Longrightarrow> strip_one ps s = None"
proof -
  assume "strip_one ps (s @ t) = None"
  then have none: "\<And>p. p \<in> set ps \<Longrightarrow> \<not> (take (length p) (s @ t) = p \<and> p \<noteq> [])"
    by (auto simp: strip_one_def find_None_iff)
  have "\<not> (take (length p) s = p \<and> p \<noteq> [])" if "p \<in> set ps" for p
  proof
    assume p: "take (length p) s = p \<and> p \<noteq> []"
    then have "length p \<le> length s" by (metis length_take min.cobounded1)
    with p none [OF that] show False by simp
  qed
  then show ?thesis by (auto simp: strip_one_def find_None_iff)
qed

lemma trimmed_trim_space [simp]: "trimmed (trim_space s)"
proof -
  let ?f = "strip_front space_encodings s"
  obtain p where "rev ?f = p @ strip_front (map rev space_encodings) (rev ?f)"
    using strip_front_suffix by blast
  then have "?f = trim_space s @ rev p" by (metis rev_append rev_rev_ident trim_space_def)
  then have "strip_one space_encodings (trim_space s) = None"
    using strip_front_stripped [of space_encodings s] strip_one_prefix by metis
  moreover have "strip_one (map rev space_encodings) (rev (trim_space s)) = None"
    using strip_front_stripped by (simp add: trim_space_def)
  ultimately show ?thesis by (simp add: trimmed_def)
qed

lemmas trim_eval = trim_space_def space_encodings_def strip_front.simps strip_one_def

lemmas trimmed_eval = trimmed_def space_encodings_def strip_one_def

section \<open>Case folding against an ASCII constant\<close>

text \<open>
  \<^verbatim>\<open>strings.EqualFold(s, t)\<close> for an ASCII \<open>t\<close>, the only use in the packages. Besides the
  ASCII letters the Unicode folding orbits of ASCII characters contain U+017F (with s) and
  U+212A (with k).
\<close>

definition fold_rune :: "nat \<Rightarrow> nat" where
  "fold_rune r = (if 65 \<le> r \<and> r \<le> 90 then r + 32 else if r = 383 then 115 else if r = 8490 then 107 else r)"

definition equal_fold :: "string \<Rightarrow> string \<Rightarrow> bool" where
  "equal_fold s t \<longleftrightarrow> map fold_rune (runes s) = map fold_rune (runes t)"

lemma equal_fold_refl [simp]: "equal_fold s s"
  by (simp add: equal_fold_def)

lemmas equal_fold_eval = equal_fold_def runes_Cons fold_rune_def

section \<open>Numbers, durations and quoting in messages\<close>

fun digits :: "nat \<Rightarrow> string" where
  "digits n = (if n < 10 then [char_of (48 + n)] else digits (n div 10) @ [char_of (48 + n mod 10)])"

declare digits.simps [simp del]

definition itoa :: "int \<Rightarrow> string" where
  "itoa x = (if x < 0 then CHR ''-'' # digits (nat (- x)) else digits (nat x))"

definition pad_left :: "nat \<Rightarrow> string \<Rightarrow> string" where
  "pad_left n s = replicate (n - length s) (CHR ''0'') @ s"

text \<open>The fraction of \<open>v / 10 ^ prec\<close> without trailing zeros, as \<^verbatim>\<open>fmtFrac\<close> prints it.\<close>

definition frac_text :: "nat \<Rightarrow> nat \<Rightarrow> string" where
  "frac_text v prec =
     (let ds = rev (dropWhile (\<lambda>c. c = CHR ''0'') (rev (pad_left prec (digits (v mod 10 ^ prec))))) in
      if ds = [] then [] else CHR ''.'' # ds)"

definition unit_text :: "nat \<Rightarrow> nat \<Rightarrow> string \<Rightarrow> string" where
  "unit_text v prec u = digits (v div 10 ^ prec) @ frac_text v prec @ u"

text \<open>\<^verbatim>\<open>Duration.String\<close>.\<close>

definition duration_string :: "duration \<Rightarrow> string" where
  "duration_string d =
     (let u = nat \<bar>d\<bar>; secs = u div 1000000000; mins = secs div 60; body =
        (if u = 0 then ''0s''
         else if u < 1000 then unit_text u 0 ''ns''
         else if u < 1000000 then unit_text u 3 [CHR 0xC2, CHR 0xB5, CHR ''s'']
         else if u < 1000000000 then unit_text u 6 ''ms''
         else (if mins div 60 > 0 then digits (mins div 60) @ ''h'' else []) @
              (if mins > 0 then digits (mins mod 60) @ ''m'' else []) @
              digits (secs mod 60) @ frac_text u 9 @ ''s'')
      in if d < 0 then CHR ''-'' # body else body)"

definition hex_digit :: "nat \<Rightarrow> char" where
  "hex_digit n = (if n < 10 then char_of (48 + n) else char_of (87 + n))"

text \<open>
  The \<^verbatim>\<open>%q\<close> verb on ASCII text; bytes of printable non-ASCII runes are copied as Go copies
  them (runes that Go regards as unprintable are not escaped here).
\<close>

definition quote_char :: "char \<Rightarrow> string" where
  "quote_char c =
     (let b = byte c in
      if b = 34 \<or> b = 92 then [CHR 0x5C, c]
      else if b = 7 then [CHR 0x5C, CHR ''a''] else if b = 8 then [CHR 0x5C, CHR ''b'']
      else if b = 9 then [CHR 0x5C, CHR ''t''] else if b = 10 then [CHR 0x5C, CHR ''n'']
      else if b = 11 then [CHR 0x5C, CHR ''v''] else if b = 12 then [CHR 0x5C, CHR ''f'']
      else if b = 13 then [CHR 0x5C, CHR ''r'']
      else if b < 32 \<or> b = 127 then [CHR 0x5C, CHR ''x'', hex_digit (b div 16), hex_digit (b mod 16)]
      else [c])"

definition quote_text :: "string \<Rightarrow> string" where
  "quote_text s = [CHR 0x22] @ concat (map quote_char s) @ [CHR 0x22]"

end
