(* ===== verification/Apperr.thy ===== *)
theory Apperr
  imports Go_Text
begin

text \<open>
  Error values and the package \<^verbatim>\<open>apperr\<close>.

  A Go error is a value of an open interface type; what the packages do with errors is
  build them (\<^verbatim>\<open>errors.New\<close>, \<^verbatim>\<open>fmt.Errorf\<close> with wrapping verbs, their own struct
  types), walk them (\<^verbatim>\<open>errors.As\<close>, \<^verbatim>\<open>errors.Is\<close>) and print them. The datatype
  \<open>goerr\<close> has a constructor for each error type the packages distinguish and
  \<open>ForeignError\<close> for every other type, given by its text and by what it unwraps to. A
  \<^verbatim>\<open>nil\<close> error is \<^const>\<open>None\<close> of \<^typ>\<open>'a option\<close>.
\<close>

named_theorems apperr_defs \<open>definitions of the package apperr\<close>

section \<open>Error values\<close>

datatype Kind =
    KindUnknown | KindInvalidArgument | KindUnauthenticated | KindPermissionDenied | KindNotFound
  | KindAlreadyExists | KindConflict | KindFailedPrecondition | KindRateLimited | KindTimeout
  | KindUnavailable | KindInternal

text \<open>The status codes of gRPC and the details the packages attach to a status.\<close>

datatype code =
    codes_OK | codes_Canceled | codes_Unknown | codes_InvalidArgument | codes_DeadlineExceeded
  | codes_NotFound | codes_AlreadyExists | codes_PermissionDenied | codes_ResourceExhausted
  | codes_FailedPrecondition | codes_Aborted | codes_OutOfRange | codes_Unimplemented
  | codes_Internal | codes_Unavailable | codes_DataLoss | codes_Unauthenticated

datatype detail = ErrorInfo string string | BadRequest "(string \<times> string) list"

text \<open>Package-level error variables: compared by identity.\<close>

datatype sentinel =
    ContextCanceled | ContextDeadlineExceeded | ErrNoRows | ErrServerStopped | ErrServerClosed
  | ErrInvalidToken | ErrWrongType | ErrNotExist | ErrMismatch | ErrInvalidHash
  | ErrUnsupportedVersion | ErrBusy | ErrObjectNotFound | ErrTooLarge | ErrNotAnImage
  | ErrTooManyPix | ErrNotReady

datatype goerr =
    ErrorString string
  | Sentinel sentinel
  | WrapError string "goerr list"
  | AppError Kind string string "string \<Rightarrow> string option" "goerr option"
  | TerminalError goerr
  | ConflictError goerr
  | PgError string string string
  | StatusError code string "detail list"
  | ForeignError string "goerr list"

type_synonym 'a result = "goerr + 'a"

text \<open>What \<^verbatim>\<open>Unwrap\<close> yields, and the pre-order walk that \<^verbatim>\<open>errors.As\<close> and \<^verbatim>\<open>errors.Is\<close> make.\<close>

fun unwrap :: "goerr \<Rightarrow> goerr list" where
  "unwrap (WrapError _ es) = es"
| "unwrap (AppError _ _ _ _ (Some e)) = [e]"
| "unwrap (TerminalError e) = [e]"
| "unwrap (ConflictError e) = [e]"
| "unwrap (ForeignError _ es) = es"
| "unwrap _ = []"

lemma unwrap_smaller [termination_simp]: "x \<in> set (unwrap e) \<Longrightarrow> size x < size e"
  by (cases e rule: unwrap.cases) (auto simp: less_Suc_eq_le size_list_estimation' dest: size_list_estimation')

fun walk :: "goerr \<Rightarrow> goerr list" where
  "walk e = e # concat (map walk (unwrap e))"

declare walk.simps [simp del]

definition errors_As :: "(goerr \<Rightarrow> bool) \<Rightarrow> goerr option \<Rightarrow> goerr option" where
  "errors_As p err = (case err of None \<Rightarrow> None | Some e \<Rightarrow> find p (walk e))"

definition errors_Is :: "goerr option \<Rightarrow> sentinel \<Rightarrow> bool" where
  "errors_Is err t = (case err of None \<Rightarrow> False | Some e \<Rightarrow> Sentinel t \<in> set (walk e))"

lemma walk_self [simp]: "e \<in> set (walk e)"
  by (subst walk.simps) simp

lemma walk_trans: "x \<in> set (walk y) \<Longrightarrow> y \<in> set (walk z) \<Longrightarrow> x \<in> set (walk z)"
proof (induction z rule: walk.induct)
  case (1 z)
  show ?case
  proof (cases "y = z")
    case False
    with "1.prems"(2) obtain u where u: "u \<in> set (unwrap z)" "y \<in> set (walk u)"
      by (auto simp: walk.simps [of z])
    with "1.IH" "1.prems"(1) have "x \<in> set (walk u)" by blast
    with u(1) show ?thesis by (auto simp: walk.simps [of z])
  qed (use "1.prems" in simp)
qed

lemma errors_As_SomeD:
  "errors_As p err = Some x \<Longrightarrow> p x \<and> (\<exists>e. err = Some e \<and> x \<in> set (walk e))"
  by (auto simp: errors_As_def find_Some_iff split: option.splits)

lemma errors_As_None_iff:
  "errors_As p err = None \<longleftrightarrow> (\<forall>e. err = Some e \<longrightarrow> (\<forall>x \<in> set (walk e). \<not> p x))"
  by (auto simp: errors_As_def find_None_iff split: option.splits)

lemma errors_As_self: "p e \<Longrightarrow> errors_As p (Some e) = Some e"
  by (simp add: errors_As_def walk.simps [of e])

text \<open>A node that is not itself a match and unwraps to one error is looked through.\<close>

lemma errors_As_skip: "\<not> p e \<Longrightarrow> unwrap e = [x] \<Longrightarrow> errors_As p (Some e) = errors_As p (Some x)"
  by (simp add: errors_As_def walk.simps [of e])

lemma errors_Is_skip: "unwrap e = [x] \<Longrightarrow> e \<noteq> Sentinel t \<Longrightarrow> errors_Is (Some e) t = errors_Is (Some x) t"
  by (simp add: errors_Is_def walk.simps [of e])

lemma errors_Is_sentinel [simp]: "errors_Is (Some (Sentinel s)) t \<longleftrightarrow> s = t"
  by (auto simp: errors_Is_def walk.simps)

section \<open>The text of an error\<close>

text \<open>\<^verbatim>\<open>codes.Code.String\<close>.\<close>

fun code_String :: "code \<Rightarrow> string" where
  "code_String codes_OK = ''OK''"
| "code_String codes_Canceled = ''Canceled''"
| "code_String codes_Unknown = ''Unknown''"
| "code_String codes_InvalidArgument = ''InvalidArgument''"
| "code_String codes_DeadlineExceeded = ''DeadlineExceeded''"
| "code_String codes_NotFound = ''NotFound''"
| "code_String codes_AlreadyExists = ''AlreadyExists''"
| "code_String codes_PermissionDenied = ''PermissionDenied''"
| "code_String codes_ResourceExhausted = ''ResourceExhausted''"
| "code_String codes_FailedPrecondition = ''FailedPrecondition''"
| "code_String codes_Aborted = ''Aborted''"
| "code_String codes_OutOfRange = ''OutOfRange''"
| "code_String codes_Unimplemented = ''Unimplemented''"
| "code_String codes_Internal = ''Internal''"
| "code_String codes_Unavailable = ''Unavailable''"
| "code_String codes_DataLoss = ''DataLoss''"
| "code_String codes_Unauthenticated = ''Unauthenticated''"

fun sentinel_text :: "sentinel \<Rightarrow> string" where
  "sentinel_text ContextCanceled = ''context canceled''"
| "sentinel_text ContextDeadlineExceeded = ''context deadline exceeded''"
| "sentinel_text ErrNoRows = ''no rows in result set''"
| "sentinel_text ErrServerStopped = ''grpc: the server has been stopped''"
| "sentinel_text ErrServerClosed = ''http: Server closed''"
| "sentinel_text ErrInvalidToken = ''token: invalid token''"
| "sentinel_text ErrWrongType = ''token: unexpected token type''"
| "sentinel_text ErrNotExist = ''file does not exist''"
| "sentinel_text ErrMismatch = ''password: hash and password do not match''"
| "sentinel_text ErrInvalidHash = ''password: invalid hash format''"
| "sentinel_text ErrUnsupportedVersion = ''password: unsupported argon2 version''"
| "sentinel_text ErrBusy = ''password: hasher is busy''"
| "sentinel_text ErrObjectNotFound = ''filestorage: object not found''"
| "sentinel_text ErrTooLarge = ''filestorage: image is too large''"
| "sentinel_text ErrNotAnImage = ''filestorage: file is not a supported image''"
| "sentinel_text ErrTooManyPix = ''filestorage: image resolution is too high''"
| "sentinel_text ErrNotReady = ''not ready''"

text \<open>
  \<^verbatim>\<open>(*Error).Error\<close>, given the text of the wrapped error if there is one. The text of a
  PostgreSQL error or of a foreign type is carried by its constructor.
\<close>

definition apperr_Error :: "string \<Rightarrow> string \<Rightarrow> string option \<Rightarrow> string" where
  "apperr_Error code message err =
     (case err of
        Some t \<Rightarrow> if message \<noteq> [] then code @ '': '' @ message @ '': '' @ t else code @ '': '' @ t
      | None \<Rightarrow> if message \<noteq> [] then code @ '': '' @ message else code)"

fun error_text :: "goerr \<Rightarrow> string" where
  "error_text (ErrorString t) = t"
| "error_text (Sentinel s) = sentinel_text s"
| "error_text (WrapError t _) = t"
| "error_text (AppError _ c m _ None) = apperr_Error c m None"
| "error_text (AppError _ c m _ (Some e)) = apperr_Error c m (Some (error_text e))"
| "error_text (TerminalError e) = error_text e"
| "error_text (ConflictError e) = error_text e"
| "error_text (PgError _ _ t) = t"
| "error_text (StatusError c m _) = ''rpc error: code = '' @ code_String c @ '' desc = '' @ m"
| "error_text (ForeignError t _) = t"

text \<open>\<^verbatim>\<open>fmt.Errorf(prefix + "%w", e)\<close> and \<^verbatim>\<open>fmt.Errorf("%w: %w", a, b)\<close>.\<close>

definition errorf :: "string \<Rightarrow> goerr \<Rightarrow> goerr" where
  "errorf prefix e = WrapError (prefix @ error_text e) [e]"

definition errorf2 :: "goerr \<Rightarrow> goerr \<Rightarrow> goerr" where
  "errorf2 a b = WrapError (error_text a @ '': '' @ error_text b) [a, b]"

lemma errors_Is_wrap: "errors_Is (Some (WrapError t [e])) s \<longleftrightarrow> errors_Is (Some e) s"
  by (rule errors_Is_skip) auto

lemma errors_Is_errorf: "errors_Is (Some (errorf p e)) s \<longleftrightarrow> errors_Is (Some e) s"
  by (simp add: errorf_def errors_Is_wrap)

lemma errors_Is_errorf2: "errors_Is (Some (errorf2 (Sentinel s) e)) s"
  by (simp add: errors_Is_def errorf2_def walk.simps [of "WrapError _ _"])

section \<open>apperr\<close>

fun Kind_String :: "Kind \<Rightarrow> string" where
  "Kind_String KindInvalidArgument = ''invalid_argument''"
| "Kind_String KindUnauthenticated = ''unauthenticated''"
| "Kind_String KindPermissionDenied = ''permission_denied''"
| "Kind_String KindNotFound = ''not_found''"
| "Kind_String KindAlreadyExists = ''already_exists''"
| "Kind_String KindConflict = ''conflict''"
| "Kind_String KindFailedPrecondition = ''failed_precondition''"
| "Kind_String KindRateLimited = ''rate_limited''"
| "Kind_String KindTimeout = ''timeout''"
| "Kind_String KindUnavailable = ''unavailable''"
| "Kind_String KindInternal = ''internal''"
| "Kind_String KindUnknown = ''unknown''"

definition apperr_New :: "Kind \<Rightarrow> string \<Rightarrow> string \<Rightarrow> goerr" where [apperr_defs]:
  "apperr_New kind code message = AppError kind code message Map.empty None"

text \<open>\<^verbatim>\<open>Wrap\<close> of a nil error is a nil pointer.\<close>

definition apperr_Wrap :: "goerr option \<Rightarrow> Kind \<Rightarrow> string \<Rightarrow> string \<Rightarrow> goerr option" where [apperr_defs]:
  "apperr_Wrap err kind code message =
     (case err of None \<Rightarrow> None | Some e \<Rightarrow> Some (AppError kind code message Map.empty (Some e)))"

definition apperr_Unwrap :: "goerr \<Rightarrow> goerr option" where [apperr_defs]:
  "apperr_Unwrap e = (case e of AppError _ _ _ _ err \<Rightarrow> err | _ \<Rightarrow> None)"

definition apperr_WithField :: "goerr \<Rightarrow> string \<Rightarrow> string \<Rightarrow> goerr" where [apperr_defs]:
  "apperr_WithField e key val =
     (case e of AppError k c m fields err \<Rightarrow> AppError k c m (fields(key \<mapsto> val)) err | _ \<Rightarrow> e)"

fun is_app :: "goerr \<Rightarrow> bool" where
  "is_app (AppError _ _ _ _ _) = True"
| "is_app _ = False"

definition apperr_As :: "goerr option \<Rightarrow> goerr option" where [apperr_defs]:
  "apperr_As err = errors_As is_app err"

definition apperr_KindOf :: "goerr option \<Rightarrow> Kind" where [apperr_defs]:
  "apperr_KindOf err =
     (case errors_As is_app err of Some (AppError k _ _ _ _) \<Rightarrow> k | _ \<Rightarrow> KindUnknown)"

definition apperr_CodeOf :: "goerr option \<Rightarrow> string" where [apperr_defs]:
  "apperr_CodeOf err =
     (case errors_As is_app err of Some (AppError _ c _ _ _) \<Rightarrow> c | _ \<Rightarrow> [])"

definition apperr_Is :: "goerr option \<Rightarrow> Kind \<Rightarrow> bool" where [apperr_defs]:
  "apperr_Is err kind \<longleftrightarrow> apperr_KindOf err = kind"

definition apperr_InvalidArgument :: "string \<Rightarrow> string \<Rightarrow> goerr" where
  "apperr_InvalidArgument code message = apperr_New KindInvalidArgument code message"
definition apperr_Unauthenticated :: "string \<Rightarrow> string \<Rightarrow> goerr" where
  "apperr_Unauthenticated code message = apperr_New KindUnauthenticated code message"
definition apperr_PermissionDenied :: "string \<Rightarrow> string \<Rightarrow> goerr" where
  "apperr_PermissionDenied code message = apperr_New KindPermissionDenied code message"
definition apperr_NotFound :: "string \<Rightarrow> string \<Rightarrow> goerr" where
  "apperr_NotFound code message = apperr_New KindNotFound code message"
definition apperr_AlreadyExists :: "string \<Rightarrow> string \<Rightarrow> goerr" where
  "apperr_AlreadyExists code message = apperr_New KindAlreadyExists code message"
definition apperr_Conflict :: "string \<Rightarrow> string \<Rightarrow> goerr" where
  "apperr_Conflict code message = apperr_New KindConflict code message"
definition apperr_FailedPrecondition :: "string \<Rightarrow> string \<Rightarrow> goerr" where
  "apperr_FailedPrecondition code message = apperr_New KindFailedPrecondition code message"
definition apperr_RateLimited :: "string \<Rightarrow> string \<Rightarrow> goerr" where
  "apperr_RateLimited code message = apperr_New KindRateLimited code message"
definition apperr_Internal :: "string \<Rightarrow> string \<Rightarrow> goerr" where
  "apperr_Internal code message = apperr_New KindInternal code message"

section \<open>Properties\<close>

lemma is_app_iff: "is_app e \<longleftrightarrow> (\<exists>k c m f x. e = AppError k c m f x)"
  by (cases e) auto

lemma apperr_As_app: "apperr_As err = Some x \<Longrightarrow> is_app x"
  by (auto simp: apperr_As_def dest: errors_As_SomeD)

lemma apperr_As_through_errorf: "apperr_As (Some (errorf p e)) = apperr_As (Some e)"
  by (simp add: apperr_As_def errorf_def errors_As_skip)

lemma apperr_As_Terminal: "apperr_As (Some (TerminalError e)) = apperr_As (Some e)"
  by (simp add: apperr_As_def errors_As_skip)

lemma apperr_As_self: "is_app e \<Longrightarrow> apperr_As (Some e) = Some e"
  by (simp add: apperr_As_def errors_As_self)

lemma apperr_As_AppError [simp]: "apperr_As (Some (AppError k c m f x)) = Some (AppError k c m f x)"
  by (simp add: apperr_As_self)

end
