(* ===== verification/Postgres.thy ===== *)
theory Postgres
  imports Apperr
begin

text \<open>
  The package \<^verbatim>\<open>postgresql\<close>: configuration defaulting and validation, the translation of
  PostgreSQL errors into \<^verbatim>\<open>apperr\<close> errors, and the transaction wrappers.
\<close>

named_theorems pg_defs \<open>definitions of the package postgresql\<close>

section \<open>Configuration\<close>

record pg_Config =
  pg_DSN :: string
  pg_Host :: string
  pg_Port :: int
  pg_User :: string
  pg_Password :: string
  pg_Database :: string
  pg_SSLMode :: string
  pg_MinConns :: int
  pg_MaxConns :: int
  pg_MaxConnLifetime :: duration
  pg_MaxConnIdleTime :: duration
  pg_HealthCheckPeriod :: duration
  pg_ConnectTimeout :: duration
  pg_DisablePreparedStatements :: bool

definition DefaultConfig :: pg_Config where
  "DefaultConfig =
     \<lparr>pg_DSN = [], pg_Host = ''localhost'', pg_Port = 5432, pg_User = ''postgres'', pg_Password = [],
      pg_Database = ''postgres'', pg_SSLMode = ''disable'', pg_MinConns = 2, pg_MaxConns = 20,
      pg_MaxConnLifetime = 30 * minute, pg_MaxConnIdleTime = 5 * minute, pg_HealthCheckPeriod = minute,
      pg_ConnectTimeout = 10 * second, pg_DisablePreparedStatements = False\<rparr>"

definition pg_withDefaults :: "pg_Config \<Rightarrow> pg_Config" where
  "pg_withDefaults c =
     c\<lparr>pg_Host := if pg_Host c = [] then pg_Host DefaultConfig else pg_Host c,
       pg_Port := if pg_Port c = 0 then pg_Port DefaultConfig else pg_Port c,
       pg_User := if pg_User c = [] then pg_User DefaultConfig else pg_User c,
       pg_Database := if pg_Database c = [] then pg_Database DefaultConfig else pg_Database c,
       pg_SSLMode := if pg_SSLMode c = [] then pg_SSLMode DefaultConfig else pg_SSLMode c,
       pg_MinConns := if pg_MinConns c = 0 then pg_MinConns DefaultConfig else pg_MinConns c,
       pg_MaxConns := if pg_MaxConns c = 0 then pg_MaxConns DefaultConfig else pg_MaxConns c,
       pg_MaxConnLifetime := if pg_MaxConnLifetime c = 0 then pg_MaxConnLifetime DefaultConfig else pg_MaxConnLifetime c,
       pg_MaxConnIdleTime := if pg_MaxConnIdleTime c = 0 then pg_MaxConnIdleTime DefaultConfig else pg_MaxConnIdleTime c,
       pg_HealthCheckPeriod := if pg_HealthCheckPeriod c = 0 then pg_HealthCheckPeriod DefaultConfig else pg_HealthCheckPeriod c,
       pg_ConnectTimeout := if pg_ConnectTimeout c = 0 then pg_ConnectTimeout DefaultConfig else pg_ConnectTimeout c\<rparr>"

definition pg_Validate :: "pg_Config \<Rightarrow> goerr option" where
  "pg_Validate c =
     (let cfg = pg_withDefaults c in
      if pg_MinConns cfg < 0 then
        Some (ErrorString (''postgresql: min conns must be >= 0, got '' @ itoa (pg_MinConns cfg)))
      else if pg_MaxConns cfg \<le> 0 then
        Some (ErrorString (''postgresql: max conns must be > 0, got '' @ itoa (pg_MaxConns cfg)))
      else if pg_MinConns cfg > pg_MaxConns cfg then
        Some (ErrorString (''postgresql: min conns ('' @ itoa (pg_MinConns cfg) @
          '') must not exceed max conns ('' @ itoa (pg_MaxConns cfg) @ '')''))
      else None)"

definition pg_complete :: "pg_Config \<Rightarrow> bool" where
  "pg_complete c \<longleftrightarrow>
     pg_Host c \<noteq> [] \<and> pg_Port c \<noteq> 0 \<and> pg_User c \<noteq> [] \<and> pg_Database c \<noteq> [] \<and> pg_SSLMode c \<noteq> [] \<and>
     pg_MinConns c \<noteq> 0 \<and> pg_MaxConns c \<noteq> 0 \<and> pg_MaxConnLifetime c \<noteq> 0 \<and> pg_MaxConnIdleTime c \<noteq> 0 \<and>
     pg_HealthCheckPeriod c \<noteq> 0 \<and> pg_ConnectTimeout c \<noteq> 0"

interpretation pg_cfg: defaulting pg_withDefaults pg_complete
  by unfold_locales
     (auto simp: pg_complete_def pg_withDefaults_def DefaultConfig_def duration_units)

lemma pg_Validate_None_iff:
  "pg_Validate c = None \<longleftrightarrow>
     0 \<le> pg_MinConns (pg_withDefaults c) \<and> 0 < pg_MaxConns (pg_withDefaults c) \<and>
     pg_MinConns (pg_withDefaults c) \<le> pg_MaxConns (pg_withDefaults c)"
  by (auto simp: pg_Validate_def Let_def)

lemma pg_Validate_withDefaults: "pg_Validate (pg_withDefaults c) = pg_Validate c"
  by (simp add: pg_Validate_def pg_cfg.defaults_idem)

section \<open>Errors\<close>

definition CodeUniqueViolation :: string where "CodeUniqueViolation = ''23505''"
definition CodeForeignKeyViolation :: string where "CodeForeignKeyViolation = ''23503''"
definition CodeNotNullViolation :: string where "CodeNotNullViolation = ''23502''"
definition CodeCheckViolation :: string where "CodeCheckViolation = ''23514''"
definition CodeExclusionViolation :: string where "CodeExclusionViolation = ''23P01''"
definition CodeSerializationFailure :: string where "CodeSerializationFailure = ''40001''"
definition CodeDeadlockDetected :: string where "CodeDeadlockDetected = ''40P01''"
definition CodeQueryCanceled :: string where "CodeQueryCanceled = ''57014''"
definition CodeLockNotAvailable :: string where "CodeLockNotAvailable = ''55P03''"

lemmas sqlstate_defs =
  CodeUniqueViolation_def CodeForeignKeyViolation_def CodeNotNullViolation_def CodeCheckViolation_def
  CodeExclusionViolation_def CodeSerializationFailure_def CodeDeadlockDetected_def
  CodeQueryCanceled_def CodeLockNotAvailable_def

fun is_pg :: "goerr \<Rightarrow> bool" where
  "is_pg (PgError _ _ _) = True"
| "is_pg _ = False"

definition asPgError :: "goerr option \<Rightarrow> goerr option" where
  "asPgError err = errors_As is_pg err"

text \<open>The kind, code and message of each SQLSTATE: the switch of \<^verbatim>\<open>MapError\<close>.\<close>

definition pg_classify :: "string \<Rightarrow> Kind \<times> string \<times> string" where
  "pg_classify sqlstate =
     (if sqlstate = CodeUniqueViolation then
        (KindAlreadyExists, ''already_exists'', ''resource already exists'')
      else if sqlstate = CodeForeignKeyViolation then
        (KindFailedPrecondition, ''foreign_key_violation'', ''related resource is missing'')
      else if sqlstate = CodeNotNullViolation \<or> sqlstate = CodeCheckViolation \<or> sqlstate = CodeExclusionViolation then
        (KindInvalidArgument, ''constraint_violation'', ''request violates a data constraint'')
      else if sqlstate = CodeSerializationFailure \<or> sqlstate = CodeDeadlockDetected \<or> sqlstate = CodeLockNotAvailable then
        (KindConflict, ''write_conflict'', ''concurrent update, please retry'')
      else if sqlstate = CodeQueryCanceled then
        (KindTimeout, ''query_canceled'', ''request timed out'')
      else (KindInternal, ''database_error'', ''internal error''))"

text \<open>\<^verbatim>\<open>mapped\<close>, the closure of \<^verbatim>\<open>MapError\<close>.\<close>

definition pg_mapped :: "goerr \<Rightarrow> string \<Rightarrow> string \<Rightarrow> Kind \<times> string \<times> string \<Rightarrow> goerr option" where
  "pg_mapped err sqlstate constraint = (\<lambda>(kind, code, message).
     map_option (\<lambda>e. apperr_WithField (apperr_WithField e ''pg_code'' sqlstate) ''pg_constraint'' constraint)
       (apperr_Wrap (Some err) kind code message))"

definition pg_MapError :: "goerr option \<Rightarrow> goerr option" where
  "pg_MapError err =
     (case err of
        None \<Rightarrow> None
      | Some e \<Rightarrow>
          if errors_Is err ErrNoRows then
            apperr_Wrap err KindNotFound ''not_found'' ''resource not found''
          else (case asPgError err of
              Some (PgError sqlstate constraint _) \<Rightarrow> pg_mapped e sqlstate constraint (pg_classify sqlstate)
            | _ \<Rightarrow> apperr_Wrap err KindInternal ''database_error'' ''internal error''))"

definition IsUniqueViolation :: "goerr option \<Rightarrow> string list \<Rightarrow> bool" where
  "IsUniqueViolation err constraints =
     (case asPgError err of
        Some (PgError sqlstate constraint _) \<Rightarrow>
          sqlstate = CodeUniqueViolation \<and> (constraints = [] \<or> constraint \<in> set constraints)
      | _ \<Rightarrow> False)"

definition IsForeignKeyViolation :: "goerr option \<Rightarrow> bool" where
  "IsForeignKeyViolation err =
     (case asPgError err of
        Some (PgError sqlstate _ _) \<Rightarrow> sqlstate = CodeForeignKeyViolation
      | _ \<Rightarrow> False)"

definition IsNoRows :: "goerr option \<Rightarrow> bool" where
  "IsNoRows err = errors_Is err ErrNoRows"

lemma asPgError_SomeD: "asPgError err = Some x \<Longrightarrow> \<exists>s c t. x = PgError s c t"
  by (auto simp: asPgError_def dest!: errors_As_SomeD elim: is_pg.elims)

lemma pg_mapped_eq:
  "pg_mapped e s c (k, code, m) =
     Some (AppError k code m [''pg_code'' \<mapsto> s, ''pg_constraint'' \<mapsto> c] (Some e))"
  by (simp add: pg_mapped_def apperr_Wrap_def apperr_WithField_def)

text \<open>The result is always an application error that wraps the original one.\<close>

lemma pg_MapError_app:
  assumes "pg_MapError (Some e) = r"
  shows "\<exists>k c m f. r = Some (AppError k c m f (Some e))"
proof (cases "asPgError (Some e)")
  case None
  with assms show ?thesis by (auto simp: pg_MapError_def apperr_Wrap_def)
next
  case (Some x)
  then obtain s c t where "x = PgError s c t" by (blast dest: asPgError_SomeD)
  with Some assms show ?thesis
    by (cases "pg_classify s") (auto simp: pg_MapError_def apperr_Wrap_def pg_mapped_eq)
qed

section \<open>Transactions\<close>

text \<open>
  \<^verbatim>\<open>InTx\<close> and \<^verbatim>\<open>runTx\<close>. The driver (\<^verbatim>\<open>pgx.Tx\<close>) is a parameter: how beginning,
  committing and rolling back act on the database state. The body either returns an
  error value or panics; a panic runs the deferred rollback and goes on.
\<close>

datatype tx_outcome = TxReturn "goerr option" | TxPanic string

record 'd tx_driver =
  Begin :: "'d \<Rightarrow> goerr option \<times> 'd"
  Commit :: "'d \<Rightarrow> goerr option \<times> 'd"
  Rollback :: "'d \<Rightarrow> goerr option \<times> 'd"

definition runTx :: "'d tx_driver \<Rightarrow> ('d \<Rightarrow> tx_outcome \<times> 'd) \<Rightarrow> 'd \<Rightarrow> tx_outcome \<times> 'd" where
  "runTx drv fn d =
     (case fn d of
        (TxPanic p, d1) \<Rightarrow> (TxPanic p, snd (Rollback drv d1))
      | (TxReturn (Some e), d1) \<Rightarrow> (TxReturn (Some e), snd (Rollback drv d1))
      | (TxReturn None, d1) \<Rightarrow>
          (case Commit drv d1 of
             (Some e, d2) \<Rightarrow> (TxReturn (Some (errorf ''postgresql: commit tx: '' e)), snd (Rollback drv d2))
           | (None, d2) \<Rightarrow> (TxReturn None, d2)))"

definition InTx :: "'d tx_driver \<Rightarrow> ('d \<Rightarrow> tx_outcome \<times> 'd) \<Rightarrow> 'd \<Rightarrow> tx_outcome \<times> 'd" where
  "InTx drv fn d =
     (case Begin drv d of
        (Some e, d1) \<Rightarrow> (TxReturn (Some (errorf ''postgresql: begin tx: '' e)), d1)
      | (None, d1) \<Rightarrow> runTx drv fn d1)"

text \<open>\<^verbatim>\<open>InTxOptions\<close> differs in the call that begins the transaction.\<close>

definition InTxOptions ::
  "('o \<Rightarrow> 'd \<Rightarrow> goerr option \<times> 'd) \<Rightarrow> 'd tx_driver \<Rightarrow> 'o \<Rightarrow> ('d \<Rightarrow> tx_outcome \<times> 'd) \<Rightarrow> 'd \<Rightarrow> tx_outcome \<times> 'd" where
  "InTxOptions begin_tx drv options fn d =
     (case begin_tx options d of
        (Some e, d1) \<Rightarrow> (TxReturn (Some (errorf ''postgresql: begin tx: '' e)), d1)
      | (None, d1) \<Rightarrow> runTx drv fn d1)"

text \<open>
  What a client may rely on. \<open>opened\<close> says that a transaction is open, \<open>committed\<close> is the
  durable state, \<open>pending\<close> the state a transaction sees. A commit that reports an error may still have taken effect (the
  acknowledgement can be lost), so its law allows both states.
\<close>

locale transactional =
  fixes drv :: "'d tx_driver"
    and opened :: "'d \<Rightarrow> bool"
    and committed :: "'d \<Rightarrow> 's"
    and pending :: "'d \<Rightarrow> 's"
  assumes begin_ok: "Begin drv d = (None, d') \<Longrightarrow>
      opened d' \<and> committed d' = committed d \<and> pending d' = committed d"
    and begin_err: "Begin drv d = (Some e, d') \<Longrightarrow> committed d' = committed d"
    and commit_ok: "Commit drv d = (None, d') \<Longrightarrow> committed d' = pending d"
    and commit_err: "Commit drv d = (Some e, d') \<Longrightarrow> committed d' = committed d \<or> committed d' = pending d"
    and rollback_keeps: "committed (snd (Rollback drv d)) = committed d"
begin

text \<open>The body works inside the transaction: it does not touch the durable state.\<close>

definition confined :: "('d \<Rightarrow> tx_outcome \<times> 'd) \<Rightarrow> bool" where
  "confined fn \<longleftrightarrow> (\<forall>d. opened d \<longrightarrow> committed (snd (fn d)) = committed d)"

lemma confinedD: "confined fn \<Longrightarrow> opened d \<Longrightarrow> fn d = (out, d1) \<Longrightarrow> committed d1 = committed d"
  by (metis confined_def snd_conv)

lemma runTx_aborted:
  assumes "confined fn" and "opened d" and "fn d = (out, d1)" and "out \<noteq> TxReturn None"
  shows "fst (runTx drv fn d) = out" and "committed (snd (runTx drv fn d)) = committed d"
proof -
  have "committed (snd (Rollback drv d1)) = committed d"
    using confinedD [OF assms(1-3)] by (simp add: rollback_keeps)
  then show "fst (runTx drv fn d) = out" and "committed (snd (runTx drv fn d)) = committed d"
    using assms by (auto simp: runTx_def split: tx_outcome.splits option.splits)
qed

lemma runTx_finished:
  assumes "confined fn" and "opened d" and "fn d = (TxReturn None, d1)"
  shows "committed (snd (runTx drv fn d)) = committed d \<or> committed (snd (runTx drv fn d)) = pending d1"
    and "fst (runTx drv fn d) = TxReturn None \<Longrightarrow> committed (snd (runTx drv fn d)) = pending d1"
    and "\<exists>r. fst (runTx drv fn d) = TxReturn r"
  using assms confinedD [OF assms] commit_ok [of d1] commit_err [of d1]
  by (auto simp: runTx_def rollback_keeps split: prod.splits option.splits)

text \<open>All or nothing, and a nil result means all.\<close>

lemma InTx_atomic:
  assumes fn: "confined fn" and run: "InTx drv fn d = (out, d')"
  shows "committed d' = committed d \<or>
    (\<exists>d0 d1. Begin drv d = (None, d0) \<and> fn d0 = (TxReturn None, d1) \<and> committed d' = pending d1)"
proof (cases "Begin drv d")
  case (Pair r d0)
  show ?thesis
  proof (cases r)
    case None
    with Pair have c0: "committed d0 = committed d" and o0: "opened d0" using begin_ok by auto
    obtain o1 d1 where f: "fn d0 = (o1, d1)" by (cases "fn d0") auto
    have d': "d' = snd (runTx drv fn d0)" using run Pair None by (simp add: InTx_def)
    show ?thesis
      using runTx_aborted(2) [OF fn o0 f] runTx_finished(1) [OF fn o0, of d1] f c0 d' Pair None by auto
  next
    case (Some e)
    with Pair run have "committed d' = committed d" using begin_err by (auto simp: InTx_def)
    then show ?thesis ..
  qed
qed

lemma InTx_nil_commits:
  assumes fn: "confined fn" and run: "InTx drv fn d = (TxReturn None, d')"
  shows "\<exists>d0 d1. Begin drv d = (None, d0) \<and> fn d0 = (TxReturn None, d1) \<and> committed d' = pending d1"
proof (cases "Begin drv d")
  case (Pair r d0)
  with run have r: "r = None" by (auto simp: InTx_def split: option.splits)
  have o0: "opened d0" using Pair r begin_ok by auto
  obtain o1 d1 where f: "fn d0 = (o1, d1)" by (cases "fn d0") auto
  have run0: "runTx drv fn d0 = (TxReturn None, d')" using run Pair r by (simp add: InTx_def)
  have o1: "o1 = TxReturn None" using runTx_aborted(1) [OF fn o0 f] run0 by auto
  then have "committed d' = pending d1" using runTx_finished(2) [OF fn o0, of d1] f run0 by simp
  with Pair r f o1 show ?thesis by blast
qed

lemma InTx_abort_keeps:
  assumes fn: "confined fn" and b: "Begin drv d = (None, d0)" and f: "fn d0 = (out, d1)"
    and out: "out \<noteq> TxReturn None"
  shows "fst (InTx drv fn d) = out" and "committed (snd (InTx drv fn d)) = committed d"
  using runTx_aborted [OF fn conjunct1 [OF begin_ok [OF b]] f out] b begin_ok [OF b] by (auto simp: InTx_def)

end

end
