(* ===== verification/Outbox_Queue.thy ===== *)
theory Outbox_Queue
  imports Postgres "HOL-Library.Word"
begin

text \<open>
  The transactional outbox as a table (\<^verbatim>\<open>outbox/outbox.go\<close> and
  \<^verbatim>\<open>outbox/migrations\<close>). Each SQL statement of the package is a function on the list of
  rows, run at the time \<open>now\<close> of the database (microseconds). The list order stands for
  the physical order of the table, which decides ties of \<^verbatim>\<open>ORDER BY\<close>; every statement
  about tables is about every order.

  The database itself may refuse a statement or lose the reply: \<open>db_fault\<close> says which,
  per statement. The driver may report an error of a query at the call or only when the
  rows are read (\<open>late_errors\<close>). Rows locked by other sessions are listed in \<open>locks\<close>
  (\<^verbatim>\<open>FOR UPDATE SKIP LOCKED\<close> passes over them).
\<close>

named_theorems outbox_defs \<open>definitions of the SQL statements\<close>

section \<open>The table\<close>

type_synonym uuid = "128 word"

record row =
  row_id :: uuid
  kind :: string
  payload :: string
  attempts :: int
  max_attempts :: int
  next_attempt_at :: int
  failed_at :: "int option"
  last_error :: "string option"
  created_at :: int

type_synonym table = "row list"

record Message =
  ID :: uuid
  Kind :: string
  Payload :: string
  Attempts :: int
  MaxAttempts :: int

definition message_of :: "row \<Rightarrow> Message" where
  "message_of r =
     \<lparr>ID = row_id r, Kind = kind r, Payload = payload r, Attempts = attempts r, MaxAttempts = max_attempts r\<rparr>"

text \<open>What the column types accept: text is valid UTF-8 without NUL, \<^verbatim>\<open>last_error\<close> has at most
  512 characters, \<^verbatim>\<open>smallint\<close> is 16 bits wide.\<close>

definition pg_text :: "string \<Rightarrow> bool" where
  "pg_text s \<longleftrightarrow> utf8_valid s \<and> (\<forall>c \<in> set s. byte c \<noteq> 0)"

definition varchar :: "nat \<Rightarrow> string \<Rightarrow> bool" where
  "varchar n s \<longleftrightarrow> pg_text s \<and> length (runes s) \<le> n"

definition smallint :: "int \<Rightarrow> bool" where
  "smallint x \<longleftrightarrow> - 32768 \<le> x \<and> x \<le> 32767"

definition out_of_range :: goerr where
  "out_of_range = PgError ''22003'' [] ''smallint out of range''"

definition bad_encoding :: goerr where
  "bad_encoding = PgError ''22021'' [] ''invalid byte sequence for encoding''"

definition interval :: "int \<Rightarrow> int" where
  "interval secs = secs * 1000000"

section \<open>Statements\<close>

definition update_where :: "uuid \<Rightarrow> (row \<Rightarrow> row) \<Rightarrow> table \<Rightarrow> table" where
  "update_where i f t = map (\<lambda>r. if row_id r = i then f r else r) t"

text \<open>\<^verbatim>\<open>Claim\<close>.\<close>

definition due :: "int \<Rightarrow> row \<Rightarrow> bool" where
  "due now r \<longleftrightarrow> failed_at r = None \<and> next_attempt_at r \<le> now"

definition claim_ids :: "int \<Rightarrow> int \<Rightarrow> uuid list \<Rightarrow> table \<Rightarrow> uuid list" where
  "claim_ids now limit locked t =
     map row_id (take (nat limit)
       (sort_key next_attempt_at (filter (\<lambda>r. due now r \<and> row_id r \<notin> set locked) t)))"

definition claim_row :: "int \<Rightarrow> int \<Rightarrow> row \<Rightarrow> row" where
  "claim_row now secs r = r\<lparr>attempts := attempts r + 1, next_attempt_at := now + interval secs\<rparr>"

definition sql_claim :: "int \<Rightarrow> int \<Rightarrow> uuid list \<Rightarrow> int \<Rightarrow> table \<Rightarrow> (table \<times> Message list) result" where
  "sql_claim secs limit locked now t =
     (let ids = claim_ids now limit locked t; picked = filter (\<lambda>r. row_id r \<in> set ids) t in
      if limit < 0 then Inl (PgError ''2201W'' [] ''LIMIT must not be negative'')
      else if \<exists>r \<in> set picked. \<not> smallint (attempts r + 1) then Inl out_of_range
      else Inr (map (\<lambda>r. if row_id r \<in> set ids then claim_row now secs r else r) t,
                map (message_of \<circ> claim_row now secs) picked))"

text \<open>\<^verbatim>\<open>Complete\<close>, \<^verbatim>\<open>Retry\<close>, \<^verbatim>\<open>Defer\<close>, \<^verbatim>\<open>Fail\<close>.\<close>

definition sql_complete :: "uuid \<Rightarrow> int \<Rightarrow> table \<Rightarrow> (table \<times> unit) result" where
  "sql_complete i now t = Inr (filter (\<lambda>r. row_id r \<noteq> i) t, ())"

definition retry_row :: "int \<Rightarrow> int \<Rightarrow> string option \<Rightarrow> row \<Rightarrow> row" where
  "retry_row now secs reason r =
     r\<lparr>next_attempt_at := now + interval secs, last_error := reason,
       failed_at := if attempts r \<ge> max_attempts r then Some now else None\<rparr>"

definition reason_fits :: "string option \<Rightarrow> bool" where
  "reason_fits reason = (case reason of None \<Rightarrow> True | Some s \<Rightarrow> varchar 512 s)"

definition reason_error :: "string option \<Rightarrow> goerr" where
  "reason_error reason =
     (case reason of
        Some s \<Rightarrow> if pg_text s then PgError ''22001'' [] ''value too long for type character varying(512)''
                  else bad_encoding
      | None \<Rightarrow> bad_encoding)"

definition sql_retry :: "uuid \<Rightarrow> int \<Rightarrow> string option \<Rightarrow> int \<Rightarrow> table \<Rightarrow> (table \<times> unit) result" where
  "sql_retry i secs reason now t =
     (if \<not> reason_fits reason then Inl (reason_error reason)
      else Inr (update_where i (retry_row now secs reason) t, ()))"

definition defer_row :: "int \<Rightarrow> int \<Rightarrow> row \<Rightarrow> row" where
  "defer_row now secs r =
     r\<lparr>next_attempt_at := now + interval secs, attempts := max (attempts r - 1) 0\<rparr>"

definition sql_defer :: "uuid \<Rightarrow> int \<Rightarrow> int \<Rightarrow> table \<Rightarrow> (table \<times> unit) result" where
  "sql_defer i secs now t = Inr (update_where i (defer_row now secs) t, ())"

definition fail_row :: "int \<Rightarrow> string option \<Rightarrow> row \<Rightarrow> row" where
  "fail_row now reason r =
     (if failed_at r = None then r\<lparr>failed_at := Some now, last_error := reason\<rparr> else r)"

definition sql_fail :: "uuid \<Rightarrow> string option \<Rightarrow> int \<Rightarrow> table \<Rightarrow> (table \<times> unit) result" where
  "sql_fail i reason now t =
     (if \<not> reason_fits reason then Inl (reason_error reason)
      else Inr (update_where i (fail_row now reason) t, ()))"

text \<open>\<^verbatim>\<open>DeleteOldFailed\<close>, \<^verbatim>\<open>CountPending\<close>, \<^verbatim>\<open>CountFailed\<close>.\<close>

definition expired :: "int \<Rightarrow> int \<Rightarrow> row \<Rightarrow> bool" where
  "expired now secs r = (case failed_at r of None \<Rightarrow> False | Some f \<Rightarrow> f < now - interval secs)"

definition sql_cleanup :: "int \<Rightarrow> int \<Rightarrow> table \<Rightarrow> (table \<times> int) result" where
  "sql_cleanup secs now t =
     Inr (filter (\<lambda>r. \<not> expired now secs r) t, int (length (filter (expired now secs) t)))"

definition sql_count :: "(row \<Rightarrow> bool) \<Rightarrow> int \<Rightarrow> table \<Rightarrow> (table \<times> int) result" where
  "sql_count p now t = Inr (t, int (length (filter p t)))"

text \<open>
  \<^verbatim>\<open>Enqueue\<close>'s insertion. \<open>jsonb\<close> is PostgreSQL's input conversion of the payload column:
  \<^const>\<open>None\<close> where the bytes are not JSON, otherwise the stored text.
\<close>

definition sql_insert ::
  "(string \<Rightarrow> string option) \<Rightarrow> uuid \<Rightarrow> string \<Rightarrow> string \<Rightarrow> int \<Rightarrow> int \<Rightarrow> table \<Rightarrow> (table \<times> unit) result" where
  "sql_insert jsonb i k p n now t =
     (case jsonb p of
        None \<Rightarrow> Inl (PgError ''22P02'' [] ''invalid input syntax for type json'')
      | Some stored \<Rightarrow>
          if \<not> pg_text k then Inl bad_encoding
          else if i \<in> row_id ` set t then Inl (PgError CodeUniqueViolation ''outbox_pkey'' ''duplicate key'')
          else Inr (t @ [\<lparr>row_id = i, kind = k, payload = stored, attempts = 0, max_attempts = n,
                         next_attempt_at = now, failed_at = None, last_error = None,
                         created_at = now\<rparr>], ()))"

lemmas statement_defs =
  sql_complete_def sql_retry_def sql_defer_def sql_fail_def sql_cleanup_def sql_count_def

section \<open>Executing a statement\<close>

datatype db_fault = NoFault | Refused goerr | ReplyLost goerr

record pg =
  durable :: table
  working :: "table option"
  aborted :: bool
  clock :: int
  locks :: "uuid list"
  late_errors :: bool
  faults :: "db_fault list"

definition visible :: "pg \<Rightarrow> table" where
  "visible s = (case working s of None \<Rightarrow> durable s | Some t \<Rightarrow> t)"

definition store :: "table \<Rightarrow> pg \<Rightarrow> pg" where
  "store t s = (case working s of None \<Rightarrow> s\<lparr>durable := t\<rparr> | Some _ \<Rightarrow> s\<lparr>working := Some t\<rparr>)"

definition next_fault :: "pg \<Rightarrow> db_fault" where
  "next_fault s = (case faults s of [] \<Rightarrow> NoFault | f # _ \<Rightarrow> f)"

text \<open>
  Outside a transaction a statement commits by itself. Inside one, an error aborts the
  transaction and every later statement is refused until it ends.
\<close>

definition in_tx :: "pg \<Rightarrow> bool" where
  "in_tx s \<longleftrightarrow> working s \<noteq> None"

definition tx_aborted :: goerr where
  "tx_aborted = PgError ''25P02'' [] ''current transaction is aborted''"

definition sql_error :: "goerr \<Rightarrow> pg \<Rightarrow> 'a result \<times> pg" where
  "sql_error e s = (Inl e, s\<lparr>aborted := in_tx s\<rparr>)"

definition run_sql :: "(int \<Rightarrow> table \<Rightarrow> (table \<times> 'a) result) \<Rightarrow> pg \<Rightarrow> 'a result \<times> pg" where
  "run_sql stmt s =
     (let s1 = s\<lparr>faults := tl (faults s)\<rparr> in
      if in_tx s \<and> aborted s then (Inl tx_aborted, s1)
      else case next_fault s of
        Refused e \<Rightarrow> sql_error e s1
      | f \<Rightarrow>
          (case stmt (clock s) (visible s) of
             Inl e \<Rightarrow> sql_error e s1
           | Inr (t, x) \<Rightarrow>
               (case f of ReplyLost e \<Rightarrow> sql_error e (store t s1) | _ \<Rightarrow> (Inr x, store t s1))))"

text \<open>
  The transaction driver the package is used with, as seen by one session: \<^verbatim>\<open>Begin\<close>
  opens a working copy, \<^verbatim>\<open>Commit\<close> publishes it (or, for an aborted transaction, rolls back
  and reports it), \<^verbatim>\<open>Rollback\<close> drops it.
\<close>

definition pg_begin :: "pg \<Rightarrow> goerr option \<times> pg" where
  "pg_begin s =
     (let s1 = s\<lparr>faults := tl (faults s)\<rparr> in
      case next_fault s of
        NoFault \<Rightarrow> (None, s1\<lparr>working := Some (durable s), aborted := False\<rparr>)
      | Refused e \<Rightarrow> (Some e, s1)
      | ReplyLost e \<Rightarrow> (Some e, s1))"

definition publish :: "pg \<Rightarrow> pg" where
  "publish s = s\<lparr>durable := visible s, working := None, aborted := False\<rparr>"

definition pg_commit :: "pg \<Rightarrow> goerr option \<times> pg" where
  "pg_commit s =
     (let s1 = s\<lparr>faults := tl (faults s)\<rparr> in
      if aborted s then
        (Some (ErrorString ''commit unexpectedly resulted in rollback''), s1\<lparr>working := None, aborted := False\<rparr>)
      else case next_fault s of
        NoFault \<Rightarrow> (None, publish s1)
      | Refused e \<Rightarrow> (Some e, s1)
      | ReplyLost e \<Rightarrow> (Some e, publish s1))"

definition pg_rollback :: "pg \<Rightarrow> goerr option \<times> pg" where
  "pg_rollback s = (None, s\<lparr>working := None, aborted := False, faults := tl (faults s)\<rparr>)"

definition pg_driver :: "pg tx_driver" where
  "pg_driver = \<lparr>Begin = pg_begin, Commit = pg_commit, Rollback = pg_rollback\<rparr>"

section \<open>The Go functions\<close>

definition defaultMaxAttempts :: int where "defaultMaxAttempts = 5"
definition maxErrorLength :: nat where "maxErrorLength = 512"

definition truncate_reason :: "string \<Rightarrow> string option" where
  "truncate_reason reason =
     (if reason = [] then None
      else if length (runes reason) > maxErrorLength
      then Some (string_of_runes (take maxErrorLength (runes reason)))
      else Some reason)"

text \<open>The wrapping that each call adds to a database error.\<close>

definition wrap_db :: "string \<Rightarrow> 'a result \<times> pg \<Rightarrow> 'a result \<times> pg" where
  "wrap_db prefix rs = (case rs of (Inl e, s) \<Rightarrow> (Inl (errorf prefix e), s) | (Inr x, s) \<Rightarrow> (Inr x, s))"

definition Enqueue ::
  "(string \<Rightarrow> string option) \<Rightarrow> uuid result \<Rightarrow> string \<Rightarrow> string \<Rightarrow> int \<Rightarrow> pg \<Rightarrow> uuid result \<times> pg" where
  "Enqueue jsonb new_id k p maxAttempts s =
     (if k = [] then (Inl (ErrorString ''outbox: kind is required''), s)
      else if p = [] then (Inl (ErrorString ''outbox: payload is required''), s)
      else
        let n = (if maxAttempts \<le> 0 then defaultMaxAttempts else maxAttempts) in
        case new_id of
          Inl e \<Rightarrow> (Inl (errorf ''outbox: generate id: '' e), s)
        | Inr i \<Rightarrow>
            (case wrap_db ''outbox: enqueue: '' (run_sql (sql_insert jsonb i k p n) s) of
               (Inl e, s') \<Rightarrow> (Inl e, s')
             | (Inr _, s') \<Rightarrow> (Inr i, s')))"

definition repo_Claim :: "int \<Rightarrow> duration \<Rightarrow> pg \<Rightarrow> Message list result \<times> pg" where
  "repo_Claim batchSize visibility s =
     (let rs = run_sql (sql_claim (seconds_int32 visibility) batchSize (locks s)) s in
      if late_errors s then rs else wrap_db ''outbox: claim: '' rs)"

definition repo_Complete :: "uuid \<Rightarrow> pg \<Rightarrow> unit result \<times> pg" where
  "repo_Complete i s = wrap_db ''outbox: complete: '' (run_sql (sql_complete i) s)"

definition repo_Retry :: "uuid \<Rightarrow> duration \<Rightarrow> string \<Rightarrow> pg \<Rightarrow> unit result \<times> pg" where
  "repo_Retry i backoff reason s =
     wrap_db ''outbox: retry: '' (run_sql (sql_retry i (seconds_int32 backoff) (truncate_reason reason)) s)"

definition repo_Defer :: "uuid \<Rightarrow> duration \<Rightarrow> pg \<Rightarrow> unit result \<times> pg" where
  "repo_Defer i delay s = wrap_db ''outbox: defer: '' (run_sql (sql_defer i (seconds_int32 delay)) s)"

definition repo_Fail :: "uuid \<Rightarrow> string \<Rightarrow> pg \<Rightarrow> unit result \<times> pg" where
  "repo_Fail i reason s = wrap_db ''outbox: fail: '' (run_sql (sql_fail i (truncate_reason reason)) s)"

definition repo_CountPending :: "pg \<Rightarrow> int result \<times> pg" where
  "repo_CountPending s =
     wrap_db ''outbox: count pending: '' (run_sql (sql_count (\<lambda>r. failed_at r = None)) s)"

definition repo_CountFailed :: "pg \<Rightarrow> int result \<times> pg" where
  "repo_CountFailed s =
     wrap_db ''outbox: count failed: '' (run_sql (sql_count (\<lambda>r. failed_at r \<noteq> None)) s)"

definition repo_DeleteOldFailed :: "duration \<Rightarrow> pg \<Rightarrow> int result \<times> pg" where
  "repo_DeleteOldFailed retention s =
     wrap_db ''outbox: cleanup: '' (run_sql (sql_cleanup (seconds_int32 retention)) s)"

lemmas repo_defs =
  repo_Claim_def repo_Complete_def repo_Retry_def repo_Defer_def repo_Fail_def
  repo_CountPending_def repo_CountFailed_def repo_DeleteOldFailed_def

section \<open>Looking a row up\<close>

definition lookup :: "table \<Rightarrow> uuid \<Rightarrow> row option" where
  "lookup t i = find (\<lambda>r. row_id r = i) t"

lemma lookup_Nil [simp]: "lookup [] i = None"
  by (simp add: lookup_def)

lemma lookup_Cons [simp]: "lookup (r # t) i = (if row_id r = i then Some r else lookup t i)"
  by (simp add: lookup_def)

lemma lookup_append: "lookup (t @ u) i = (case lookup t i of None \<Rightarrow> lookup u i | Some r \<Rightarrow> Some r)"
  by (induction t) auto

lemma lookup_None_iff: "lookup t i = None \<longleftrightarrow> i \<notin> row_id ` set t"
  by (induction t) auto

lemma lookup_SomeD: "lookup t i = Some r \<Longrightarrow> r \<in> set t \<and> row_id r = i"
  by (induction t) (auto split: if_splits)

lemma lookup_member: "distinct (map row_id t) \<Longrightarrow> r \<in> set t \<Longrightarrow> lookup t (row_id r) = Some r"
  by (induction t) force+

lemma lookup_map:
  assumes "\<And>r. row_id (f r) = row_id r"
  shows "lookup (map f t) i = map_option f (lookup t i)"
  by (induction t) (auto simp: assms)

lemma lookup_filter_id: "lookup (filter (\<lambda>r. row_id r \<noteq> i) t) = (lookup t)(i := None)"
  by (induction t) (auto simp: fun_eq_iff)

lemma lookup_map_if:
  assumes "\<And>r. row_id (f r) = row_id r"
  shows "lookup (map (\<lambda>r. if row_id r \<in> S then f r else r) t) i =
    (if i \<in> S then map_option f (lookup t i) else lookup t i)"
  by (induction t) (auto simp: assms)

lemma row_id_rows [simp]:
  "row_id (claim_row now secs r) = row_id r"
  "row_id (retry_row now secs reason r) = row_id r"
  "row_id (defer_row now secs r) = row_id r"
  "row_id (fail_row now reason r) = row_id r"
  by (simp_all add: claim_row_def retry_row_def defer_row_def fail_row_def)

lemma lookup_update_where:
  assumes "\<And>r. row_id (f r) = row_id r"
  shows "lookup (update_where i f t) = (lookup t)(i := map_option f (lookup t i))"
  by (induction t) (auto simp: update_where_def fun_eq_iff assms)

section \<open>The table invariant\<close>

definition row_ok :: "row \<Rightarrow> bool" where
  "row_ok r \<longleftrightarrow>
     kind r \<noteq> [] \<and> 0 \<le> attempts r \<and> attempts r \<le> 32767 \<and> 1 \<le> max_attempts r \<and> max_attempts r \<le> 32767 \<and>
     reason_fits (last_error r)"

definition table_ok :: "table \<Rightarrow> bool" where
  "table_ok t \<longleftrightarrow> distinct (map row_id t) \<and> (\<forall>r \<in> set t. row_ok r)"

lemma table_ok_filter: "table_ok t \<Longrightarrow> table_ok (filter p t)"
  by (auto simp: table_ok_def distinct_map_filter)

lemma table_ok_map:
  assumes "table_ok t" and "\<And>r. r \<in> set t \<Longrightarrow> row_ok r \<Longrightarrow> row_ok (f r)"
    and "\<And>r. row_id (f r) = row_id r"
  shows "table_ok (map f t)"
proof -
  have "row_id \<circ> f = row_id" by (simp add: fun_eq_iff assms(3))
  with assms show ?thesis by (auto simp: table_ok_def)
qed

lemma table_ok_update_where:
  assumes "table_ok t" and "\<And>r. row_ok r \<Longrightarrow> row_ok (f r)" and "\<And>r. row_id (f r) = row_id r"
  shows "table_ok (update_where i f t)"
  unfolding update_where_def using assms by (intro table_ok_map) auto

lemma claim_ids_sub: "i \<in> set (claim_ids now limit locked t) \<Longrightarrow>
    \<exists>r \<in> set t. row_id r = i \<and> due now r \<and> i \<notin> set locked"
  by (auto simp: claim_ids_def dest!: in_set_takeD)

lemma sql_claim_InrD:
  assumes "sql_claim secs limit locked now t = Inr (t', ms)"
  shows "t' = map (\<lambda>r. if row_id r \<in> set (claim_ids now limit locked t) then claim_row now secs r else r) t"
    and "ms = map (message_of \<circ> claim_row now secs) (filter (\<lambda>r. row_id r \<in> set (claim_ids now limit locked t)) t)"
    and "0 \<le> limit"
    and "\<And>r. r \<in> set t \<Longrightarrow> row_id r \<in> set (claim_ids now limit locked t) \<Longrightarrow> smallint (attempts r + 1)"
  using assms by (auto simp: sql_claim_def Let_def split: if_splits)

text \<open>Every statement keeps the invariant.\<close>

definition keeps_ok :: "(int \<Rightarrow> table \<Rightarrow> (table \<times> 'a) result) \<Rightarrow> bool" where
  "keeps_ok stmt \<longleftrightarrow> (\<forall>now t t' x. table_ok t \<longrightarrow> stmt now t = Inr (t', x) \<longrightarrow> table_ok t')"

lemma keeps_ok_claim: "keeps_ok (sql_claim secs limit locked)"
  unfolding keeps_ok_def
proof (intro allI impI)
  fix now t t' ms
  assume ok: "table_ok t" and eq: "sql_claim secs limit locked now t = Inr (t', ms)"
  show "table_ok t'"
    unfolding sql_claim_InrD(1) [OF eq]
    by (rule table_ok_map [OF ok])
       (use sql_claim_InrD(4) [OF eq] in \<open>auto simp: row_ok_def claim_row_def smallint_def\<close>)
qed

lemma keeps_ok_others:
  "keeps_ok (sql_complete i)"
  "keeps_ok (sql_retry i secs reason)"
  "keeps_ok (sql_defer i secs)"
  "keeps_ok (sql_fail i reason)"
  "keeps_ok (sql_cleanup secs)"
  "keeps_ok (sql_count p)"
  by (auto simp: keeps_ok_def statement_defs table_ok_filter row_ok_def retry_row_def defer_row_def
      fail_row_def intro!: table_ok_update_where split: if_splits)

lemma keeps_ok_insert:
  "k \<noteq> [] \<Longrightarrow> 1 \<le> n \<Longrightarrow> n \<le> 32767 \<Longrightarrow> keeps_ok (sql_insert jsonb i k p n)"
  by (auto simp: keeps_ok_def sql_insert_def table_ok_def row_ok_def reason_fits_def
      split: option.splits if_splits)

lemmas keeps_ok_statements = keeps_ok_claim keeps_ok_others

section \<open>Statements run against the database\<close>

definition db_ok :: "pg \<Rightarrow> bool" where
  "db_ok s \<longleftrightarrow> table_ok (durable s) \<and> table_ok (visible s)"

lemma store_simps [simp]:
  "visible (store t s) = t"
  "clock (store t s) = clock s"
  "in_tx (store t s) = in_tx s"
  by (simp_all add: visible_def store_def in_tx_def split: option.splits)

lemma visible_simps [simp]:
  "visible (s\<lparr>faults := fs\<rparr>) = visible s"
  "visible (s\<lparr>aborted := b\<rparr>) = visible s"
  "in_tx (s\<lparr>faults := fs\<rparr>) = in_tx s"
  by (simp_all add: visible_def in_tx_def split: option.splits)

lemma run_sql_cases:
  assumes "run_sql stmt s = (res, s')"
  obtains (applied) t x where "stmt (clock s) (visible s) = Inr (t, x)" "res = Inr x" "visible s' = t"
      "s' = store t (s\<lparr>faults := tl (faults s)\<rparr>)"
  | (lost) t x e where "stmt (clock s) (visible s) = Inr (t, x)" "res = Inl e" "visible s' = t"
      "s' = (store t (s\<lparr>faults := tl (faults s)\<rparr>))\<lparr>aborted := in_tx s\<rparr>"
  | (refused) e where "res = Inl e" "visible s' = visible s" "durable s' = durable s" "clock s' = clock s"
  using assms
  by (auto simp: run_sql_def Let_def sql_error_def split: if_splits db_fault.splits sum.splits prod.splits)

lemma run_sql_ok:
  assumes "run_sql stmt s = (res, s')" and "db_ok s" and "keeps_ok stmt"
  shows "db_ok s' \<and> clock s' = clock s"
  using assms(1)
proof (cases rule: run_sql_cases)
  case (applied t x)
  with assms(2,3) have "table_ok t" by (auto simp: keeps_ok_def db_ok_def)
  with applied assms(2) show ?thesis
    by (auto simp: db_ok_def store_def visible_def split: option.splits)
next
  case (lost t x e)
  with assms(2,3) have "table_ok t" by (auto simp: keeps_ok_def db_ok_def)
  with lost assms(2) show ?thesis
    by (auto simp: db_ok_def store_def visible_def split: option.splits)
next
  case (refused e)
  with assms(2) show ?thesis by (simp add: db_ok_def)
qed

lemma wrap_db_cases:
  assumes "wrap_db p rs = (res, s')"
  obtains (ok) x where "rs = (Inr x, s')" "res = Inr x" | (err) e where "rs = (Inl e, s')" "res = Inl (errorf p e)"
  using assms by (cases rs; cases "fst rs") (auto simp: wrap_db_def)

section \<open>The queue interface and its contract\<close>

text \<open>The Go interface \<^verbatim>\<open>Queue\<close>: the value a worker holds, as the record of its methods.\<close>

record 'q Queue =
  Claim :: "int \<Rightarrow> duration \<Rightarrow> 'q \<Rightarrow> Message list result \<times> 'q"
  Complete :: "uuid \<Rightarrow> 'q \<Rightarrow> unit result \<times> 'q"
  Retry :: "uuid \<Rightarrow> duration \<Rightarrow> string \<Rightarrow> 'q \<Rightarrow> unit result \<times> 'q"
  Defer :: "uuid \<Rightarrow> duration \<Rightarrow> 'q \<Rightarrow> unit result \<times> 'q"
  Fail :: "uuid \<Rightarrow> string \<Rightarrow> 'q \<Rightarrow> unit result \<times> 'q"
  DeleteOldFailed :: "duration \<Rightarrow> 'q \<Rightarrow> int result \<times> 'q"

text \<open>
  The contract: how each method acts on the rows, whether it reports success or an error.
  A method that reports an error has either done nothing or done its work.
\<close>

locale lease_queue =
  fixes q :: "'q Queue"
    and rows :: "'q \<Rightarrow> uuid \<Rightarrow> row option"
    and time :: "'q \<Rightarrow> int"
    and ok :: "'q \<Rightarrow> bool"
  assumes claim_ok: "ok s \<Longrightarrow> Claim q n v s = (Inr ms, s') \<Longrightarrow>
      ok s' \<and> time s' = time s \<and> distinct (map ID ms) \<and> int (length ms) \<le> n \<and>
      (\<forall>m \<in> set ms. \<exists>r. rows s (ID m) = Some r \<and> due (time s) r \<and>
         m = message_of (claim_row (time s) (seconds_int32 v) r)) \<and>
      (\<forall>i. rows s' i = (if i \<in> ID ` set ms then map_option (claim_row (time s) (seconds_int32 v)) (rows s i)
                         else rows s i))"
    and claim_err: "ok s \<Longrightarrow> Claim q n v s = (Inl e, s') \<Longrightarrow>
      ok s' \<and> time s' = time s \<and>
      (\<forall>i. rows s' i = rows s i \<or>
           (\<exists>r. rows s i = Some r \<and> due (time s) r \<and> rows s' i = Some (claim_row (time s) (seconds_int32 v) r)))"
    and complete_rows: "ok s \<Longrightarrow> Complete q i s = (res, s') \<Longrightarrow>
      ok s' \<and> time s' = time s \<and>
      (rows s' = (rows s)(i := None) \<or> (\<exists>e. res = Inl e) \<and> rows s' = rows s)"
    and retry_rows: "ok s \<Longrightarrow> Retry q i d reason s = (res, s') \<Longrightarrow>
      ok s' \<and> time s' = time s \<and>
      (rows s' = (rows s)(i := map_option (retry_row (time s) (seconds_int32 d) (truncate_reason reason)) (rows s i)) \<or>
       (\<exists>e. res = Inl e) \<and> rows s' = rows s)"
    and defer_rows: "ok s \<Longrightarrow> Defer q i d s = (res, s') \<Longrightarrow>
      ok s' \<and> time s' = time s \<and>
      (rows s' = (rows s)(i := map_option (defer_row (time s) (seconds_int32 d)) (rows s i)) \<or>
       (\<exists>e. res = Inl e) \<and> rows s' = rows s)"
    and fail_rows: "ok s \<Longrightarrow> Fail q i reason s = (res, s') \<Longrightarrow>
      ok s' \<and> time s' = time s \<and>
      (rows s' = (rows s)(i := map_option (fail_row (time s) (truncate_reason reason)) (rows s i)) \<or>
       (\<exists>e. res = Inl e) \<and> rows s' = rows s)"
    and delete_rows: "ok s \<Longrightarrow> DeleteOldFailed q d s = (deleted, s') \<Longrightarrow>
      ok s' \<and> time s' = time s \<and>
      (\<forall>i. rows s' i = rows s i \<or>
           (\<exists>r. rows s i = Some r \<and> expired (time s) (seconds_int32 d) r \<and> rows s' i = None))"

section \<open>The repository meets the contract\<close>

definition Repository :: "pg Queue" where
  "Repository =
     \<lparr>Claim = repo_Claim, Complete = repo_Complete, Retry = repo_Retry, Defer = repo_Defer,
      Fail = repo_Fail, DeleteOldFailed = repo_DeleteOldFailed\<rparr>"

definition repo_rows :: "pg \<Rightarrow> uuid \<Rightarrow> row option" where
  "repo_rows s = lookup (visible s)"

lemma claim_messages:
  assumes "table_ok t" and "sql_claim secs limit locked now t = Inr (t', ms)"
  shows "distinct (map ID ms)" and "int (length ms) \<le> limit"
    and "\<forall>m \<in> set ms. \<exists>r. lookup t (ID m) = Some r \<and> due now r \<and> m = message_of (claim_row now secs r)"
    and "\<forall>i. lookup t' i =
      (if i \<in> ID ` set ms then map_option (claim_row now secs) (lookup t i) else lookup t i)"
proof -
  let ?ids = "claim_ids now limit locked t"
  let ?picked = "filter (\<lambda>r. row_id r \<in> set ?ids) t"
  have d: "distinct (map row_id t)" using assms(1) by (simp add: table_ok_def)
  note ms = sql_claim_InrD(2) [OF assms(2)] and t' = sql_claim_InrD(1) [OF assms(2)]
  have ids: "map ID ms = map row_id ?picked" by (simp add: ms message_of_def)
  show dist: "distinct (map ID ms)" unfolding ids using d by (simp add: distinct_map_filter)
  have "set (map ID ms) \<subseteq> set ?ids" unfolding ids by auto
  then have "card (set (map ID ms)) \<le> card (set ?ids)" by (rule card_mono [OF finite_set])
  then have "length ms \<le> length ?ids"
    using distinct_card [OF dist] card_length [of ?ids] by simp
  also have "length ?ids \<le> nat limit" by (simp add: claim_ids_def)
  finally show "int (length ms) \<le> limit" using sql_claim_InrD(3) [OF assms(2)] by linarith
  show "\<forall>m \<in> set ms. \<exists>r. lookup t (ID m) = Some r \<and> due now r \<and> m = message_of (claim_row now secs r)"
  proof
    fix m assume "m \<in> set ms"
    then obtain r where r: "r \<in> set t" "row_id r \<in> set ?ids" "m = message_of (claim_row now secs r)"
      by (auto simp: ms)
    then obtain r' where "r' \<in> set t" "row_id r' = row_id r" "due now r'"
      using claim_ids_sub by blast
    then have "due now r" using distinct_key_eq [OF d] r(1) by metis
    with r d show "\<exists>r. lookup t (ID m) = Some r \<and> due now r \<and> m = message_of (claim_row now secs r)"
      by (auto simp: message_of_def lookup_member)
  qed
  have idset: "i \<in> ID ` set ms \<longleftrightarrow> i \<in> set ?ids" for i
  proof -
    have "ID ` set ms = row_id ` set ?picked" using ids by (metis list.set_map)
    then show ?thesis using claim_ids_sub [of i now limit locked t] by auto
  qed
  show "\<forall>i. lookup t' i =
      (if i \<in> ID ` set ms then map_option (claim_row now secs) (lookup t i) else lookup t i)"
    unfolding idset unfolding t' by (simp add: lookup_map_if)
qed

lemma repo_claim_ok:
  assumes "db_ok s" and "repo_Claim n v s = (Inr ms, s')"
  shows "db_ok s' \<and> clock s' = clock s \<and> distinct (map ID ms) \<and> int (length ms) \<le> n \<and>
      (\<forall>m \<in> set ms. \<exists>r. repo_rows s (ID m) = Some r \<and> due (clock s) r \<and>
         m = message_of (claim_row (clock s) (seconds_int32 v) r)) \<and>
      (\<forall>i. repo_rows s' i =
         (if i \<in> ID ` set ms then map_option (claim_row (clock s) (seconds_int32 v)) (repo_rows s i)
          else repo_rows s i))"
proof -
  let ?stmt = "sql_claim (seconds_int32 v) n (locks s)"
  have run: "run_sql ?stmt s = (Inr ms, s')"
    using assms(2) by (auto simp: repo_Claim_def Let_def elim: wrap_db_cases split: if_splits)
  then obtain t where t: "?stmt (clock s) (visible s) = Inr (t, ms)" "visible s' = t"
    by (cases rule: run_sql_cases) auto
  have ok: "table_ok (visible s)" using assms(1) by (simp add: db_ok_def)
  show ?thesis
    using run_sql_ok [OF run assms(1) keeps_ok_claim] claim_messages [OF ok t(1)] t(2)
    by (simp add: repo_rows_def)
qed

lemma repo_claim_err:
  assumes "db_ok s" and "repo_Claim n v s = (Inl e, s')"
  shows "db_ok s' \<and> clock s' = clock s \<and>
      (\<forall>i. repo_rows s' i = repo_rows s i \<or>
           (\<exists>r. repo_rows s i = Some r \<and> due (clock s) r \<and>
              repo_rows s' i = Some (claim_row (clock s) (seconds_int32 v) r)))"
proof -
  let ?stmt = "sql_claim (seconds_int32 v) n (locks s)"
  obtain e0 where run: "run_sql ?stmt s = (Inl e0, s')"
    using assms(2) by (auto simp: repo_Claim_def Let_def elim: wrap_db_cases split: if_splits)
  have ok: "table_ok (visible s)" using assms(1) by (simp add: db_ok_def)
  note kept = run_sql_ok [OF run assms(1) keeps_ok_claim]
  from run show ?thesis
  proof (cases rule: run_sql_cases)
    case (lost t ms e)
    note c = claim_messages [OF ok lost(1)]
    have "repo_rows s' i = repo_rows s i \<or> (\<exists>r. repo_rows s i = Some r \<and> due (clock s) r \<and>
        repo_rows s' i = Some (claim_row (clock s) (seconds_int32 v) r))" for i
      using c(3,4) lost(3) by (fastforce simp: repo_rows_def)
    with kept show ?thesis by blast
  next
    case (refused e)
    with kept show ?thesis by (simp add: repo_rows_def)
  qed simp
qed

text \<open>One row touched, by \<open>f\<close>; an error leaves the rows alone or reports a lost reply.\<close>

lemma repo_touch:
  assumes "db_ok s" and "wrap_db p (run_sql stmt s) = (res, s')" and "keeps_ok stmt"
    and "\<And>now t t' x. stmt now t = Inr (t', x) \<Longrightarrow> lookup t' = (lookup t)(i := f now (lookup t i))"
  shows "db_ok s' \<and> clock s' = clock s \<and>
    (repo_rows s' = (repo_rows s)(i := f (clock s) (repo_rows s i)) \<or>
     (\<exists>e. res = Inl e) \<and> repo_rows s' = repo_rows s)"
proof -
  obtain res0 where run: "run_sql stmt s = (res0, s')" and res: "\<And>e. res0 = Inl e \<Longrightarrow> \<exists>e. res = Inl e"
    using assms(2) by (auto elim!: wrap_db_cases)
  from run have "repo_rows s' = (repo_rows s)(i := f (clock s) (repo_rows s i)) \<or>
     (\<exists>e. res0 = Inl e) \<and> repo_rows s' = repo_rows s"
    by (cases rule: run_sql_cases) (auto simp: repo_rows_def dest!: assms(4))
  with run_sql_ok [OF run assms(1,3)] res show ?thesis by blast
qed

lemma repo_delete:
  assumes "db_ok s" and "repo_DeleteOldFailed d s = (deleted, s')"
  shows "db_ok s' \<and> clock s' = clock s \<and>
      (\<forall>i. repo_rows s' i = repo_rows s i \<or>
           (\<exists>r. repo_rows s i = Some r \<and> expired (clock s) (seconds_int32 d) r \<and> repo_rows s' i = None))"
proof -
  obtain res0 where run: "run_sql (sql_cleanup (seconds_int32 d)) s = (res0, s')"
    using assms(2) by (auto simp: repo_DeleteOldFailed_def elim!: wrap_db_cases)
  have dist: "distinct (map row_id (visible s))" using assms(1) by (simp add: db_ok_def table_ok_def)
  have fl: "lookup (filter (\<lambda>r. \<not> p r) t) i = lookup t i \<or>
      (\<exists>r. lookup t i = Some r \<and> p r \<and> lookup (filter (\<lambda>r. \<not> p r) t) i = None)"
    if "distinct (map row_id t)" for p t i
    using that by (induction t) (auto simp: lookup_None_iff)
  from run have "\<forall>i. repo_rows s' i = repo_rows s i \<or>
      (\<exists>r. repo_rows s i = Some r \<and> expired (clock s) (seconds_int32 d) r \<and> repo_rows s' i = None)"
    using fl [OF dist]
    by (cases rule: run_sql_cases) (auto simp: repo_rows_def sql_cleanup_def)
  with run_sql_ok [OF run assms(1) keeps_ok_others(5)] show ?thesis by blast
qed

lemma repo_complete_rows:
  assumes "db_ok s" and "repo_Complete i s = (res, s')"
  shows "db_ok s' \<and> clock s' = clock s \<and>
    (repo_rows s' = (repo_rows s)(i := None) \<or> (\<exists>e. res = Inl e) \<and> repo_rows s' = repo_rows s)"
  using repo_touch [OF assms [unfolded repo_Complete_def] keeps_ok_others(1), of i "\<lambda>_ _. None"]
  by (simp add: sql_complete_def lookup_filter_id)

lemma repo_retry_rows:
  assumes "db_ok s" and "repo_Retry i d reason s = (res, s')"
  shows "db_ok s' \<and> clock s' = clock s \<and>
    (repo_rows s' = (repo_rows s)(i :=
       map_option (retry_row (clock s) (seconds_int32 d) (truncate_reason reason)) (repo_rows s i)) \<or>
     (\<exists>e. res = Inl e) \<and> repo_rows s' = repo_rows s)"
  using assms unfolding repo_Retry_def
  by (rule repo_touch [where f = "\<lambda>now. map_option (retry_row now (seconds_int32 d) (truncate_reason reason))"])
     (auto simp: keeps_ok_others sql_retry_def lookup_update_where split: if_splits)

lemma repo_defer_rows:
  assumes "db_ok s" and "repo_Defer i d s = (res, s')"
  shows "db_ok s' \<and> clock s' = clock s \<and>
    (repo_rows s' = (repo_rows s)(i := map_option (defer_row (clock s) (seconds_int32 d)) (repo_rows s i)) \<or>
     (\<exists>e. res = Inl e) \<and> repo_rows s' = repo_rows s)"
  using assms unfolding repo_Defer_def
  by (rule repo_touch [where f = "\<lambda>now. map_option (defer_row now (seconds_int32 d))"])
     (auto simp: keeps_ok_others sql_defer_def lookup_update_where)

lemma repo_fail_rows:
  assumes "db_ok s" and "repo_Fail i reason s = (res, s')"
  shows "db_ok s' \<and> clock s' = clock s \<and>
    (repo_rows s' = (repo_rows s)(i := map_option (fail_row (clock s) (truncate_reason reason)) (repo_rows s i)) \<or>
     (\<exists>e. res = Inl e) \<and> repo_rows s' = repo_rows s)"
  using assms unfolding repo_Fail_def
  by (rule repo_touch [where f = "\<lambda>now. map_option (fail_row now (truncate_reason reason))"])
     (auto simp: keeps_ok_others sql_fail_def lookup_update_where split: if_splits)

interpretation repo: lease_queue Repository repo_rows clock db_ok
  by (unfold_locales; unfold Repository_def Queue.simps)
     (rule repo_claim_ok repo_claim_err repo_complete_rows repo_retry_rows repo_defer_rows
       repo_fail_rows repo_delete; assumption)+

interpretation pg_tx: transactional pg_driver in_tx durable visible
  by unfold_locales
     (auto simp: pg_driver_def pg_begin_def pg_commit_def pg_rollback_def publish_def visible_def in_tx_def Let_def
       split: if_splits db_fault.splits option.splits)

section \<open>Which rows a claim takes\<close>

lemma claim_ids_due:
  assumes "table_ok t" and "r \<in> set t" and "row_id r \<in> set (claim_ids now limit locked t)"
  shows "due now r \<and> row_id r \<notin> set locked"
  using claim_ids_sub [OF assms(3)] assms(1,2) by (metis distinct_key_eq table_ok_def)

lemma take_sorted_le:
  assumes "sorted (map f xs)" and "x \<in> set (take n xs)" and "y \<in> set (drop n xs)"
  shows "f x \<le> f y"
proof -
  have "sorted (map f (take n xs) @ map f (drop n xs))"
    using assms(1) by (metis append_take_drop_id map_append)
  moreover have "f x \<in> set (map f (take n xs))" and "f y \<in> set (map f (drop n xs))"
    using assms(2,3) by auto
  ultimately show ?thesis unfolding sorted_append by blast
qed

text \<open>A due, unlocked row is left behind only if the batch is full of rows that were due earlier.\<close>

lemma claim_ids_left_behind:
  assumes ok: "table_ok t" and r: "r \<in> set t" "due now r" "row_id r \<notin> set locked"
    and out: "row_id r \<notin> set (claim_ids now limit locked t)"
  shows "length (claim_ids now limit locked t) = nat limit"
    and "\<And>x. x \<in> set t \<Longrightarrow> row_id x \<in> set (claim_ids now limit locked t) \<Longrightarrow>
      next_attempt_at x \<le> next_attempt_at r"
proof -
  let ?c = "sort_key next_attempt_at (filter (\<lambda>r. due now r \<and> row_id r \<notin> set locked) t)"
  have rc: "r \<in> set ?c" using r by simp
  have "r \<notin> set (take (nat limit) ?c)" using out by (auto simp: claim_ids_def)
  with rc have rd: "r \<in> set (drop (nat limit) ?c)" by (rule in_drop_if_not_take)
  then have "nat limit < length ?c" by (cases "length ?c \<le> nat limit") auto
  then show "length (claim_ids now limit locked t) = nat limit" by (simp add: claim_ids_def)
  fix x assume x: "x \<in> set t" "row_id x \<in> set (claim_ids now limit locked t)"
  then obtain y where y: "y \<in> set (take (nat limit) ?c)" "row_id y = row_id x"
    by (auto simp: claim_ids_def)
  then have "y \<in> set t" by (auto dest: in_set_takeD)
  then have "y = x" using ok x(1) y(2) by (auto simp: table_ok_def intro: distinct_key_eq)
  with take_sorted_le [OF _ y(1) rd, of next_attempt_at] show "next_attempt_at x \<le> next_attempt_at r"
    by simp
qed

lemma claim_ids_distinct: "table_ok t \<Longrightarrow> distinct (claim_ids now limit locked t)"
  by (auto simp: claim_ids_def table_ok_def distinct_map inj_on_def intro!: distinct_take
      dest!: in_set_takeD)

lemma claim_messages_length:
  assumes "table_ok t" and "sql_claim secs limit locked now t = Inr (t', ms)"
  shows "length ms = length (claim_ids now limit locked t)"
    and "ID ` set ms = set (claim_ids now limit locked t)"
proof -
  let ?ids = "claim_ids now limit locked t"
  have "map ID ms = map row_id (filter (\<lambda>r. row_id r \<in> set ?ids) t)"
    by (simp add: sql_claim_InrD(2) [OF assms(2)] message_of_def)
  then have "set (map ID ms) = row_id ` set (filter (\<lambda>r. row_id r \<in> set ?ids) t)"
    by (metis list.set_map)
  also have "\<dots> = set ?ids" using claim_ids_sub [of _ now limit locked t] by auto
  finally show ids: "ID ` set ms = set ?ids" by simp
  have "length ms = card (set (map ID ms))"
    using distinct_card [OF claim_messages(1) [OF assms]] by simp
  also have "\<dots> = length ?ids"
    using ids distinct_card [OF claim_ids_distinct [OF assms(1)]] by simp
  finally show "length ms = length ?ids" .
qed

lemma repo_Claim_InrE:
  assumes "repo_Claim n v s = (Inr ms, s')"
  obtains t where "sql_claim (seconds_int32 v) n (locks s) (clock s) (visible s) = Inr (t, ms)"
    "visible s' = t" "0 \<le> n"
proof -
  have "run_sql (sql_claim (seconds_int32 v) n (locks s)) s = (Inr ms, s')"
    using assms by (auto simp: repo_Claim_def Let_def elim: wrap_db_cases split: if_splits)
  then show thesis
    by (cases rule: run_sql_cases) (auto intro: that dest: sql_claim_InrD(3))
qed

text \<open>
  C22. \<^verbatim>\<open>Claim\<close> takes at most \<^verbatim>\<open>batchSize\<close> distinct rows, each of them pending, due and not
  locked by another session, and it takes the oldest ones: a due, unlocked row is left
  behind only when the batch is full and every row taken was due no later.
\<close>

theorem claim_takes_oldest_due:
  assumes "db_ok s" and "repo_Claim n v s = (Inr ms, s')"
  shows "distinct (map ID ms) \<and> int (length ms) \<le> n \<and>
    (\<forall>m \<in> set ms. \<exists>r \<in> set (visible s). row_id r = ID m \<and> due (clock s) r \<and> ID m \<notin> set (locks s)) \<and>
    (\<forall>r \<in> set (visible s). due (clock s) r \<and> row_id r \<notin> set (locks s) \<and> row_id r \<notin> ID ` set ms \<longrightarrow>
      int (length ms) = n \<and>
      (\<forall>x \<in> set (visible s). row_id x \<in> ID ` set ms \<longrightarrow> next_attempt_at x \<le> next_attempt_at r))"
proof -
  obtain t where t: "sql_claim (seconds_int32 v) n (locks s) (clock s) (visible s) = Inr (t, ms)" and n: "0 \<le> n"
    using assms(2) by (rule repo_Claim_InrE)
  have ok: "table_ok (visible s)" using assms(1) by (simp add: db_ok_def)
  note len = claim_messages_length [OF ok t]
  have "\<forall>m \<in> set ms. \<exists>r \<in> set (visible s). row_id r = ID m \<and> due (clock s) r \<and> ID m \<notin> set (locks s)"
    using len(2) claim_ids_sub [of _ "clock s" n "locks s" "visible s"] by blast
  moreover have "\<forall>r \<in> set (visible s). due (clock s) r \<and> row_id r \<notin> set (locks s) \<and> row_id r \<notin> ID ` set ms \<longrightarrow>
      int (length ms) = n \<and>
      (\<forall>x \<in> set (visible s). row_id x \<in> ID ` set ms \<longrightarrow> next_attempt_at x \<le> next_attempt_at r)"
    using claim_ids_left_behind [OF ok, of _ "clock s" "locks s" n] n unfolding len by auto
  ultimately show ?thesis
    using claim_messages(1,2) [OF ok t] by blast
qed

definition sample_row :: "uuid \<Rightarrow> int \<Rightarrow> int \<Rightarrow> row" where
  "sample_row i a t =
     \<lparr>row_id = i, kind = ''email'', payload = ''{}'', attempts = a, max_attempts = 5,
      next_attempt_at = t, failed_at = None, last_error = None, created_at = 0\<rparr>"

definition sample_pg :: "table \<Rightarrow> int \<Rightarrow> pg" where
  "sample_pg t now = \<lparr>durable = t, working = None, aborted = False, clock = now, locks = [],
     late_errors = False, faults = []\<rparr>"

lemmas sample_eval =
  sample_row_def sample_pg_def db_ok_def table_ok_def row_ok_def reason_fits_def visible_def in_tx_def
  store_def next_fault_def run_sql_def wrap_db_def due_def claim_ids_def claim_row_def interval_def
  smallint_def message_of_def seconds_int32_def second_def wrap_def signed_divide_int_def

theorem claim_takes_oldest_due_witness:
  "\<exists>ms s'. repo_Claim 1 (2 * second) (sample_pg [sample_row 1 0 50, sample_row 2 0 10] 100) = (Inr ms, s') \<and>
     map ID ms = [2] \<and> int (length ms) \<le> 1"
proof -
  let ?s = "sample_pg [sample_row 1 0 50, sample_row 2 0 10] 100"
  have ok: "db_ok ?s" by (simp add: sample_eval)
  obtain ms s' where run: "repo_Claim 1 (2 * second) ?s = (Inr ms, s')" and ids: "map ID ms = [2]"
    by (simp add: repo_Claim_def sql_claim_def sample_eval)
  show ?thesis
    by (intro exI conjI, rule run, rule ids,
        rule conjunct1 [OF conjunct2 [OF claim_takes_oldest_due [OF ok run]]])
qed

section \<open>Leases\<close>



section \<open>Error texts\<close>

lemma truncate_reason_cases:
  assumes "truncate_reason s = Some t"
  shows "t = s \<and> length (runes s) \<le> 512 \<or> t = string_of_runes (take 512 (runes s))"
  using assms by (auto simp: truncate_reason_def maxErrorLength_def split: if_splits)

lemma string_of_runes_prefix:
  assumes "utf8_valid s"
  shows "string_of_runes (take n (runes s)) @ string_of_runes (drop n (runes s)) = s"
  using string_of_runes_runes [OF assms]
  by (metis append_take_drop_id concat_append map_append string_of_runes_def)

text \<open>
  C27. The text \<^verbatim>\<open>truncate\<close> stores always fits the column \<^verbatim>\<open>varchar(512)\<close> when the error text
  is valid text for PostgreSQL (UTF-8 without NUL): it is a prefix of the text, cut at a
  character boundary, of at most 512 characters, so neither \<^verbatim>\<open>Retry\<close> nor \<^verbatim>\<open>Fail\<close> is refused
  because of it.
\<close>

theorem truncate_fits_column:
  assumes "pg_text reason"
  shows "reason_fits (truncate_reason reason) \<and>
    (case truncate_reason reason of
       None \<Rightarrow> reason = []
     | Some t \<Rightarrow> (\<exists>rest. reason = t @ rest) \<and>
         runes t = take 512 (runes reason))"
proof (cases "truncate_reason reason")
  case None
  then show ?thesis by (auto simp: truncate_reason_def reason_fits_def split: if_splits)
next
  case (Some t)
  have v: "utf8_valid reason" using assms by (simp add: pg_text_def)
  from truncate_reason_cases [OF Some] show ?thesis
  proof
    assume "t = reason \<and> length (runes reason) \<le> 512"
    with assms Some show ?thesis by (simp add: reason_fits_def varchar_def)
  next
    assume t: "t = string_of_runes (take 512 (runes reason))"
    have ok: "\<forall>r \<in> set (take 512 (runes reason)). valid_rune r"
      by (auto dest!: in_set_takeD intro: runes_valid)
    have pre: "reason = t @ string_of_runes (drop 512 (runes reason))"
      using string_of_runes_prefix [OF v, of 512] t by simp
    have "pg_text t"
      using utf8_valid_string_of_runes [OF ok] assms pre t unfolding pg_text_def
      by (metis UnCI set_append)
    moreover have rt: "runes t = take 512 (runes reason)" using runes_string_of_runes [OF ok] t by simp
    ultimately show ?thesis using Some pre by (auto simp: reason_fits_def varchar_def)
  qed
qed

theorem truncate_fits_column_witness:
  "pg_text ''smtp: timeout'' \<and> reason_fits (truncate_reason ''smtp: timeout'')"
proof -
  have h: "pg_text ''smtp: timeout''" by (simp add: pg_text_def utf8_valid_Cons)
  show ?thesis using h truncate_fits_column [OF h] by blast
qed

section \<open>Enqueuing inside a transaction\<close>

lemma Enqueue_cases:
  assumes "Enqueue jsonb new_id k p n s = (res, s')"
  obtains (queued) i r where "new_id = Inr i" "res = Inr i" "visible s' = visible s @ [r]"
      "s' = store (visible s @ [r]) (s\<lparr>faults := tl (faults s)\<rparr>)"
      "i \<notin> row_id ` set (visible s)" "row_id r = i" "kind r = k" "jsonb p = Some (payload r)" "attempts r = 0"
      "max_attempts r = (if n \<le> 0 then 5 else n)" "next_attempt_at r = clock s" "failed_at r = None"
  | (refused) e where "res = Inl e"
proof (cases res)
  case (Inl e)
  then show thesis by (rule refused)
next
  case (Inr j)
  let ?n = "if n \<le> 0 then defaultMaxAttempts else n"
  from assms Inr obtain i where i: "new_id = Inr i" "j = i"
    and w: "wrap_db ''outbox: enqueue: '' (run_sql (sql_insert jsonb i k p ?n) s) = (Inr (), s')"
    by (auto simp: Enqueue_def Let_def split: if_splits sum.splits prod.splits)
  from w have "run_sql (sql_insert jsonb i k p ?n) s = (Inr (), s')" by (auto elim: wrap_db_cases)
  then show thesis
    by (cases rule: run_sql_cases)
       (auto simp: sql_insert_def defaultMaxAttempts_def i Inr split: option.splits if_splits intro!: queued)
qed

lemma run_sql_confined: "in_tx s \<Longrightarrow> durable (snd (run_sql stmt s)) = durable s"
  by (auto simp: run_sql_def Let_def sql_error_def store_def in_tx_def
      split: db_fault.splits sum.splits option.splits)

lemma wrap_db_snd [simp]: "snd (wrap_db p rs) = snd rs"
  by (cases rs) (auto simp: wrap_db_def split: sum.splits)

lemma result_case_snd: "snd (case x of (Inl e, s') \<Rightarrow> (f e, s') | (Inr y, s') \<Rightarrow> (g y, s')) = snd x"
  by (simp split: prod.splits sum.splits)

lemma Enqueue_confined: "in_tx s \<Longrightarrow> durable (snd (Enqueue jsonb new_id k p n s)) = durable s"
  by (simp add: Enqueue_def Let_def result_case_snd run_sql_confined split: sum.split)

text \<open>A transaction body that enqueues a message; \<open>rest\<close> is how the rest of the body ends.\<close>

definition enqueue_then ::
  "(string \<Rightarrow> string option) \<Rightarrow> uuid result \<Rightarrow> string \<Rightarrow> string \<Rightarrow> int \<Rightarrow> tx_outcome \<Rightarrow> pg \<Rightarrow> tx_outcome \<times> pg" where
  "enqueue_then jsonb new_id k p n rest s =
     (case Enqueue jsonb new_id k p n s of
        (Inl e, s') \<Rightarrow> (TxReturn (Some e), s')
      | (Inr _, s') \<Rightarrow> (rest, s'))"

lemma enqueue_then_confined: "pg_tx.confined (enqueue_then jsonb new_id k p n rest)"
  by (simp add: pg_tx.confined_def enqueue_then_def result_case_snd Enqueue_confined)

lemma pg_begin_clock: "pg_begin s = (None, s0) \<Longrightarrow> clock s0 = clock s \<and> visible s0 = durable s"
  by (auto simp: pg_begin_def Let_def visible_def split: db_fault.splits)

text \<open>
  C10. The outbox is transactional: with \<^verbatim>\<open>Enqueue\<close> called inside \<^verbatim>\<open>postgresql.InTx\<close> the
  message is stored together with the rest of the transaction. A nil result means that
  exactly one row was added, pending, due at once, with no attempts and the requested (or
  default) attempt limit; if the rest of the body fails or panics no row is added; in
  every case, a lost commit acknowledgement included, the table either is unchanged or
  has exactly that row.
\<close>

theorem enqueue_is_transactional:
  assumes "InTx pg_driver (enqueue_then jsonb new_id k p n rest) s = (out, s')"
  shows "(durable s' = durable s \<or>
      (\<exists>r. durable s' = durable s @ [r] \<and> new_id = Inr (row_id r) \<and> row_id r \<notin> row_id ` set (durable s) \<and>
         kind r = k \<and> jsonb p = Some (payload r) \<and> attempts r = 0 \<and>
         max_attempts r = (if n \<le> 0 then 5 else n) \<and> due (clock s) r)) \<and>
    (out = TxReturn None \<longrightarrow> rest = TxReturn None \<and> length (durable s') = Suc (length (durable s))) \<and>
    (rest \<noteq> TxReturn None \<longrightarrow> durable s' = durable s \<and> out \<noteq> TxReturn None)"
proof -
  let ?fn = "enqueue_then jsonb new_id k p n rest"
  let ?added = "\<lambda>t. \<exists>r. t = durable s @ [r] \<and> new_id = Inr (row_id r) \<and> row_id r \<notin> row_id ` set (durable s) \<and>
     kind r = k \<and> jsonb p = Some (payload r) \<and> attempts r = 0 \<and>
     max_attempts r = (if n \<le> 0 then 5 else n) \<and> due (clock s) r"
  note conf = enqueue_then_confined [of jsonb new_id k p n rest]
  have body: "rest = TxReturn None \<and> ?added (visible s1)"
    if b: "Begin pg_driver s = (None, s0)" and f: "?fn s0 = (TxReturn None, s1)" for s0 s1
  proof -
    have s0: "clock s0 = clock s" "visible s0 = durable s"
      using pg_begin_clock [of s s0] b by (auto simp: pg_driver_def)
    from f obtain x where "Enqueue jsonb new_id k p n s0 = (Inr x, s1)" and "rest = TxReturn None"
      by (auto simp: enqueue_then_def split: sum.splits prod.splits)
    then show ?thesis
      by (cases rule: Enqueue_cases) (auto simp: s0 due_def)
  qed
  have atomic: "durable s' = durable s \<or> rest = TxReturn None \<and> ?added (durable s')"
    using pg_tx.InTx_atomic [OF conf assms] body by metis
  moreover have "rest = TxReturn None \<and> ?added (durable s')" if "out = TxReturn None"
    using pg_tx.InTx_nil_commits [OF conf, of s s'] assms that body by metis
  ultimately show ?thesis by auto
qed

theorem enqueue_is_transactional_witness:
  "\<exists>s'. InTx pg_driver (enqueue_then Some (Inr 9) ''email'' ''{}'' 0 (TxReturn None)) (sample_pg [] 100) =
       (TxReturn None, s') \<and> length (durable s') = 1"
proof -
  let ?fn = "enqueue_then Some (Inr 9) ''email'' ''{}'' 0 (TxReturn None)"
  obtain s' where run: "InTx pg_driver ?fn (sample_pg [] 100) = (TxReturn None, s')"
    by (simp add: InTx_def runTx_def pg_driver_def pg_begin_def pg_commit_def publish_def enqueue_then_def
        Enqueue_def sql_insert_def sample_eval pg_text_def utf8_valid_Cons)
  with enqueue_is_transactional [OF run] show ?thesis by (auto simp: sample_pg_def)
qed

end
