(* ===== verification/Metrics_Registry.thy ===== *)
theory Metrics_Registry
  imports Main
begin

text \<open>
  \<^verbatim>\<open>observability/metrics.go\<close> and what the packages use of a Prometheus registry: it is the set of the names that are
  registered, and \<^verbatim>\<open>MustRegister\<close> panics (\<^const>\<open>None\<close>) when one of them is there already. The metrics that the library's
  own collectors describe, and the handler that it makes for a registry, are arguments.
\<close>

type_synonym registry = "string set"

definition MustRegister :: "string set \<Rightarrow> registry \<Rightarrow> registry option" where
  "MustRegister names reg = (if names \<inter> reg \<noteq> {} then None else Some (reg \<union> names))"

definition NewRegistry :: "string set \<Rightarrow> string set \<Rightarrow> registry option" where
  "NewRegistry go_collector process_collector =
     Option.bind (MustRegister go_collector {}) (MustRegister process_collector)"

datatype error_handling = HTTPErrorOnError | ContinueOnError | PanicOnError

record HandlerOpts =
  ErrorHandling :: error_handling
  opts_Registry :: registry

definition MetricsHandler :: "(registry \<Rightarrow> HandlerOpts \<Rightarrow> 'h) \<Rightarrow> registry \<Rightarrow> 'h" where
  "MetricsHandler HandlerFor reg = HandlerFor reg \<lparr>ErrorHandling = ContinueOnError, opts_Registry = reg\<rparr>"

text \<open>The upper bounds of the histograms. The source gives them in seconds; these are thousandths.\<close>

definition DurationBuckets :: "int list" where
  "DurationBuckets = [1, 5, 10, 25, 50, 100, 250, 500, 1000, 2500, 5000, 10000, 16000]"

text \<open>A histogram needs bounds in strictly increasing order; \<^verbatim>\<open>NewHistogramVec\<close> panics otherwise.\<close>

definition increasing :: "int list \<Rightarrow> bool" where
  "increasing bs \<longleftrightarrow> sorted_wrt (<) bs"

lemma DurationBuckets_increasing: "increasing DurationBuckets"
  by (simp add: increasing_def DurationBuckets_def)

lemma MustRegister_Some_iff: "MustRegister names reg = Some reg' \<longleftrightarrow> names \<inter> reg = {} \<and> reg' = reg \<union> names"
  by (auto simp: MustRegister_def)

lemma NewRegistry_Some: "go \<inter> proc = {} \<Longrightarrow> NewRegistry go proc = Some (go \<union> proc)"
  by (auto simp: NewRegistry_def MustRegister_def)

end
