(* ===== verification/Outbox_Worker.thy ===== *)
theory Outbox_Worker
  imports Outbox_Queue Metrics_Registry "HOL-Library.Multiset"
begin

text \<open>
  The outbox worker (\<^verbatim>\<open>outbox/worker.go\<close>, \<^verbatim>\<open>outbox/terminal.go\<close>,
  \<^verbatim>\<open>outbox/metrics.go\<close>). The worker is written against the interface \<^verbatim>\<open>Queue\<close>, so the
  operations are polymorphic in the state of the queue and the lemmas are proved once in
  the locale \<open>lease_queue\<close>; the properties are their instances at \<^verbatim>\<open>Repository\<close>.

  What the worker does not decide is given to it: how each \<^verbatim>\<open>Send\<close> ends and what the
  context then says (\<open>attempt\<close>), the order in which the concurrent deliveries of a batch
  reach the queue, the firing of tickers, and what happens to the queue between two
  iterations of the loop.
\<close>

section \<open>Terminal and conflict errors\<close>

definition Terminal :: "goerr option \<Rightarrow> goerr option" where
  "Terminal err = map_option TerminalError err"

fun is_terminalError :: "goerr \<Rightarrow> bool" where
  "is_terminalError (TerminalError _) = True"
| "is_terminalError _ = False"

definition IsTerminal :: "goerr option \<Rightarrow> bool" where
  "IsTerminal err \<longleftrightarrow> errors_As is_terminalError err \<noteq> None"

definition Conflict :: "goerr option \<Rightarrow> goerr option" where
  "Conflict err = map_option ConflictError err"

fun is_conflictError :: "goerr \<Rightarrow> bool" where
  "is_conflictError (ConflictError _) = True"
| "is_conflictError _ = False"

definition IsConflict :: "goerr option \<Rightarrow> bool" where
  "IsConflict err \<longleftrightarrow> errors_As is_conflictError err \<noteq> None"

section \<open>Metrics\<close>

definition resultSent :: string where "resultSent = ''sent''"
definition resultRetried :: string where "resultRetried = ''retried''"
definition resultDeferred :: string where "resultDeferred = ''deferred''"
definition resultFailed :: string where "resultFailed = ''failed''"

lemmas result_names = resultSent_def resultRetried_def resultDeferred_def resultFailed_def

record Metrics =
  pending_gauge :: int
  failed_gauge :: int
  messages_total :: "string \<times> string \<Rightarrow> nat"

definition NewMetrics :: "registry \<Rightarrow> (Metrics \<times> registry) option" where
  "NewMetrics reg =
     map_option (Pair \<lparr>pending_gauge = 0, failed_gauge = 0, messages_total = (\<lambda>_. 0)\<rparr>)
       (MustRegister {''outbox_pending_messages'', ''outbox_failed_messages'', ''outbox_messages_total''} reg)"

definition observe :: "string \<Rightarrow> string \<Rightarrow> Metrics option \<Rightarrow> Metrics option" where
  "observe knd res m =
     map_option (\<lambda>x. x\<lparr>messages_total := (messages_total x)((knd, res) := Suc (messages_total x (knd, res)))\<rparr>) m"

definition depth :: "int \<Rightarrow> int \<Rightarrow> Metrics option \<Rightarrow> Metrics option" where
  "depth p f m = map_option (\<lambda>x. x\<lparr>pending_gauge := p, failed_gauge := f\<rparr>) m"

section \<open>Configuration\<close>

record outbox_Config =
  PollInterval :: duration
  BatchSize :: int
  Concurrency :: int
  VisibilityTimeout :: duration
  SendTimeout :: duration
  BaseBackoff :: duration
  MaxBackoff :: duration
  ConflictBackoff :: duration
  FailedRetention :: duration
  CleanupInterval :: duration

definition outbox_withDefaults :: "outbox_Config \<Rightarrow> outbox_Config" where
  "outbox_withDefaults c =
     c\<lparr>PollInterval := if PollInterval c \<le> 0 then 2 * second else PollInterval c,
       BatchSize := if BatchSize c \<le> 0 then 20 else BatchSize c,
       Concurrency := if Concurrency c \<le> 0 then 8 else Concurrency c,
       VisibilityTimeout := if VisibilityTimeout c \<le> 0 then 2 * minute else VisibilityTimeout c,
       SendTimeout := if SendTimeout c \<le> 0 then 30 * second else SendTimeout c,
       BaseBackoff := if BaseBackoff c \<le> 0 then 30 * second else BaseBackoff c,
       MaxBackoff := if MaxBackoff c \<le> 0 then 30 * minute else MaxBackoff c,
       ConflictBackoff := if ConflictBackoff c \<le> 0 then 15 * second else ConflictBackoff c,
       FailedRetention := if FailedRetention c \<le> 0 then 7 * 24 * hour else FailedRetention c,
       CleanupInterval := if CleanupInterval c \<le> 0 then hour else CleanupInterval c\<rparr>"

text \<open>The batch's duration in the arithmetic of \<^verbatim>\<open>int\<close> and \<^verbatim>\<open>time.Duration\<close>.\<close>

definition waves :: "outbox_Config \<Rightarrow> int" where
  "waves c = wrap64 (wrap64 (wrap64 (BatchSize c + Concurrency c) - 1) sdiv Concurrency c)"

definition needed :: "outbox_Config \<Rightarrow> duration" where
  "needed c = wrap64 (waves c * SendTimeout c)"

text \<open>The message is in Russian; its letters are given by their code points.\<close>

definition lease_too_short :: "outbox_Config \<Rightarrow> goerr" where
  "lease_too_short c =
     ErrorString (''outbox: '' @
       string_of_runes [1072, 1088, 1077, 1085, 1076, 1072] @
       '' '' @ duration_string (VisibilityTimeout c) @
       string_of_runes [32, 1082, 1086, 1088, 1086, 1095, 1077, 32, 1086, 1073, 1088, 1072, 1073, 1086,
        1090, 1082, 1080, 32, 1087, 1072, 1095, 1082, 1080, 32, 40] @
       itoa (BatchSize c) @
       string_of_runes [32, 1089, 1086, 1086, 1073, 1097, 1077, 1085, 1080, 1081, 32, 1087, 1086, 32] @
       itoa (Concurrency c) @
       string_of_runes [32, 1079, 1072, 32, 1088, 1072, 1079, 32, 61, 32] @
       duration_string (needed c) @ ''): '' @
       string_of_runes [1091, 1074, 1077, 1083, 1080, 1095, 1100, 32, 86, 73, 83, 73, 66, 73, 76, 73, 84,
        89, 95, 84, 73, 77, 69, 79, 85, 84, 32, 1083, 1080, 1073, 1086, 32, 1091, 1084, 1077, 1085, 1100,
        1096, 1080, 32, 66, 65, 84, 67, 72, 95, 83, 73, 90, 69, 44, 32, 1083, 1080, 1073, 1086, 32, 1087,
        1086, 1076, 1085, 1080, 1084, 1080, 32, 67, 79, 78, 67, 85, 82, 82, 69, 78, 67, 89])"

definition outbox_validate :: "outbox_Config \<Rightarrow> goerr option" where
  "outbox_validate c = (if needed c > VisibilityTimeout c then Some (lease_too_short c) else None)"

section \<open>The worker\<close>

text \<open>\<^verbatim>\<open>Counter\<close> is an optional second interface of the queue (a type assertion).\<close>

record 'q Counter =
  CountPending :: "'q \<Rightarrow> int result \<times> 'q"
  CountFailed :: "'q \<Rightarrow> int result \<times> 'q"

record 'q Worker =
  cfg :: outbox_Config
  queue :: "'q Queue"
  counter :: "'q Counter option"

text \<open>What a worker acts on: the queue, its metrics, its log, and the sends it has made.\<close>

record 'q world =
  qstate :: 'q
  metrics :: "Metrics option"
  logs :: "log_entry list"
  sends :: "(Message \<times> goerr option) list"

definition NewWorker ::
  "outbox_Config \<Rightarrow> 'q Queue \<Rightarrow> 'q Counter option \<Rightarrow> 'q Worker result" where
  "NewWorker c q cnt =
     (let c' = outbox_withDefaults c in
      case outbox_validate c' of
        Some e \<Rightarrow> Inl e
      | None \<Rightarrow> Inr \<lparr>cfg = c', queue = q, counter = cnt\<rparr>)"

text \<open>The option \<^verbatim>\<open>WithMetrics\<close>: a nil registry is ignored; \<^const>\<open>None\<close> is the panic of a
  second registration.\<close>

definition WithMetrics :: "registry option \<Rightarrow> 'q world \<Rightarrow> ('q world \<times> registry option) option" where
  "WithMetrics registry w =
     (case registry of
        None \<Rightarrow> Some (w, None)
      | Some reg \<Rightarrow>
          (case NewMetrics reg of
             None \<Rightarrow> None
           | Some (m, reg') \<Rightarrow> Some (w\<lparr>metrics := Some m\<rparr>, Some reg')))"

definition log_at :: "log_level \<Rightarrow> string \<Rightarrow> 'q world \<Rightarrow> 'q world" where
  "log_at l msg w = w\<lparr>logs := logs w @ [(l, msg)]\<rparr>"

definition observed :: "string \<Rightarrow> string \<Rightarrow> 'q world \<Rightarrow> 'q world" where
  "observed knd res w = w\<lparr>metrics := observe knd res (metrics w)\<rparr>"

text \<open>A call on the queue and, if it fails, its log line.\<close>

definition call_queue :: "('q \<Rightarrow> 'a result \<times> 'q) \<Rightarrow> 'q world \<Rightarrow> 'a result \<times> 'q world" where
  "call_queue op w = (let (r, q') = op (qstate w) in (r, w\<lparr>qstate := q'\<rparr>))"

definition or_log :: "string \<Rightarrow> 'a result \<times> 'q world \<Rightarrow> 'q world" where
  "or_log msg rw = (case rw of (Inl e, w) \<Rightarrow> log_at LevelError msg w | (Inr _, w) \<Rightarrow> w)"

fun backoff_loop :: "duration \<Rightarrow> nat \<Rightarrow> duration \<Rightarrow> duration" where
  "backoff_loop mx 0 b = b"
| "backoff_loop mx (Suc n) b =
     (let b' = wrap64 (b * 2) in if b' \<ge> mx then mx else backoff_loop mx n b')"

definition backoffFor :: "outbox_Config \<Rightarrow> int \<Rightarrow> duration" where
  "backoffFor c n = backoff_loop (MaxBackoff c) (nat (max (n - 1) 0)) (BaseBackoff c)"

text \<open>How one delivery goes: the result of \<^verbatim>\<open>Send\<close>, and \<^verbatim>\<open>ctx.Err()\<close> when it is asked.\<close>

record attempt =
  send_result :: "goerr option"
  ctx_err :: "goerr option"

definition deliver :: "'q Worker \<Rightarrow> attempt \<Rightarrow> Message \<Rightarrow> 'q world \<Rightarrow> 'q world" where
  "deliver wk a m w0 =
     (let err = send_result a; w = w0\<lparr>sends := sends w0 @ [(m, err)]\<rparr> in
      case err of
        None \<Rightarrow>
          (case call_queue (Complete (queue wk) (ID m)) w of
             (Inl e, w1) \<Rightarrow> log_at LevelError ''outbox complete failed, message may be sent twice'' w1
           | (Inr _, w1) \<Rightarrow> log_at LevelDebug ''outbox message sent'' (observed (Kind m) resultSent w1))
      | Some e \<Rightarrow>
          if errors_Is (ctx_err a) ContextCanceled then w
          else if IsTerminal err then
            observed (Kind m) resultFailed
              (or_log ''outbox fail failed'' (call_queue (Fail (queue wk) (ID m) (error_text e))
                (log_at LevelError ''outbox message rejected permanently, it will never be delivered'' w)))
          else if IsConflict err then
            observed (Kind m) resultDeferred
              (or_log ''outbox defer failed''
                (call_queue (Defer (queue wk) (ID m) (ConflictBackoff (cfg wk)))
                  (log_at LevelInfo ''outbox message is already being delivered elsewhere'' w)))
          else
            let backoff = backoffFor (cfg wk) (Attempts m);
                w1 = (if Attempts m \<ge> MaxAttempts m
                      then observed (Kind m) resultFailed
                        (log_at LevelError ''outbox message gave up after last attempt, it will never be delivered'' w)
                      else observed (Kind m) resultRetried (log_at LevelWarn ''outbox send failed'' w)) in
            or_log ''outbox reschedule failed'' (call_queue (Retry (queue wk) (ID m) backoff (error_text e)) w1))"

text \<open>
  One batch. The deliveries run concurrently, at most \<^verbatim>\<open>Concurrency\<close> at a time; each makes
  one call on the queue, for its own message. \<open>order\<close> is the order of these calls.
\<close>

definition deliver_all :: "'q Worker \<Rightarrow> (Message \<Rightarrow> attempt) \<Rightarrow> Message list \<Rightarrow> 'q world \<Rightarrow> 'q world" where
  "deliver_all wk a ms w = fold (\<lambda>m. deliver wk (a m) m) ms w"

definition processBatch ::
  "'q Worker \<Rightarrow> (Message \<Rightarrow> attempt) \<Rightarrow> (Message list \<Rightarrow> Message list) \<Rightarrow> 'q world \<Rightarrow> nat result \<times> 'q world" where
  "processBatch wk a order w =
     (case call_queue (Claim (queue wk) (BatchSize (cfg wk)) (VisibilityTimeout (cfg wk))) w of
        (Inl e, w1) \<Rightarrow> (Inl e, w1)
      | (Inr messages, w1) \<Rightarrow>
          if messages = [] then (Inr 0, w1)
          else (Inr (length messages), deliver_all wk a (order messages) w1))"

definition cleanupFailed :: "'q Worker \<Rightarrow> 'q world \<Rightarrow> 'q world" where
  "cleanupFailed wk w =
     (case call_queue (DeleteOldFailed (queue wk) (FailedRetention (cfg wk))) w of
        (Inl e, w1) \<Rightarrow> log_at LevelError ''outbox cleanup failed'' w1
      | (Inr deleted, w1) \<Rightarrow>
          if deleted > 0 then log_at LevelWarn ''outbox removed undelivered messages past retention'' w1 else w1)"

definition observeDepth :: "'q Worker \<Rightarrow> 'q world \<Rightarrow> 'q world" where
  "observeDepth wk w =
     (case counter wk of
        None \<Rightarrow> w
      | Some cnt \<Rightarrow>
          if metrics w = None then w
          else case call_queue (CountPending cnt) w of
            (Inl e, w1) \<Rightarrow> log_at LevelWarn ''outbox depth unavailable'' w1
          | (Inr p, w1) \<Rightarrow>
              (case call_queue (CountFailed cnt) w1 of
                 (Inl e, w2) \<Rightarrow> log_at LevelWarn ''outbox depth unavailable'' w2
               | (Inr f, w2) \<Rightarrow> w2\<lparr>metrics := depth p f (metrics w2)\<rparr>))"

text \<open>
  The loop, one list element per iteration: what happened to the queue since the last one
  (other replicas, the clock), the deliveries, whether \<^verbatim>\<open>ctx.Err()\<close> is set when a failed
  batch asks for it, whether the cleanup ticker has fired, and which channel ends the wait. The
  result says whether \<^verbatim>\<open>Run\<close> has returned; the error it returns is nil in every case.
\<close>

datatype wakeup = ContextDone | PollTimer

record 'q iteration =
  outside :: "'q \<Rightarrow> 'q"
  attempt_of :: "Message \<Rightarrow> attempt"
  call_order :: "Message list \<Rightarrow> Message list"
  cancelled :: bool
  cleanup_tick :: bool
  wake :: wakeup

definition after_batch :: "'q Worker \<Rightarrow> 'q iteration \<Rightarrow> 'q world \<Rightarrow> 'q world" where
  "after_batch wk it w = (if cleanup_tick it then observeDepth wk (cleanupFailed wk w) else w)"

definition iterate :: "'q Worker \<Rightarrow> 'q iteration \<Rightarrow> 'q world \<Rightarrow> bool \<times> 'q world" where
  "iterate wk it w =
     (case processBatch wk (attempt_of it) (call_order it) (w\<lparr>qstate := outside it (qstate w)\<rparr>) of
        (Inl e, w1) \<Rightarrow>
          if cancelled it then (True, w1)
          else (wake it = ContextDone, after_batch wk it (log_at LevelError ''outbox batch failed'' w1))
      | (Inr processed, w1) \<Rightarrow>
          (int processed < BatchSize (cfg wk) \<and> wake it = ContextDone, after_batch wk it w1))"

fun Run :: "'q Worker \<Rightarrow> 'q iteration list \<Rightarrow> 'q world \<Rightarrow> bool \<times> 'q world" where
  "Run wk [] w = (False, w)"
| "Run wk (it # its) w =
     (case iterate wk it w of
        (True, w') \<Rightarrow> (True, w')
      | (False, w') \<Rightarrow> Run wk its w')"

section \<open>What a delivery is meant to do\<close>

text \<open>The specification: the fate of a message, what it makes of the row, and its metric.\<close>

datatype fate = Sent | Interrupted | Rejected | Deferred | Rescheduled | GaveUp

definition fate_of :: "attempt \<Rightarrow> Message \<Rightarrow> fate" where
  "fate_of a m =
     (if send_result a = None then Sent
      else if errors_Is (ctx_err a) ContextCanceled then Interrupted
      else if IsTerminal (send_result a) then Rejected
      else if IsConflict (send_result a) then Deferred
      else if Attempts m \<ge> MaxAttempts m then GaveUp
      else Rescheduled)"

definition send_text :: "attempt \<Rightarrow> string" where
  "send_text a = (case send_result a of None \<Rightarrow> [] | Some e \<Rightarrow> error_text e)"

definition fate_row :: "outbox_Config \<Rightarrow> attempt \<Rightarrow> Message \<Rightarrow> int \<Rightarrow> row option \<Rightarrow> row option" where
  "fate_row c a m now r =
     (case fate_of a m of
        Sent \<Rightarrow> None
      | Interrupted \<Rightarrow> r
      | Rejected \<Rightarrow> map_option (fail_row now (truncate_reason (send_text a))) r
      | Deferred \<Rightarrow> map_option (defer_row now (seconds_int32 (ConflictBackoff c))) r
      | _ \<Rightarrow> map_option
               (retry_row now (seconds_int32 (backoffFor c (Attempts m))) (truncate_reason (send_text a))) r)"

fun fate_metric :: "fate \<Rightarrow> string option" where
  "fate_metric Sent = Some ''sent''"
| "fate_metric Interrupted = None"
| "fate_metric Rejected = Some ''failed''"
| "fate_metric Deferred = Some ''deferred''"
| "fate_metric Rescheduled = Some ''retried''"
| "fate_metric GaveUp = Some ''failed''"

lemma fate_row_None: "fate_row c a m now (Some r) = None \<longleftrightarrow> send_result a = None"
  by (auto simp: fate_row_def fate_of_def split: if_splits)

lemma fate_row_failed:
  "fate_row c a m now (Some r) = Some r' \<Longrightarrow> failed_at r = None \<Longrightarrow> failed_at r' \<in> {None, Some now}"
  by (auto simp: fate_row_def retry_row_def fail_row_def defer_row_def split: fate.splits if_splits)

lemma claim_row_failed [simp]: "failed_at (claim_row now secs r) = failed_at r"
  by (simp add: claim_row_def)

section \<open>Deliveries against the contract of the queue\<close>

lemma world_simps [simp]:
  "qstate (log_at l t w) = qstate w" "metrics (log_at l t w) = metrics w" "sends (log_at l t w) = sends w"
  "qstate (observed k res w) = qstate w" "metrics (observed k res w) = observe k res (metrics w)"
  "sends (observed k res w) = sends w"
  by (simp_all add: log_at_def observed_def)

lemma or_log_simps [simp]:
  "qstate (or_log t rw) = qstate (snd rw)" "metrics (or_log t rw) = metrics (snd rw)"
  "sends (or_log t rw) = sends (snd rw)"
  by (cases rw; auto simp: or_log_def split: sum.splits)+

lemma call_queue_simps [simp]:
  "fst (call_queue op w) = fst (op (qstate w))" "qstate (snd (call_queue op w)) = snd (op (qstate w))"
  "metrics (snd (call_queue op w)) = metrics w" "sends (snd (call_queue op w)) = sends w"
  by (simp_all add: call_queue_def split: prod.splits)

lemma call_queueD:
  "call_queue op w = (r, w') \<Longrightarrow> op (qstate w) = (r, qstate w') \<and> metrics w' = metrics w \<and> sends w' = sends w"
  by (auto simp: call_queue_def split: prod.splits)

lemma deliver_sends: "sends (deliver wk a m w) = sends w @ [(m, send_result a)]"
  by (auto simp: deliver_def Let_def dest!: call_queueD split: option.splits prod.splits sum.splits)

lemma deliver_queue_call:
  "qstate (deliver wk a m w) =
     (case fate_of a m of
        Sent \<Rightarrow> snd (Complete (queue wk) (ID m) (qstate w))
      | Interrupted \<Rightarrow> qstate w
      | Rejected \<Rightarrow> snd (Fail (queue wk) (ID m) (send_text a) (qstate w))
      | Deferred \<Rightarrow> snd (Defer (queue wk) (ID m) (ConflictBackoff (cfg wk)) (qstate w))
      | _ \<Rightarrow> snd (Retry (queue wk) (ID m) (backoffFor (cfg wk) (Attempts m)) (send_text a) (qstate w)))"
proof (cases "send_result a")
  case None
  then show ?thesis
    by (auto simp: deliver_def fate_of_def Let_def dest!: call_queueD
        split: prod.splits sum.splits)
qed (simp add: deliver_def fate_of_def send_text_def Let_def)

lemma deliver_metric:
  "metrics (deliver wk a m w) =
     (if fate_of a m = Sent \<and> isl (fst (Complete (queue wk) (ID m) (qstate w))) then metrics w
      else case fate_metric (fate_of a m) of None \<Rightarrow> metrics w | Some res \<Rightarrow> observe (Kind m) res (metrics w))"
proof (cases "send_result a")
  case None
  then show ?thesis
    by (auto simp: deliver_def fate_of_def Let_def result_names dest!: call_queueD
        split: prod.splits sum.splits)
qed (simp add: deliver_def fate_of_def Let_def result_names)

context lease_queue
begin

definition step_ok :: "'q \<Rightarrow> 'q \<Rightarrow> bool" where
  "step_ok s s' \<longleftrightarrow> ok s' \<and> time s' = time s"

lemma deliver_row:
  assumes "ok (qstate w)" and "queue wk = q"
  shows "step_ok (qstate w) (qstate (deliver wk a m w)) \<and>
    (rows (qstate (deliver wk a m w)) =
       (rows (qstate w))(ID m := fate_row (cfg wk) a m (time (qstate w)) (rows (qstate w) (ID m))) \<or>
     rows (qstate (deliver wk a m w)) = rows (qstate w))"
proof -
  note laws = complete_rows [OF assms(1) prod.collapse [symmetric]] retry_rows [OF assms(1) prod.collapse [symmetric]]
    defer_rows [OF assms(1) prod.collapse [symmetric]] fail_rows [OF assms(1) prod.collapse [symmetric]]
  show ?thesis
    unfolding deliver_queue_call fate_row_def assms(2) step_ok_def
    using assms(1) laws(1) [of "ID m"] laws(2) [of "ID m" "backoffFor (cfg wk) (Attempts m)" "send_text a"]
      laws(3) [of "ID m" "ConflictBackoff (cfg wk)"] laws(4) [of "ID m" "send_text a"]
    by (cases "fate_of a m") auto
qed

text \<open>A batch, delivered in any order, acts on each of its messages separately.\<close>

lemma deliver_batch:
  assumes "ok (qstate w)" and "queue wk = q" and "distinct (map ID ms)"
  shows "step_ok (qstate w) (qstate (deliver_all wk a ms w)) \<and>
    (\<forall>m \<in> set ms. rows (qstate (deliver_all wk a ms w)) (ID m) = rows (qstate w) (ID m) \<or>
       rows (qstate (deliver_all wk a ms w)) (ID m) =
         fate_row (cfg wk) (a m) m (time (qstate w)) (rows (qstate w) (ID m))) \<and>
    (\<forall>i. i \<notin> ID ` set ms \<longrightarrow> rows (qstate (deliver_all wk a ms w)) i = rows (qstate w) i)"
  using assms(1,3)
proof (induction ms arbitrary: w)
  case Nil
  then show ?case by (simp add: step_ok_def deliver_all_def)
next
  case (Cons m ms)
  let ?w1 = "deliver wk (a m) m w"
  note d = deliver_row [OF Cons.prems(1) assms(2), of "a m" m]
  have ok1: "ok (qstate ?w1)" using d by (simp add: step_ok_def)
  note ih = Cons.IH [OF ok1]
  have other: "rows (qstate ?w1) i = rows (qstate w) i" if "i \<noteq> ID m" for i
    using d that by (metis fun_upd_other)
  have own: "rows (qstate ?w1) (ID m) = rows (qstate w) (ID m) \<or>
      rows (qstate ?w1) (ID m) = fate_row (cfg wk) (a m) m (time (qstate w)) (rows (qstate w) (ID m))"
    using d by (metis fun_upd_same)
  have t: "time (qstate ?w1) = time (qstate w)" using d by (simp add: step_ok_def)
  have m: "ID m \<notin> ID ` set ms" and dist: "distinct (map ID ms)" using Cons.prems(2) by auto
  have ne: "ID x \<noteq> ID m" if "x \<in> set ms" for x using m that by (metis imageI)
  note ih = ih [OF dist, unfolded step_ok_def t]
  have A: "step_ok (qstate w) (qstate (deliver_all wk a ms ?w1))"
    using ih by (simp add: step_ok_def)
  have B: "rows (qstate (deliver_all wk a ms ?w1)) (ID x) = rows (qstate w) (ID x) \<or>
      rows (qstate (deliver_all wk a ms ?w1)) (ID x) =
        fate_row (cfg wk) (a x) x (time (qstate w)) (rows (qstate w) (ID x))" if "x \<in> set ms" for x
    using ih that other [OF ne [OF that]] by metis
  have C: "rows (qstate (deliver_all wk a ms ?w1)) i = rows (qstate ?w1) i"
    if "i \<notin> ID ` set ms" for i
    using ih that by blast
  have step: "deliver_all wk a (m # ms) w = deliver_all wk a ms ?w1" by (simp add: deliver_all_def)
  show ?case unfolding step using A B C [OF m] own C other by simp
qed

text \<open>The batch as a whole: the claimed rows and what became of each.\<close>

lemma batch_rows:
  assumes "ok (qstate w)" and "queue wk = q" and "\<And>ms. mset (order ms) = mset ms"
    and "processBatch wk a order w = (Inr n, w')"
  obtains ms where "length ms = n" and "distinct (map ID ms)" and "int n \<le> BatchSize (cfg wk)"
    and "step_ok (qstate w) (qstate w')"
    and "sends w' = sends w @ map (\<lambda>m. (m, send_result (a m))) (order ms)"
    and "\<forall>m \<in> set ms. \<exists>r c. rows (qstate w) (ID m) = Some r \<and> due (time (qstate w)) r \<and>
       c = claim_row (time (qstate w)) (seconds_int32 (VisibilityTimeout (cfg wk))) r \<and> m = message_of c \<and>
       (rows (qstate w') (ID m) = Some c \<or>
        rows (qstate w') (ID m) = fate_row (cfg wk) (a m) m (time (qstate w)) (Some c))"
    and "\<forall>i. i \<notin> ID ` set ms \<longrightarrow> rows (qstate w') i = rows (qstate w) i"
proof -
  let ?c = "claim_row (time (qstate w)) (seconds_int32 (VisibilityTimeout (cfg wk)))"
  obtain ms w1 where call: "call_queue (Claim q (BatchSize (cfg wk)) (VisibilityTimeout (cfg wk))) w = (Inr ms, w1)"
    and n: "n = length ms" and w': "w' = deliver_all wk a (order ms) w1"
    using assms(2,3,4)
    by (auto simp: processBatch_def deliver_all_def split: prod.splits sum.splits if_splits)
       (metis fold_simps(1) mset_zero_iff)
  note c = claim_ok [OF assms(1) conjunct1 [OF call_queueD [OF call]]]
  have ok1: "ok (qstate w1)" and t1: "time (qstate w1) = time (qstate w)" using c by auto
  have perm: "set (order ms) = set ms" using assms(3) [of ms] by (metis set_mset_mset)
  have dist: "distinct (map ID ms)" using c by blast
  have "distinct (map ID (order ms))"
    using dist assms(3) [of ms] by (metis mset_eq_imp_distinct_iff mset_map)
  note d = deliver_batch [OF ok1 assms(2) this, of a, folded w', unfolded perm t1]
  have "sends (deliver_all wk a xs w1) = sends w1 @ map (\<lambda>m. (m, send_result (a m))) xs" for xs
    unfolding deliver_all_def by (induction xs arbitrary: w1) (auto simp: deliver_sends)
  then have snd': "sends w' = sends w @ map (\<lambda>m. (m, send_result (a m))) (order ms)"
    using w' call_queueD [OF call] by simp
  have own: "\<exists>r c. rows (qstate w) (ID m) = Some r \<and> due (time (qstate w)) r \<and> c = ?c r \<and> m = message_of c \<and>
      (rows (qstate w') (ID m) = Some c \<or>
       rows (qstate w') (ID m) = fate_row (cfg wk) (a m) m (time (qstate w)) (Some c))"
    if m: "m \<in> set ms" for m
  proof -
    obtain r where r: "rows (qstate w) (ID m) = Some r" "due (time (qstate w)) r" "m = message_of (?c r)"
      using c m by blast
    have "rows (qstate w1) (ID m) = Some (?c r)" using c r(1) imageI [OF m, of ID] by simp
    with d m r show ?thesis by metis
  qed
  have others: "rows (qstate w') i = rows (qstate w) i" if "i \<notin> ID ` set ms" for i
    using c d that by metis
  show thesis
    by (rule that [OF n [symmetric] dist _ _ snd'])
       (use c d n t1 own others in \<open>auto simp: step_ok_def\<close>)
qed

lemma batch_error_rows:
  assumes "ok (qstate w)" and "queue wk = q" and "processBatch wk a order w = (Inl e, w')"
  shows "step_ok (qstate w) (qstate w')" and "sends w' = sends w"
    and "rows (qstate w') i = rows (qstate w) i \<or>
      (\<exists>r. rows (qstate w) i = Some r \<and> due (time (qstate w)) r \<and>
        rows (qstate w') i =
          Some (claim_row (time (qstate w)) (seconds_int32 (VisibilityTimeout (cfg wk))) r))"
proof -
  have call: "call_queue (Claim q (BatchSize (cfg wk)) (VisibilityTimeout (cfg wk))) w = (Inl e, w')"
    using assms(2,3) by (auto simp: processBatch_def split: prod.splits sum.splits if_splits)
  note c = claim_err [OF assms(1) conjunct1 [OF call_queueD [OF call]]]
  show "step_ok (qstate w) (qstate w')" "sends w' = sends w"
    "rows (qstate w') i = rows (qstate w) i \<or>
      (\<exists>r. rows (qstate w) i = Some r \<and> due (time (qstate w)) r \<and>
        rows (qstate w') i =
          Some (claim_row (time (qstate w)) (seconds_int32 (VisibilityTimeout (cfg wk))) r))"
    using c call_queueD [OF call] by (auto simp: step_ok_def)
qed

end

section \<open>The loop\<close>

text \<open>Sent according to a log of sends; what a batch may have done to a row that it kept.\<close>

definition delivered :: "(Message \<times> goerr option) list \<Rightarrow> uuid \<Rightarrow> bool" where
  "delivered log i \<longleftrightarrow> (\<exists>m. (m, None) \<in> set log \<and> ID m = i)"

definition touched :: "int \<Rightarrow> row \<Rightarrow> row \<Rightarrow> bool" where
  "touched now r r' \<longleftrightarrow> failed_at r = None \<and> failed_at r' \<in> {None, Some now}"

text \<open>A queue that can also be counted.\<close>

definition row_count :: "(uuid \<Rightarrow> row option) \<Rightarrow> (row \<Rightarrow> bool) \<Rightarrow> int" where
  "row_count rs p = int (card {i. \<exists>r. rs i = Some r \<and> p r})"

locale counted_queue = lease_queue +
  fixes cnt :: "'a Counter"
  assumes pending_rows: "ok s \<Longrightarrow> CountPending cnt s = (res, s') \<Longrightarrow>
      ok s' \<and> time s' = time s \<and> rows s' = rows s \<and>
      (\<forall>n. res = Inr n \<longrightarrow> n = row_count (rows s) (\<lambda>r. failed_at r = None))"
    and failed_rows: "ok s \<Longrightarrow> CountFailed cnt s = (res, s') \<Longrightarrow>
      ok s' \<and> time s' = time s \<and> rows s' = rows s \<and>
      (\<forall>n. res = Inr n \<longrightarrow> n = row_count (rows s) (\<lambda>r. failed_at r \<noteq> None))"
begin

definition worker_on :: "'a Worker \<Rightarrow> bool" where
  "worker_on wk \<longleftrightarrow> queue wk = q \<and> counter wk \<in> {None, Some cnt}"

lemma cleanup_rows:
  assumes "ok (qstate w)" and "worker_on wk"
  shows "step_ok (qstate w) (qstate (cleanupFailed wk w))"
    and "sends (cleanupFailed wk w) = sends w"
    and "rows (qstate (cleanupFailed wk w)) i = rows (qstate w) i \<or>
      (\<exists>r. rows (qstate w) i = Some r \<and> expired (time (qstate w)) (seconds_int32 (FailedRetention (cfg wk))) r \<and>
        rows (qstate (cleanupFailed wk w)) i = None)"
proof -
  obtain res w1 where call: "call_queue (DeleteOldFailed q (FailedRetention (cfg wk))) w = (res, w1)"
    by fastforce
  have eq: "qstate (cleanupFailed wk w) = qstate w1 \<and> sends (cleanupFailed wk w) = sends w1"
    using call assms(2) by (cases res) (auto simp: cleanupFailed_def worker_on_def)
  note c = delete_rows [OF assms(1) conjunct1 [OF call_queueD [OF call]]]
  show "step_ok (qstate w) (qstate (cleanupFailed wk w))" "sends (cleanupFailed wk w) = sends w"
    "rows (qstate (cleanupFailed wk w)) i = rows (qstate w) i \<or>
      (\<exists>r. rows (qstate w) i = Some r \<and> expired (time (qstate w)) (seconds_int32 (FailedRetention (cfg wk))) r \<and>
        rows (qstate (cleanupFailed wk w)) i = None)"
    using c eq call_queueD [OF call] by (auto simp: step_ok_def)
qed

lemma observeDepth_rows:
  assumes "ok (qstate w)" and "worker_on wk"
  shows "step_ok (qstate w) (qstate (observeDepth wk w)) \<and> sends (observeDepth wk w) = sends w \<and>
    rows (qstate (observeDepth wk w)) = rows (qstate w)"
proof (cases "counter wk = None \<or> metrics w = None")
  case True
  then have "observeDepth wk w = w" by (auto simp: observeDepth_def split: option.splits)
  with assms(1) show ?thesis by (simp add: step_ok_def)
next
  case False
  then have cnt: "counter wk = Some cnt" and m: "metrics w \<noteq> None" using assms(2) by (auto simp: worker_on_def)
  obtain r1 w1 where c1: "call_queue (CountPending cnt) w = (r1, w1)" by fastforce
  obtain r2 w2 where c2: "call_queue (CountFailed cnt) w1 = (r2, w2)" by fastforce
  note p = pending_rows [OF assms(1) conjunct1 [OF call_queueD [OF c1]]]
  then have "ok (qstate w1)" by blast
  note f = failed_rows [OF this conjunct1 [OF call_queueD [OF c2]]]
  have "observeDepth wk w = (case r1 of Inl e \<Rightarrow> log_at LevelWarn ''outbox depth unavailable'' w1
      | Inr n \<Rightarrow> (case r2 of Inl e \<Rightarrow> log_at LevelWarn ''outbox depth unavailable'' w2
                  | Inr k \<Rightarrow> w2\<lparr>metrics := depth n k (metrics w2)\<rparr>))"
    using c1 c2 m cnt by (auto simp: observeDepth_def split: sum.splits)
  with p f call_queueD [OF c1] call_queueD [OF c2] show ?thesis
    by (auto simp: step_ok_def split: sum.splits)
qed

lemma after_batch_rows:
  assumes "ok (qstate w)" and "worker_on wk"
  shows "step_ok (qstate w) (qstate (after_batch wk it w))"
    and "sends (after_batch wk it w) = sends w"
    and "rows (qstate (after_batch wk it w)) i = rows (qstate w) i \<or>
      cleanup_tick it \<and> (\<exists>r. rows (qstate w) i = Some r \<and>
        expired (time (qstate w)) (seconds_int32 (FailedRetention (cfg wk))) r \<and>
        rows (qstate (after_batch wk it w)) i = None)"
proof -
  note c = cleanup_rows [OF assms]
  have "ok (qstate (cleanupFailed wk w))" using c(1) by (simp add: step_ok_def)
  note o = observeDepth_rows [OF this assms(2)]
  show "step_ok (qstate w) (qstate (after_batch wk it w))" "sends (after_batch wk it w) = sends w"
    "rows (qstate (after_batch wk it w)) i = rows (qstate w) i \<or>
      cleanup_tick it \<and> (\<exists>r. rows (qstate w) i = Some r \<and>
        expired (time (qstate w)) (seconds_int32 (FailedRetention (cfg wk))) r \<and>
        rows (qstate (after_batch wk it w)) i = None)"
    using c(1,2) c(3) [of i] o assms(1) by (auto simp: after_batch_def step_ok_def)
qed

text \<open>
  What a batch does to the rows: one that disappears was sent; one that changed was
  pending and, if it is now marked as failed, was marked at this moment.
\<close>

lemma batch_loss:
  assumes "ok (qstate w)" and "worker_on wk" and "\<And>ms. mset (order ms) = mset ms"
    and "processBatch wk a order w = (res, w1)"
  obtains new where "step_ok (qstate w) (qstate w1)" and "sends w1 = sends w @ new"
    and "\<forall>i r. rows (qstate w) i = Some r \<longrightarrow>
      (case rows (qstate w1) i of None \<Rightarrow> delivered new i | Some r' \<Rightarrow> r' = r \<or> touched (time (qstate w)) r r')"
proof (cases res)
  case (Inl e)
  have q: "queue wk = q" using assms(2) by (simp add: worker_on_def)
  note c = batch_error_rows [OF assms(1) q assms(4) [unfolded Inl]]
  show thesis
  proof (rule that [of "[]"])
    show "\<forall>i r. rows (qstate w) i = Some r \<longrightarrow> (case rows (qstate w1) i of None \<Rightarrow> delivered [] i
        | Some r' \<Rightarrow> r' = r \<or> touched (time (qstate w)) r r')"
    proof (intro allI impI)
      fix i r assume "rows (qstate w) i = Some r"
      with c(3) [of i] show "case rows (qstate w1) i of None \<Rightarrow> delivered [] i
          | Some r' \<Rightarrow> r' = r \<or> touched (time (qstate w)) r r'"
        by (auto simp: touched_def due_def)
    qed
  qed (use c in auto)
next
  case (Inr n)
  have q: "queue wk = q" using assms(2) by (simp add: worker_on_def)
  obtain ms where st: "step_ok (qstate w) (qstate w1)"
    and sd: "sends w1 = sends w @ map (\<lambda>m. (m, send_result (a m))) (order ms)"
    and own: "\<forall>m \<in> set ms. \<exists>r c. rows (qstate w) (ID m) = Some r \<and> due (time (qstate w)) r \<and>
       c = claim_row (time (qstate w)) (seconds_int32 (VisibilityTimeout (cfg wk))) r \<and> m = message_of c \<and>
       (rows (qstate w1) (ID m) = Some c \<or>
        rows (qstate w1) (ID m) = fate_row (cfg wk) (a m) m (time (qstate w)) (Some c))"
    and oth: "\<forall>i. i \<notin> ID ` set ms \<longrightarrow> rows (qstate w1) i = rows (qstate w) i"
    by (rule batch_rows [OF assms(1) q assms(3) assms(4) [unfolded Inr]]) blast
  have perm: "set (order ms) = set ms" using assms(3) [of ms] by (metis set_mset_mset)
  show thesis
  proof (rule that [OF st sd], intro allI impI)
    fix i r assume r: "rows (qstate w) i = Some r"
    show "case rows (qstate w1) i of
        None \<Rightarrow> delivered (map (\<lambda>m. (m, send_result (a m))) (order ms)) i
      | Some r' \<Rightarrow> r' = r \<or> touched (time (qstate w)) r r'"
    proof (cases "i \<in> ID ` set ms")
      case False
      with oth r show ?thesis by simp
    next
      case True
      then obtain m where m: "m \<in> set ms" "i = ID m" by blast
      let ?c = "claim_row (time (qstate w)) (seconds_int32 (VisibilityTimeout (cfg wk))) r"
      have row: "rows (qstate w1) i = Some ?c \<or>
          rows (qstate w1) i = fate_row (cfg wk) (a m) m (time (qstate w)) (Some ?c)" and p: "failed_at r = None"
        using bspec [OF own m(1)] r m(2) by (auto simp: due_def)
      have "send_result (a m) = None \<Longrightarrow> delivered (map (\<lambda>m. (m, send_result (a m))) (order ms)) i"
        using m perm by (auto simp: delivered_def image_iff intro!: exI [of _ m])
      then show ?thesis
        using row p fate_row_None [of "cfg wk" "a m" m "time (qstate w)" ?c]
          fate_row_failed [of "cfg wk" "a m" m "time (qstate w)" ?c]
        by (auto simp: touched_def split: option.splits)
    qed
  qed
qed

text \<open>What the surroundings of an iteration must respect.\<close>

definition fair :: "'a iteration \<Rightarrow> bool" where
  "fair it \<longleftrightarrow> (\<forall>ms. mset (call_order it ms) = mset ms) \<and>
     (\<forall>s. ok s \<longrightarrow> ok (outside it s) \<and> (\<forall>i. rows s i \<noteq> None \<longrightarrow> rows (outside it s) i \<noteq> None))"

definition past_retention :: "'a Worker \<Rightarrow> 'a iteration \<Rightarrow> 'a \<Rightarrow> uuid \<Rightarrow> bool" where
  "past_retention wk it s i \<longleftrightarrow> cleanup_tick it \<and>
     (\<exists>r. rows s i = Some r \<and> expired (time s) (seconds_int32 (FailedRetention (cfg wk))) r)"

lemma iterate_loss:
  assumes "ok (qstate w)" and "worker_on wk" and "fair it" and "0 \<le> seconds_int32 (FailedRetention (cfg wk))"
    and "iterate wk it w = (b, w')"
  obtains new where "ok (qstate w')" and "sends w' = sends w @ new"
    and "\<forall>i. rows (qstate w) i \<noteq> None \<longrightarrow> rows (qstate w') i \<noteq> None \<or> delivered new i \<or>
      past_retention wk it (outside it (qstate w)) i"
proof -
  let ?w0 = "w\<lparr>qstate := outside it (qstate w)\<rparr>"
  obtain res w1 where run: "processBatch wk (attempt_of it) (call_order it) ?w0 = (res, w1)" by fastforce
  have ok0: "ok (qstate ?w0)" and perm: "\<And>ms. mset (call_order it ms) = mset ms"
    and kept: "\<And>i. rows (qstate w) i \<noteq> None \<Longrightarrow> rows (qstate ?w0) i \<noteq> None"
    using assms(1,3) by (auto simp: fair_def)
  obtain new where st: "step_ok (qstate ?w0) (qstate w1)" and sd: "sends w1 = sends ?w0 @ new"
    and loss: "\<forall>i r. rows (qstate ?w0) i = Some r \<longrightarrow> (case rows (qstate w1) i of
        None \<Rightarrow> delivered new i | Some r' \<Rightarrow> r' = r \<or> touched (time (qstate ?w0)) r r')"
    by (rule batch_loss [OF ok0 assms(2) perm run])
  obtain w2 where w2: "qstate w2 = qstate w1" "sends w2 = sends w1"
    and w': "w' = w2 \<or> w' = after_batch wk it w2"
    using assms(5) run
    by (auto simp: iterate_def split: sum.splits if_splits prod.splits intro: that world_simps)
  have ok2: "ok (qstate w2)" and t2: "time (qstate w2) = time (qstate ?w0)" using st w2 by (auto simp: step_ok_def)
  note ab = after_batch_rows [OF ok2 assms(2), of it]
  have "rows (qstate w') i \<noteq> None \<or> delivered new i \<or> past_retention wk it (qstate ?w0) i"
    if i: "rows (qstate w) i \<noteq> None" for i
  proof -
    obtain r where r: "rows (qstate ?w0) i = Some r" using kept [OF i] by auto
    show ?thesis
    proof (cases "rows (qstate w1) i")
      case None
      with loss r show ?thesis by fastforce
    next
      case (Some r')
      show ?thesis
      proof (cases "rows (qstate w') i")
        case None
        then have tick: "cleanup_tick it"
          and ex: "expired (time (qstate ?w0)) (seconds_int32 (FailedRetention (cfg wk))) r'"
          using w' ab(3) [of i] Some w2 t2 by auto
        have "r' = r \<or> touched (time (qstate ?w0)) r r'" using loss r Some by fastforce
        with ex assms(4) have "r' = r"
          by (auto simp: touched_def expired_def interval_def split: option.splits)
        with tick ex r show ?thesis by (auto simp: past_retention_def)
      qed simp
    qed
  qed
  moreover have "ok (qstate w')" and "sends w' = sends w @ new"
    using w' w2 ok2 sd ab(1,2) by (auto simp: step_ok_def)
  ultimately show thesis using that by simp
qed

text \<open>The whole run: a row that is gone was sent, or a cleanup found it past its retention.\<close>

definition cleaned :: "'a Worker \<Rightarrow> 'a iteration list \<Rightarrow> 'a world \<Rightarrow> uuid \<Rightarrow> bool" where
  "cleaned wk its w i \<longleftrightarrow>
     (\<exists>pre it rest w1. its = pre @ it # rest \<and> Run wk pre w = (False, w1) \<and>
        past_retention wk it (outside it (qstate w1)) i)"

lemma cleaned_Cons:
  assumes "iterate wk it w = (False, w1)" and "cleaned wk its w1 i"
  shows "cleaned wk (it # its) w i"
proof -
  obtain pre it' rest w2 where "its = pre @ it' # rest" "Run wk pre w1 = (False, w2)"
      "past_retention wk it' (outside it' (qstate w2)) i"
    using assms(2) by (auto simp: cleaned_def)
  then have "it # its = (it # pre) @ it' # rest \<and> Run wk (it # pre) w = (False, w2) \<and>
      past_retention wk it' (outside it' (qstate w2)) i"
    using assms(1) by simp
  then show ?thesis unfolding cleaned_def by blast
qed

lemma cleaned_first:
  "past_retention wk it (outside it (qstate w)) i \<Longrightarrow> cleaned wk (it # its) w i"
  unfolding cleaned_def by (intro exI [of _ "[]"]) auto

lemma run_loss:
  assumes "ok (qstate w)" and "worker_on wk" and "\<forall>it \<in> set its. fair it"
    and "0 \<le> seconds_int32 (FailedRetention (cfg wk))" and "Run wk its w = (b, w')"
  shows "ok (qstate w') \<and> (\<exists>new. sends w' = sends w @ new \<and>
    (\<forall>i. rows (qstate w) i \<noteq> None \<longrightarrow> rows (qstate w') i \<noteq> None \<or> delivered new i \<or> cleaned wk its w i))"
  using assms(1,3,5)
proof (induction its arbitrary: w)
  case Nil
  then show ?case by simp
next
  case (Cons it its)
  obtain stop w1 where it: "iterate wk it w = (stop, w1)" by fastforce
  have f: "fair it" using Cons.prems(2) by simp
  obtain new where ok1: "ok (qstate w1)" and sd: "sends w1 = sends w @ new"
    and loss: "\<forall>i. rows (qstate w) i \<noteq> None \<longrightarrow> rows (qstate w1) i \<noteq> None \<or> delivered new i \<or>
      past_retention wk it (outside it (qstate w)) i"
    by (rule iterate_loss [OF Cons.prems(1) assms(2) f assms(4) it])
  show ?case
  proof (cases stop)
    case True
    then have "w' = w1" using Cons.prems(3) it by simp
    then show ?thesis using ok1 sd loss cleaned_first by blast
  next
    case False
    then have it': "iterate wk it w = (False, w1)" using it by simp
    have run: "Run wk its w1 = (b, w')" using False Cons.prems(3) it by simp
    have "\<forall>it \<in> set its. fair it" using Cons.prems(2) by simp
    then obtain new' where ok': "ok (qstate w')" and sd': "sends w' = sends w1 @ new'"
      and loss': "\<forall>i. rows (qstate w1) i \<noteq> None \<longrightarrow>
        rows (qstate w') i \<noteq> None \<or> delivered new' i \<or> cleaned wk its w1 i"
      using Cons.IH [OF ok1 _ run] by blast
    have "delivered new i \<or> delivered new' i \<Longrightarrow> delivered (new @ new') i" for i
      by (auto simp: delivered_def)
    then have "rows (qstate w) i \<noteq> None \<longrightarrow>
        rows (qstate w') i \<noteq> None \<or> delivered (new @ new') i \<or> cleaned wk (it # its) w i" for i
      using loss loss' cleaned_first [of wk it w i its] cleaned_Cons [OF it', of its i] by blast
    with ok' sd sd' show ?thesis by auto
  qed
qed

end

section \<open>The worker on the repository\<close>

definition Repository_Counter :: "pg Counter" where
  "Repository_Counter = \<lparr>CountPending = repo_CountPending, CountFailed = repo_CountFailed\<rparr>"

lemma row_count_lookup:
  assumes "distinct (map row_id t)"
  shows "int (length (filter p t)) = row_count (lookup t) p"
proof -
  have "{i. \<exists>r. lookup t i = Some r \<and> p r} = row_id ` set (filter p t)"
    using lookup_member [OF assms] lookup_SomeD by (force simp: image_iff)
  moreover have "distinct (map row_id (filter p t))" using assms by (rule distinct_map_filter)
  ultimately show ?thesis
    unfolding row_count_def by (metis distinct_card length_map list.set_map)
qed

lemma repo_count_rows:
  assumes "db_ok s" and "wrap_db msg (run_sql (sql_count p) s) = (res, s')"
  shows "db_ok s' \<and> clock s' = clock s \<and> repo_rows s' = repo_rows s \<and>
    (\<forall>n. res = Inr n \<longrightarrow> n = row_count (repo_rows s) p)"
proof -
  obtain res0 where run: "run_sql (sql_count p) s = (res0, s')" and r: "\<And>n. res = Inr n \<Longrightarrow> res0 = Inr n"
    using assms(2) by (auto elim!: wrap_db_cases)
  have d: "distinct (map row_id (visible s))" using assms(1) by (simp add: db_ok_def table_ok_def)
  from run have "repo_rows s' = repo_rows s \<and> (\<forall>n. res0 = Inr n \<longrightarrow> n = row_count (repo_rows s) p)"
    by (cases rule: run_sql_cases) (auto simp: sql_count_def repo_rows_def row_count_lookup [OF d])
  with run_sql_ok [OF run assms(1) keeps_ok_others(6)] r show ?thesis by blast
qed

interpretation repo_worker: counted_queue Repository repo_rows clock db_ok Repository_Counter
  by unfold_locales
     (auto simp: Repository_Counter_def repo_CountPending_def repo_CountFailed_def dest: repo_count_rows)

interpretation outbox_cfg: defaulting outbox_withDefaults
  "\<lambda>c. 0 < PollInterval c \<and> 0 < BatchSize c \<and> 0 < Concurrency c \<and> 0 < VisibilityTimeout c \<and>
     0 < SendTimeout c \<and> 0 < BaseBackoff c \<and> 0 < MaxBackoff c \<and> 0 < ConflictBackoff c \<and>
     0 < FailedRetention c \<and> 0 < CleanupInterval c"
  by unfold_locales (auto simp: outbox_withDefaults_def duration_units)

lemma db_ok_row: "db_ok s \<Longrightarrow> repo_rows s i = Some r \<Longrightarrow> row_ok r \<and> row_id r = i"
  by (auto simp: db_ok_def table_ok_def repo_rows_def dest: lookup_SomeD)

text \<open>
  C2. A batch against the repository: it delivers each claimed message exactly once, and
  afterwards each claimed row either is as the claim left it (leased, to be tried again:
  the queue could not be told) or is as the result of its delivery demands. A sent message
  is deleted; one that was interrupted by cancellation keeps its lease; one that was
  rejected, or has used its last attempt, is marked as failed now with the error text; a
  conflict gives the attempt back; any other failure leaves it pending, due after the
  backoff, with the attempt counted. No other row changes.
\<close>

theorem batch_outcome:
  assumes "db_ok (qstate w)" and "queue wk = Repository" and "\<And>ms. mset (order ms) = mset ms"
    and "processBatch wk a order w = (Inr n, w')"
  shows "\<exists>ms. length ms = n \<and> distinct (map ID ms) \<and> int n \<le> BatchSize (cfg wk) \<and>
    mset (sends w') = mset (sends w) + image_mset (\<lambda>m. (m, send_result (a m))) (mset ms) \<and>
    (\<forall>i. i \<notin> ID ` set ms \<longrightarrow> repo_rows (qstate w') i = repo_rows (qstate w) i) \<and>
    (\<forall>m \<in> set ms. \<exists>r c. repo_rows (qstate w) (ID m) = Some r \<and> due (clock (qstate w)) r \<and>
       c = claim_row (clock (qstate w)) (seconds_int32 (VisibilityTimeout (cfg wk))) r \<and> m = message_of c \<and>
       (repo_rows (qstate w') (ID m) = Some c \<or>
        (case fate_of (a m) m of
           Sent \<Rightarrow> repo_rows (qstate w') (ID m) = None
         | Interrupted \<Rightarrow> repo_rows (qstate w') (ID m) = Some c
         | Deferred \<Rightarrow> repo_rows (qstate w') (ID m) = Some (r\<lparr>next_attempt_at :=
             clock (qstate w) + interval (seconds_int32 (ConflictBackoff (cfg wk)))\<rparr>)
         | Rescheduled \<Rightarrow> attempts c < max_attempts c \<and>
             repo_rows (qstate w') (ID m) = Some (c\<lparr>last_error := truncate_reason (send_text (a m)),
               next_attempt_at := clock (qstate w) +
                 interval (seconds_int32 (backoffFor (cfg wk) (attempts c)))\<rparr>)
         | _ \<Rightarrow> (\<exists>r'. repo_rows (qstate w') (ID m) = Some r' \<and> failed_at r' = Some (clock (qstate w)) \<and>
             last_error r' = truncate_reason (send_text (a m)) \<and> attempts r' = attempts c))))"
proof -
  obtain ms where ms: "length ms = n" "distinct (map ID ms)" "int n \<le> BatchSize (cfg wk)"
    and sd: "sends w' = sends w @ map (\<lambda>m. (m, send_result (a m))) (order ms)"
    and own: "\<forall>m \<in> set ms. \<exists>r c. repo_rows (qstate w) (ID m) = Some r \<and> due (clock (qstate w)) r \<and>
       c = claim_row (clock (qstate w)) (seconds_int32 (VisibilityTimeout (cfg wk))) r \<and> m = message_of c \<and>
       (repo_rows (qstate w') (ID m) = Some c \<or>
        repo_rows (qstate w') (ID m) = fate_row (cfg wk) (a m) m (clock (qstate w)) (Some c))"
    and oth: "\<forall>i. i \<notin> ID ` set ms \<longrightarrow> repo_rows (qstate w') i = repo_rows (qstate w) i"
    by (rule repo.batch_rows [OF assms])
  have sd': "mset (sends w') = mset (sends w) + image_mset (\<lambda>m. (m, send_result (a m))) (mset ms)"
    using assms(3) [of ms] by (simp add: sd)
  have fate: "fate_row (cfg wk) b (message_of c) now (Some c) = x \<Longrightarrow> (case fate_of b (message_of c) of
      Sent \<Rightarrow> x = None | Interrupted \<Rightarrow> x = Some c
    | Deferred \<Rightarrow> x = Some (r\<lparr>next_attempt_at := now + interval (seconds_int32 (ConflictBackoff (cfg wk)))\<rparr>)
    | Rescheduled \<Rightarrow> attempts c < max_attempts c \<and> x = Some (c\<lparr>last_error := truncate_reason (send_text b),
        next_attempt_at := now + interval (seconds_int32 (backoffFor (cfg wk) (attempts c)))\<rparr>)
    | _ \<Rightarrow> (\<exists>r'. x = Some r' \<and> failed_at r' = Some now \<and>
        last_error r' = truncate_reason (send_text b) \<and> attempts r' = attempts c))"
    if "failed_at r = None" "0 \<le> attempts r" "c = claim_row now v r" for b c now v r x
    using that
    by (auto simp: fate_row_def fate_of_def message_of_def claim_row_def retry_row_def defer_row_def fail_row_def
        split: fate.splits if_splits)
  have row: "failed_at r = None \<and> 0 \<le> attempts r"
    if "repo_rows (qstate w) i = Some r" "due (clock (qstate w)) r" for i r
    using db_ok_row [OF assms(1) that(1)] that(2) by (simp add: row_ok_def due_def)
  show ?thesis
  proof (intro exI [of _ ms] conjI ballI, goal_cases)
    case (6 m)
    then obtain r c where rc: "repo_rows (qstate w) (ID m) = Some r" "due (clock (qstate w)) r"
        "c = claim_row (clock (qstate w)) (seconds_int32 (VisibilityTimeout (cfg wk))) r" "m = message_of c"
      and alt: "repo_rows (qstate w') (ID m) = Some c \<or>
        repo_rows (qstate w') (ID m) = fate_row (cfg wk) (a m) m (clock (qstate w)) (Some c)"
      using own by blast
    note f = fate [OF conjunct1 [OF row [OF rc(1,2)]] conjunct2 [OF row [OF rc(1,2)]] rc(3),
        of "a m", folded rc(4), OF sym]
    show ?case by (rule exI [of _ r], rule exI [of _ c]) (use rc alt f in blast)
  qed (use ms sd' oth in auto)
qed

definition sample_Config :: outbox_Config where
  "sample_Config =
     \<lparr>PollInterval = 2 * second, BatchSize = 20, Concurrency = 8, VisibilityTimeout = 2 * minute,
      SendTimeout = 30 * second, BaseBackoff = 30 * second, MaxBackoff = 30 * minute,
      ConflictBackoff = 15 * second, FailedRetention = 7 * 24 * hour, CleanupInterval = hour\<rparr>"

definition sample_worker :: "pg Worker" where
  "sample_worker = \<lparr>cfg = sample_Config, queue = Repository, counter = Some Repository_Counter\<rparr>"

definition sample_world :: "table \<Rightarrow> pg world" where
  "sample_world t = \<lparr>qstate = sample_pg t 100, metrics = None, logs = [], sends = []\<rparr>"

lemmas batch_eval =
  processBatch_def call_queue_def deliver_all_def deliver_def log_at_def observed_def observe_def
  sample_worker_def sample_Config_def sample_world_def Repository_def repo_Claim_def sql_claim_def
  repo_Complete_def sql_complete_def sample_eval minute_def hour_def

theorem batch_outcome_witness:
  "\<exists>w'. processBatch sample_worker (\<lambda>_. \<lparr>send_result = None, ctx_err = None\<rparr>) rev
      (sample_world [sample_row 1 0 50]) = (Inr 1, w') \<and>
    (\<exists>ms. length ms = 1 \<and> mset (sends w') = image_mset (\<lambda>m. (m, None)) (mset ms))"
proof -
  let ?a = "\<lambda>_ :: Message. \<lparr>send_result = None, ctx_err = None\<rparr>"
  have ok: "db_ok (qstate (sample_world [sample_row 1 0 50]))" by (simp add: sample_world_def sample_eval)
  have q: "queue sample_worker = Repository" by (simp add: sample_worker_def)
  obtain w' where run: "processBatch sample_worker ?a rev (sample_world [sample_row 1 0 50]) = (Inr 1, w')"
    by (simp add: batch_eval)
  have "sends (sample_world [sample_row 1 0 50]) = []" by (simp add: sample_world_def)
  with batch_outcome [OF ok q _ run] have "\<exists>ms. length ms = 1 \<and> mset (sends w') = image_mset (\<lambda>m. (m, None)) (mset ms)"
    by fastforce
  with run show ?thesis by blast
qed

section \<open>Nothing is lost\<close>

text \<open>
  The surroundings of the loop: the deliveries of a batch may reach the queue in any order;
  between two iterations other sessions may do anything that keeps the table well formed
  and deletes no row.
\<close>

definition surroundings_ok :: "pg iteration \<Rightarrow> bool" where
  "surroundings_ok it \<longleftrightarrow> (\<forall>ms. mset (call_order it ms) = mset ms) \<and>
     (\<forall>s. db_ok s \<longrightarrow> db_ok (outside it s) \<and> (\<forall>i. repo_rows s i \<noteq> None \<longrightarrow> repo_rows (outside it s) i \<noteq> None))"

lemma surroundings_fair: "surroundings_ok = repo_worker.fair"
  by (simp add: fun_eq_iff surroundings_ok_def repo_worker.fair_def)

text \<open>
  C1. The worker loses no message: whatever the sender, the context and the database do
  during a run of any length, a message that was in the table is still there at the end,
  unless the run sent it successfully, or a cleanup tick found it marked as failed for
  longer than the retention. A well-formed table stays well formed.
\<close>

theorem worker_loses_no_message:
  assumes "db_ok (qstate w)" and "queue wk = Repository" and "counter wk = Some Repository_Counter"
    and "\<forall>it \<in> set its. surroundings_ok it" and "0 \<le> seconds_int32 (FailedRetention (cfg wk))"
    and "Run wk its w = (stopped, w')"
  shows "db_ok (qstate w') \<and> (\<exists>new. sends w' = sends w @ new \<and>
    (\<forall>i. repo_rows (qstate w) i \<noteq> None \<longrightarrow>
       repo_rows (qstate w') i \<noteq> None \<or> (\<exists>m. (m, None) \<in> set new \<and> ID m = i) \<or>
       (\<exists>pre it rest w1 s r. its = pre @ it # rest \<and> Run wk pre w = (False, w1) \<and> s = outside it (qstate w1) \<and>
          cleanup_tick it \<and> repo_rows s i = Some r \<and>
          expired (clock s) (seconds_int32 (FailedRetention (cfg wk))) r)))"
proof -
  have on: "repo_worker.worker_on wk" using assms(2,3) by (simp add: repo_worker.worker_on_def)
  show ?thesis
    using repo_worker.run_loss [OF assms(1) on assms(4) [unfolded surroundings_fair] assms(5,6)]
    unfolding delivered_def repo_worker.cleaned_def repo_worker.past_retention_def by metis
qed

definition sample_iteration :: "pg iteration" where
  "sample_iteration =
     \<lparr>outside = id, attempt_of = (\<lambda>_. \<lparr>send_result = None, ctx_err = None\<rparr>), call_order = id,
      cancelled = False, cleanup_tick = False, wake = ContextDone\<rparr>"

theorem worker_loses_no_message_witness:
  "\<exists>stopped w'. Run sample_worker [sample_iteration] (sample_world [sample_row 1 0 50]) = (stopped, w') \<and>
     db_ok (qstate w')"
proof -
  have ok: "db_ok (qstate (sample_world [sample_row 1 0 50]))" by (simp add: sample_world_def sample_eval)
  have it: "\<forall>it \<in> set [sample_iteration]. surroundings_ok it"
    by (simp add: surroundings_ok_def sample_iteration_def)
  have c: "0 \<le> seconds_int32 (FailedRetention (cfg sample_worker))"
    by (simp add: sample_worker_def sample_Config_def sample_eval duration_units)
  obtain b w' where run: "Run sample_worker [sample_iteration] (sample_world [sample_row 1 0 50]) = (b, w')"
    by fastforce
  with worker_loses_no_message [OF ok _ _ it c run] show ?thesis
    by (auto simp: sample_worker_def)
qed

section \<open>Backoff\<close>

lemma backoff_loop_closed:
  assumes "0 < b" and "b \<le> mx" and "mx < 2 ^ 62"
  shows "backoff_loop mx n b = min mx (b * 2 ^ n)"
  using assms(1,2)
proof (induction n arbitrary: b)
  case (Suc n)
  have dbl: "wrap64 (b * 2) = b * 2" using Suc.prems assms(3) by (intro wrap64_id) auto
  show ?case
  proof (cases "b * 2 \<ge> mx")
    case True
    have "b * 2 * 1 \<le> b * 2 * 2 ^ n" using Suc.prems by (intro mult_left_mono) auto
    with True dbl show ?thesis by (simp add: min_def mult.assoc)
  next
    case False
    with Suc dbl show ?thesis by (simp add: mult.assoc)
  qed
qed simp

text \<open>
  The backoff of the \<open>n\<close>-th attempt doubles from \<^verbatim>\<open>BaseBackoff\<close> and is capped by
  \<^verbatim>\<open>MaxBackoff\<close>: it is the smaller of the two values, without overflow for any attempt
  number of 16 bits, and it never shrinks from one attempt to the next.
\<close>

lemma backoff_closed_form:
  assumes "0 < BaseBackoff c" and "BaseBackoff c \<le> MaxBackoff c" and "MaxBackoff c < 2 ^ 62" and "1 \<le> n"
  shows "backoffFor c n = min (MaxBackoff c) (BaseBackoff c * 2 ^ nat (n - 1)) \<and>
    backoffFor c n \<le> backoffFor c (n + 1) \<and> BaseBackoff c \<le> backoffFor c n \<and> backoffFor c n \<le> MaxBackoff c"
proof -
  have eq: "backoffFor c k = min (MaxBackoff c) (BaseBackoff c * 2 ^ nat (k - 1))" if "1 \<le> k" for k
    using that backoff_loop_closed [OF assms(1-3)] by (simp add: backoffFor_def)
  have "nat (n + 1 - 1) = Suc (nat (n - 1))" using assms(4) by simp
  moreover have "BaseBackoff c * 1 \<le> BaseBackoff c * 2 ^ nat (n - 1)" using assms(1) by (intro mult_left_mono) auto
  ultimately show ?thesis using eq [of n] eq [of "n + 1"] assms by (simp add: min_def)
qed

section \<open>The lease and the duration of a batch\<close>

text \<open>
  The group limits the deliveries in progress to \<^verbatim>\<open>Concurrency\<close>: \<open>slots\<close> are the times at
  which its places become free, the next delivery starts as soon as one is.
\<close>

fun delivery_times :: "int list \<Rightarrow> duration list \<Rightarrow> int list" where
  "delivery_times slots [] = []"
| "delivery_times slots (d # ds) =
     (let t = Min (set slots) + d in t # delivery_times (t # remove1 (Min (set slots)) slots) ds)"

lemma some_slot_free:
  assumes "length (filter (\<lambda>x. x > b) xs) < length xs"
  shows "Min (set xs) \<le> (b :: int)"
proof -
  have "filter (\<lambda>x. x > b) xs \<noteq> xs" using assms by auto
  then obtain x where x: "x \<in> set xs" "\<not> x > b" by (metis filter_id_conv)
  then have "Min (set xs) \<le> x" by simp
  with x(2) show ?thesis by simp
qed

lemma delivery_times_bound:
  assumes "length slots = c" and "r < c" and "\<forall>d \<in> set ds. 0 \<le> d \<and> d \<le> T" and "0 \<le> T"
    and "\<forall>x \<in> set slots. x \<le> (int k + 1) * T"
    and "length (filter (\<lambda>x. x > int k * T) slots) \<le> r"
  shows "\<forall>t \<in> set (delivery_times slots ds). t \<le> int (k + (r + length ds + c - 1) div c) * T"
  using assms
proof (induction ds arbitrary: slots r k)
  case (Cons d ds)
  let ?m = "Min (set slots)" and ?bound = "k + (r + length (d # ds) + c - 1) div c"
  let ?slots = "(?m + d) # remove1 ?m slots"
  have m: "?m \<le> int k * T" using Cons.prems(1,2,6) by (intro some_slot_free) simp
  have d: "0 \<le> d" "d \<le> T" using Cons.prems(3) by auto
  have t: "?m + d \<le> (int k + 1) * T" using m d by (simp add: algebra_simps)
  have mem: "?m \<in> set slots" using Cons.prems(1,2) by (intro Min_in) auto
  have len: "length ?slots = c" using Cons.prems(1) mem by (simp add: length_remove1) (cases slots; simp)
  have "c \<le> r + length (d # ds) + c - 1" by simp
  then have "1 \<le> (r + length (d # ds) + c - 1) div c"
    using Cons.prems(2) div_le_mono [of c _ c] by fastforce
  then have "(int k + 1) * T \<le> int ?bound * T" using Cons.prems(4) by (intro mult_right_mono) auto
  with t have first: "?m + d \<le> int ?bound * T" by simp
  have all: "\<forall>x \<in> set ?slots. x \<le> (int k + 1) * T"
    using t Cons.prems(5) set_remove1_subset [of ?m slots] by auto
  have "filter (\<lambda>x. x > int k * T) (remove1 ?m slots) = filter (\<lambda>x. x > int k * T) slots"
    using m by (simp add: filter_remove1 remove1_idem)
  then have cnt: "length (filter (\<lambda>x. x > int k * T) ?slots) \<le> Suc r" using Cons.prems(6) by simp
  have rest: "\<forall>t \<in> set (delivery_times ?slots ds). t \<le> int ?bound * T"
  proof (cases "Suc r < c")
    case True
    with Cons.IH [OF len True _ Cons.prems(4) all cnt] Cons.prems(3) show ?thesis by simp
  next
    case False
    then have c: "c = Suc r" using Cons.prems(2) by simp
    have "(int k + 1) * T \<le> (int (Suc k) + 1) * T" using Cons.prems(4) by (intro mult_right_mono) auto
    then have all': "\<forall>x \<in> set ?slots. x \<le> (int (Suc k) + 1) * T" using all by force
    have "filter (\<lambda>x. x > int (Suc k) * T) ?slots = []" using all by (auto simp: filter_empty_conv add.commute not_less)
    then have cnt': "length (filter (\<lambda>x. x > int (Suc k) * T) ?slots) \<le> 0" by simp
    have "?bound = Suc k + (0 + length ds + c - 1) div c"
    proof -
      define x where "x = length ds + c - 1"
      have e: "r + length (d # ds) + c - 1 = x + c" using c by (simp add: x_def)
      have "(x + c) div c = Suc (x div c)" using Cons.prems(2) by (simp add: div_add_self2)
      moreover have "0 + length ds + c - 1 = x" by (simp add: x_def)
      ultimately show ?thesis by (simp only: e add_Suc_right add_Suc)
    qed
    with Cons.IH [OF len _ _ Cons.prems(4) all' cnt'] Cons.prems(2,3) show ?thesis by simp
  qed
  show ?case using first rest by (auto simp: Let_def)
qed simp

lemma waves_exact:
  assumes "0 < BatchSize c" and "BatchSize c < 2 ^ 31" and "0 < Concurrency c" and "Concurrency c < 2 ^ 62"
  shows "waves c = (BatchSize c + Concurrency c - 1) div Concurrency c"
proof -
  let ?n = "BatchSize c + Concurrency c - 1"
  have n: "0 \<le> ?n" "?n < 2 ^ 63" using assms by auto
  have "?n div Concurrency c \<le> ?n" using zdiv_mono2 [of ?n 1 "Concurrency c"] n(1) assms(3) by simp
  moreover have "0 \<le> ?n div Concurrency c" using n assms(3) by (simp add: pos_imp_zdiv_nonneg_iff)
  moreover have "?n sdiv Concurrency c = ?n div Concurrency c"
    using n assms(3) by (simp add: signed_divide_int_def sgn_if)
  ultimately show ?thesis using n assms by (simp add: waves_def wrap64_id)
qed


lemma sample_Config_accepted: "outbox_withDefaults sample_Config = sample_Config" "outbox_validate sample_Config = None"
proof -
  show "outbox_withDefaults sample_Config = sample_Config"
    by (rule outbox_cfg.complete_defaults) (simp add: sample_Config_def duration_units)
  have "waves sample_Config = 3"
    by (subst waves_exact) (simp_all add: sample_Config_def)
  then have "needed sample_Config = 90 * second"
    unfolding needed_def by (simp add: sample_Config_def second_def wrap64_id)
  then show "outbox_validate sample_Config = None"
    by (simp add: outbox_validate_def sample_Config_def duration_units)
qed


text \<open>
  The check in \<^verbatim>\<open>validate\<close> is made on the configured lease, but the database is given
  whole seconds, rounded down: a configuration with a fraction of a second passes the check
  with a lease shorter than the batch needs (and one below a second gets no lease at all).
\<close>

lemma lease_rounded_below_need:
  "(\<exists>c. outbox_validate (outbox_withDefaults c) = None \<and>
      seconds_int32 (VisibilityTimeout (outbox_withDefaults c)) * second < needed (outbox_withDefaults c)) \<and>
   (\<exists>c. outbox_validate (outbox_withDefaults c) = None \<and>
      seconds_int32 (VisibilityTimeout (outbox_withDefaults c)) = 0)"
proof (intro conjI exI)
  let ?c = "sample_Config\<lparr>BatchSize := 1, SendTimeout := 1500000000, VisibilityTimeout := 1500000000\<rparr>"
  let ?d = "sample_Config\<lparr>BatchSize := 1, SendTimeout := 500000000, VisibilityTimeout := 500000000\<rparr>"
  show "outbox_validate (outbox_withDefaults ?c) = None"
    "seconds_int32 (VisibilityTimeout (outbox_withDefaults ?c)) * second < needed (outbox_withDefaults ?c)"
    "outbox_validate (outbox_withDefaults ?d) = None"
    "seconds_int32 (VisibilityTimeout (outbox_withDefaults ?d)) = 0"
    by (simp_all add: outbox_withDefaults_def sample_Config_def outbox_validate_def needed_def waves_def
        duration_units signed_divide_int_def wrap_def seconds_int32_def)
qed

end
