(* ===== verification/Outbox_Liveness.thy ===== *)
theory Outbox_Liveness
  imports Outbox_Worker
begin

text \<open>
  The outbox makes progress: while the database answers, every iteration of the worker takes as many of the due
  messages as a batch holds, and none of them is due again when the batch is over, whatever came of the deliveries.
  The progress of one batch is proved over the contract of the queue, strengthened by what a healthy queue promises.
\<close>

section \<open>Due messages\<close>

definition due_ids :: "(uuid \<Rightarrow> row option) \<Rightarrow> int \<Rightarrow> uuid set" where
  "due_ids rs now = {i. \<exists>r. rs i = Some r \<and> due now r}"

definition claimable :: "(uuid \<Rightarrow> row option) \<Rightarrow> int \<Rightarrow> bool" where
  "claimable rs now \<longleftrightarrow> (\<forall>i r. rs i = Some r \<longrightarrow> due now r \<longrightarrow> attempts r < 32767)"

text \<open>A second at least, and few enough for the whole seconds to be exact.\<close>

definition whole_second :: "duration \<Rightarrow> bool" where
  "whole_second d \<longleftrightarrow> second \<le> d \<and> exact_seconds d"

definition patient :: "outbox_Config \<Rightarrow> bool" where
  "patient c \<longleftrightarrow> 0 < BatchSize c \<and> whole_second (VisibilityTimeout c) \<and> whole_second (ConflictBackoff c) \<and>
     whole_second (BaseBackoff c) \<and> whole_second (MaxBackoff c)"

text \<open>The messages of a log of sends.\<close>

definition attempted :: "(Message \<times> goerr option) list \<Rightarrow> uuid list" where
  "attempted log = map (\<lambda>(m, _). ID m) log"

lemma attempted_simps [simp]:
  "attempted [] = []" "attempted (xs @ ys) = attempted xs @ attempted ys"
  "attempted (map (\<lambda>m. (m, f m)) ms) = map ID ms"
  by (simp_all add: attempted_def comp_def)

lemma whole_second_lease: "whole_second d \<Longrightarrow> 0 < interval (seconds_int32 d)"
  by (auto simp: whole_second_def seconds_int32_div interval_def second_def)

lemma backoff_loop_whole:
  assumes "whole_second mx" and "whole_second b"
  shows "whole_second (backoff_loop mx n b)"
  using assms(2)
proof (induction n arbitrary: b)
  case (Suc n)
  then have dbl: "wrap64 (b * 2) = b * 2"
    by (intro wrap64_id) (auto simp: whole_second_def exact_seconds_def second_def)
  have "whole_second (b * 2)" if "b * 2 < mx"
    using that Suc.prems assms(1) by (auto simp: whole_second_def exact_seconds_def second_def)
  with dbl Suc.IH assms(1) show ?case by (simp add: Let_def not_le)
qed simp

lemma backoff_whole: "patient c \<Longrightarrow> whole_second (backoffFor c n)"
  by (simp add: patient_def backoffFor_def backoff_loop_whole)

text \<open>However a delivery ends, and whether or not the queue could be told, the message is not due at once.\<close>

lemma fate_not_due:
  assumes "patient c" and "due now r" and "k = claim_row now (seconds_int32 (VisibilityTimeout c)) r"
    and "x = Some k \<or> x = fate_row c a m now (Some k)"
  shows "\<not> (\<exists>r'. x = Some r' \<and> due now r')"
proof -
  have "0 < interval (seconds_int32 (VisibilityTimeout c))" "0 < interval (seconds_int32 (ConflictBackoff c))"
    "0 < interval (seconds_int32 (backoffFor c (Attempts m)))"
    using assms(1) backoff_whole by (auto simp: patient_def whole_second_lease)
  with assms(2-4) show ?thesis
    by (auto simp: fate_row_def due_def claim_row_def defer_row_def retry_row_def fail_row_def
      split: fate.splits if_splits)
qed

section \<open>A healthy queue\<close>

definition undisturbed :: "'q iteration \<Rightarrow> bool" where
  "undisturbed it \<longleftrightarrow> outside it = id"

locale reliable_queue = counted_queue +
  fixes healthy :: "'a \<Rightarrow> bool"
  assumes healthy_ok: "healthy s \<Longrightarrow> ok s"
    and finite_due: "healthy s \<Longrightarrow> finite (due_ids (rows s) (time s))"
    and healthy_claim: "healthy s \<Longrightarrow> 0 \<le> n \<Longrightarrow> claimable (rows s) (time s) \<Longrightarrow>
      \<exists>ms s'. Claim q n v s = (Inr ms, s') \<and> healthy s' \<and> length ms = min (nat n) (card (due_ids (rows s) (time s)))"
    and healthy_update: "healthy s \<Longrightarrow> healthy (snd (Complete q i s)) \<and> healthy (snd (Retry q i d reason s)) \<and>
      healthy (snd (Defer q i d s)) \<and> healthy (snd (Fail q i reason s))"
    and healthy_upkeep: "healthy s \<Longrightarrow> healthy (snd (DeleteOldFailed q d s)) \<and> healthy (snd (CountPending cnt s)) \<and>
      healthy (snd (CountFailed cnt s))"
begin

abbreviation due_now :: "'a \<Rightarrow> uuid set" where
  "due_now s \<equiv> due_ids (rows s) (time s)"

lemma deliver_all_healthy: "healthy (qstate w) \<Longrightarrow> queue wk = q \<Longrightarrow> healthy (qstate (deliver_all wk a ms w))"
proof (induction ms arbitrary: w)
  case (Cons m ms)
  then have "healthy (qstate (deliver wk (a m) m w))"
    using healthy_update [of "qstate w"] by (auto simp: deliver_queue_call split: fate.split)
  then show ?case using Cons by (simp add: deliver_all_def)
qed (simp add: deliver_all_def)

lemma after_batch_healthy:
  assumes "healthy (qstate w)" and "worker_on wk"
  shows "healthy (qstate (after_batch wk it w))"
proof -
  have "qstate (cleanupFailed wk w) = snd (DeleteOldFailed q (FailedRetention (cfg wk)) (qstate w))"
    using assms(2) by (auto simp: cleanupFailed_def worker_on_def call_queue_def split: prod.splits sum.splits)
  then have clean: "healthy (qstate (cleanupFailed wk w))" using healthy_upkeep [OF assms(1)] by simp
  have "healthy (qstate (observeDepth wk v))" if "healthy (qstate v)" for v
  proof -
    note h1 = healthy_upkeep [OF that]
    then have h2: "healthy (snd (CountFailed cnt (snd (CountPending cnt (qstate v)))))" using healthy_upkeep by blast
    show ?thesis
      using that h1 h2 assms(2)
      by (auto simp: observeDepth_def worker_on_def call_queue_def split: option.splits prod.splits sum.splits)
  qed
  with clean assms(1) show ?thesis by (simp add: after_batch_def)
qed

text \<open>One batch: it takes as many due messages as it can, attempts each once, and leaves none of them due.\<close>

lemma batch_progress:
  assumes h: "healthy (qstate w)" and on: "worker_on wk" and perm: "\<And>ms. mset (order ms) = mset ms"
    and pat: "patient (cfg wk)" and room: "claimable (rows (qstate w)) (time (qstate w))"
  obtains n w' ids new where "processBatch wk a order w = (Inr n, w')" and "healthy (qstate w')"
    and "time (qstate w') = time (qstate w)" and "ids \<subseteq> due_now (qstate w)"
    and "n = card ids" and "card ids = min (nat (BatchSize (cfg wk))) (card (due_now (qstate w)))"
    and "\<forall>i \<in> ids. i \<notin> due_now (qstate w')" and "\<forall>i. i \<notin> ids \<longrightarrow> rows (qstate w') i = rows (qstate w) i"
    and "sends w' = sends w @ new" and "distinct (attempted new)" and "set (attempted new) = ids"
proof -
  have q: "queue wk = q" using on by (simp add: worker_on_def)
  have "0 \<le> BatchSize (cfg wk)" using pat by (simp add: patient_def)
  from healthy_claim [OF h this room, of "VisibilityTimeout (cfg wk)"] obtain ms1 s1 where
    c: "Claim q (BatchSize (cfg wk)) (VisibilityTimeout (cfg wk)) (qstate w) = (Inr ms1, s1)" "healthy s1"
    and len: "length ms1 = min (nat (BatchSize (cfg wk))) (card (due_now (qstate w)))" by blast
  define w' where "w' = (if ms1 = [] then w\<lparr>qstate := s1\<rparr> else deliver_all wk a (order ms1) (w\<lparr>qstate := s1\<rparr>))"
  have run: "processBatch wk a order w = (Inr (length ms1), w')"
    using c q by (simp add: processBatch_def call_queue_def w'_def)
  have h': "healthy (qstate w')" using c(2) q deliver_all_healthy [of "w\<lparr>qstate := s1\<rparr>" wk] by (auto simp: w'_def)
  from batch_rows [OF healthy_ok [OF h] q perm run] obtain ms where
    n: "length ms = length ms1" and dist: "distinct (map ID ms)" and st: "step_ok (qstate w) (qstate w')"
    and sd: "sends w' = sends w @ map (\<lambda>m. (m, send_result (a m))) (order ms)"
    and own: "\<forall>m \<in> set ms. \<exists>r c. rows (qstate w) (ID m) = Some r \<and> due (time (qstate w)) r \<and>
       c = claim_row (time (qstate w)) (seconds_int32 (VisibilityTimeout (cfg wk))) r \<and> m = message_of c \<and>
       (rows (qstate w') (ID m) = Some c \<or>
        rows (qstate w') (ID m) = fate_row (cfg wk) (a m) m (time (qstate w)) (Some c))"
    and oth: "\<forall>i. i \<notin> ID ` set ms \<longrightarrow> rows (qstate w') i = rows (qstate w) i" .
  have t: "time (qstate w') = time (qstate w)" using st by (simp add: step_ok_def)
  have gone: "i \<notin> due_now (qstate w')" if "i \<in> ID ` set ms" for i
    using that own fate_not_due [OF pat] unfolding due_ids_def t by blast
  have card: "card (ID ` set ms) = length ms" using distinct_card [OF dist] by simp
  have ids: "set (order ms) = set ms" using perm [of ms] by (metis set_mset_mset)
  have "distinct (map ID (order ms))" using dist perm [of ms] by (metis mset_eq_imp_distinct_iff mset_map)
  then show thesis
    by (intro that [OF run h' t, of "ID ` set ms" "map (\<lambda>m. (m, send_result (a m))) (order ms)"])
       (use own gone oth card len n sd ids in \<open>auto simp: due_ids_def\<close>)
qed

text \<open>What is due after a step was due before, and has not changed.\<close>

definition stays_due :: "'a \<Rightarrow> 'a \<Rightarrow> bool" where
  "stays_due s s' \<longleftrightarrow>
     (\<forall>i r. rows s' i = Some r \<longrightarrow> due (time s') r \<longrightarrow> rows s i = Some r \<and> due (time s) r)"

text \<open>
  Between two iterations others may take messages, add messages that are not due yet and let time pass, as long as
  nothing becomes due.
\<close>

definition settled :: "'a iteration \<Rightarrow> bool" where
  "settled it \<longleftrightarrow> (\<forall>ms. mset (call_order it ms) = mset ms) \<and>
     (\<forall>s. healthy s \<longrightarrow> healthy (outside it s) \<and> stays_due s (outside it s))"

lemma stays_due_trans: "stays_due s t \<Longrightarrow> stays_due t u \<Longrightarrow> stays_due s u"
  unfolding stays_due_def by blast

lemma stays_dueD:
  assumes "stays_due s s'"
  shows "due_now s' \<subseteq> due_now s" and "claimable (rows s) (time s) \<Longrightarrow> claimable (rows s') (time s')"
  using assms by (auto simp: stays_due_def due_ids_def claimable_def)

lemma after_batch_due:
  assumes "healthy (qstate w)" and "worker_on wk"
  shows "stays_due (qstate w) (qstate (after_batch wk it w))" and "due_now (qstate (after_batch wk it w)) = due_now (qstate w)"
proof -
  note rows = after_batch_rows [OF healthy_ok [OF assms(1)] assms(2), where it = it]
  have t: "time (qstate (after_batch wk it w)) = time (qstate w)" using rows(1) by (simp add: step_ok_def)
  have keep: "rows (qstate w) i = Some r \<Longrightarrow> due now r \<Longrightarrow> rows (qstate (after_batch wk it w)) i = Some r" for i r now
    using rows(3) [of i] by (auto simp: due_def expired_def)
  have was: "rows (qstate (after_batch wk it w)) i = Some r \<Longrightarrow> rows (qstate w) i = Some r" for i r
    using rows(3) [of i] by auto
  show "stays_due (qstate w) (qstate (after_batch wk it w))" using was by (simp add: stays_due_def t)
  show "due_now (qstate (after_batch wk it w)) = due_now (qstate w)" unfolding due_ids_def t using keep was by blast
qed

text \<open>What a part of the run has done to the backlog, in numbers and in messages.\<close>

definition drains :: "'a Worker \<Rightarrow> nat \<Rightarrow> bool \<Rightarrow> 'a world \<Rightarrow> 'a world \<Rightarrow> bool" where
  "drains wk k alone w w' \<longleftrightarrow> healthy (qstate w') \<and> stays_due (qstate w) (qstate w') \<and>
     card (due_now (qstate w')) \<le> card (due_now (qstate w)) - k * nat (BatchSize (cfg wk)) \<and>
     (\<exists>new. sends w' = sends w @ new \<and> distinct (attempted new) \<and>
        set (attempted new) \<subseteq> due_now (qstate w) - due_now (qstate w') \<and>
        (alone \<longrightarrow> set (attempted new) = due_now (qstate w) - due_now (qstate w')))"

lemma iterate_drains:
  assumes h: "healthy (qstate w)" and on: "worker_on wk" and it: "settled it" and pat: "patient (cfg wk)"
    and room: "claimable (rows (qstate w)) (time (qstate w))" and run: "iterate wk it w = (stop, w')"
  shows "drains wk 1 (undisturbed it) w w' \<and> (stop \<longrightarrow> due_now (qstate w') = {})"
proof -
  define v where "v = w\<lparr>qstate := outside it (qstate w)\<rparr>"
  let ?s = "qstate v"
  have v: "qstate v = outside it (qstate w)" "sends v = sends w" by (simp_all add: v_def)
  have hs: "healthy ?s" and sd: "stays_due (qstate w) ?s"
    using it h unfolding settled_def v by blast+
  have perm: "\<And>ms. mset (call_order it ms) = mset ms" using it by (simp add: settled_def)
  obtain n w1 ids new where b: "processBatch wk (attempt_of it) (call_order it) v = (Inr n, w1)" "healthy (qstate w1)"
    and t: "time (qstate w1) = time ?s" and ids: "ids \<subseteq> due_now ?s" "n = card ids"
    and n: "card ids = min (nat (BatchSize (cfg wk))) (card (due_now ?s))"
    and gone: "\<forall>i \<in> ids. i \<notin> due_now (qstate w1)" and oth: "\<forall>i. i \<notin> ids \<longrightarrow> rows (qstate w1) i = rows ?s i"
    and new: "sends w1 = sends v @ new" "distinct (attempted new)" "set (attempted new) = ids"
    by (rule batch_progress [OF hs on perm pat stays_dueD(2) [OF sd room]])
  have due1: "due_now (qstate w1) = due_now ?s - ids" using gone oth by (auto simp: due_ids_def t)
  have sd1: "stays_due ?s (qstate w1)"
    unfolding stays_due_def
  proof (intro allI impI)
    fix i r assume "rows (qstate w1) i = Some r" "due (time (qstate w1)) r"
    then have "i \<notin> ids" using gone by (auto simp: due_ids_def)
    with oth \<open>rows (qstate w1) i = Some r\<close> \<open>due _ r\<close> show "rows ?s i = Some r \<and> due (time ?s) r" by (simp add: t)
  qed
  have w': "w' = after_batch wk it w1" and stop: "stop \<Longrightarrow> int n < BatchSize (cfg wk)"
    using run b(1) by (auto simp: iterate_def v_def)
  note ab = after_batch_due [OF b(2) on, of it, folded w']
  have due': "due_now (qstate w') = due_now ?s - ids" using ab(2) due1 by simp
  have fin: "finite (due_now ?s)" "finite (due_now (qstate w))" using finite_due hs h by auto
  have sub: "due_now ?s \<subseteq> due_now (qstate w)" using stays_dueD(1) [OF sd] .
  have card': "card (due_now (qstate w')) = card (due_now ?s) - card ids"
    unfolding due' using ids(1) fin(1) by (meson card_Diff_subset finite_subset)
  have "card (due_now ?s) \<le> card (due_now (qstate w))" using sub fin(2) by (rule card_mono [rotated])
  then have count: "card (due_now (qstate w')) \<le> card (due_now (qstate w)) - 1 * nat (BatchSize (cfg wk))"
    using card' n by linarith
  have "sends w' = sends w @ new"
    using after_batch_rows(2) [OF healthy_ok [OF b(2)] on] new(1) v(2) by (simp add: w')
  moreover have "healthy (qstate w')" unfolding w' using b(2) on by (rule after_batch_healthy)
  moreover have "stays_due (qstate w) (qstate w')" using sd sd1 ab(1) stays_due_trans by blast
  moreover have "ids \<subseteq> due_now (qstate w) - due_now (qstate w')" using ids(1) sub due' by blast
  moreover have "ids = due_now (qstate w) - due_now (qstate w')" if "undisturbed it" using ids(1) due' that by (auto simp: undisturbed_def v_def)
  ultimately have "drains wk 1 (undisturbed it) w w'" using count new(2,3) unfolding drains_def by blast
  moreover have "due_now (qstate w') = {}" if stop
  proof -
    have "card ids = card (due_now ?s)" using stop [OF that] n ids(2) by linarith
    then show ?thesis unfolding due' using ids(1) fin(1) card_subset_eq by blast
  qed
  ultimately show ?thesis by blast
qed

lemma drains_trans:
  assumes "drains wk k b w v" and "drains wk l c v u"
  shows "drains wk (k + l) (b \<and> c) w u"
proof -
  obtain new1 where n1: "sends v = sends w @ new1" "distinct (attempted new1)"
    "set (attempted new1) \<subseteq> due_now (qstate w) - due_now (qstate v)"
    "b \<longrightarrow> set (attempted new1) = due_now (qstate w) - due_now (qstate v)"
    using assms(1) unfolding drains_def by blast
  obtain new2 where n2: "sends u = sends v @ new2" "distinct (attempted new2)"
    "set (attempted new2) \<subseteq> due_now (qstate v) - due_now (qstate u)"
    "c \<longrightarrow> set (attempted new2) = due_now (qstate v) - due_now (qstate u)"
    using assms(2) unfolding drains_def by blast
  have sub: "due_now (qstate v) \<subseteq> due_now (qstate w)" "due_now (qstate u) \<subseteq> due_now (qstate v)"
    using assms stays_dueD(1) by (auto simp: drains_def)
  have "sends u = sends w @ (new1 @ new2)" using n1(1) n2(1) by simp
  moreover have "distinct (attempted (new1 @ new2))" using n1(2,3) n2(2,3) by auto
  moreover have "set (attempted (new1 @ new2)) \<subseteq> due_now (qstate w) - due_now (qstate u)"
    using n1(3) n2(3) sub by auto
  moreover have "set (attempted (new1 @ new2)) = due_now (qstate w) - due_now (qstate u)" if "b \<and> c"
    unfolding attempted_simps set_append using that n1(4) n2(4) sub by blast
  moreover have "card (due_now (qstate u)) \<le> card (due_now (qstate w)) - (k + l) * nat (BatchSize (cfg wk))"
    using assms by (auto simp: drains_def add_mult_distrib)
  moreover have "stays_due (qstate w) (qstate u)" "healthy (qstate u)"
    using assms stays_due_trans by (auto simp: drains_def)
  ultimately show ?thesis unfolding drains_def by blast
qed

lemma run_drains:
  assumes "healthy (qstate w)" and "worker_on wk" and "\<forall>it \<in> set its. settled it" and "patient (cfg wk)"
    and "claimable (rows (qstate w)) (time (qstate w))" and "Run wk its w = (stop, w')"
  shows "\<exists>k \<le> length its. drains wk k (\<forall>it \<in> set its. undisturbed it) w w' \<and>
    (k = length its \<or> due_now (qstate w') = {})"
  using assms
proof (induction its arbitrary: w)
  case Nil
  have "drains wk 0 True w w" using Nil by (simp add: drains_def stays_due_def)
  with Nil show ?case by simp
next
  case (Cons it its)
  obtain st w1 where it: "iterate wk it w = (st, w1)" by fastforce
  note d = iterate_drains [OF Cons.prems(1,2) _ Cons.prems(4,5) it]
  have d1: "drains wk 1 (undisturbed it) w w1" "st \<Longrightarrow> due_now (qstate w1) = {}" using d Cons.prems(3) by auto
  show ?case
  proof (cases st)
    case True
    then have "w' = w1" using Cons.prems(6) it by simp
    moreover have "drains wk 1 (\<forall>x \<in> set (it # its). undisturbed x) w w1" using d1(1) by (auto simp: drains_def)
    ultimately show ?thesis using d1(2) True by (intro exI [of _ 1]) auto
  next
    case False
    have run: "Run wk its w1 = (stop, w')" using Cons.prems(6) it False by simp
    have h1: "healthy (qstate w1)" and sd: "stays_due (qstate w) (qstate w1)" using d1(1) by (auto simp: drains_def)
    have "claimable (rows (qstate w1)) (time (qstate w1))" using stays_dueD(2) [OF sd Cons.prems(5)] .
    then obtain k where k: "k \<le> length its" "drains wk k (\<forall>x \<in> set its. undisturbed x) w1 w'"
        "k = length its \<or> due_now (qstate w') = {}"
      using Cons.IH [OF h1 Cons.prems(2) _ Cons.prems(4) _ run] Cons.prems(3) by auto
    have "drains wk (1 + k) (undisturbed it \<and> (\<forall>x \<in> set its. undisturbed x)) w w'"
      using d1(1) k(2) by (rule drains_trans)
    then show ?thesis using k by (intro exI [of _ "1 + k"]) auto
  qed
qed

end

section \<open>The repository is reliable\<close>

text \<open>A database that answers, outside a transaction, with no row locked by another session.\<close>

definition pg_healthy :: "pg \<Rightarrow> bool" where
  "pg_healthy s \<longleftrightarrow> db_ok s \<and> faults s = [] \<and> working s = None \<and> locks s = []"

lemma healthy_run_sql:
  assumes "pg_healthy s" and "keeps_ok stmt"
  shows "pg_healthy (snd (run_sql stmt s))"
proof -
  obtain res s' where run: "run_sql stmt s = (res, s')" by fastforce
  have "faults s' = []" "working s' = None" "locks s' = []"
    using run assms(1)
    by (auto simp: pg_healthy_def run_sql_def Let_def sql_error_def store_def in_tx_def next_fault_def split: sum.splits if_splits)
  with run_sql_ok [OF run _ assms(2)] assms(1) run show ?thesis by (simp add: pg_healthy_def)
qed

lemma due_ids_lookup: "due_ids (lookup t) now = row_id ` set (filter (due now) t)" if "distinct (map row_id t)"
  using lookup_member [OF that] lookup_SomeD by (force simp: due_ids_def image_iff)

lemma claim_ids_free:
  assumes "table_ok t"
  shows "length (claim_ids now n [] t) = min (nat n) (card (due_ids (lookup t) now))"
proof -
  have d: "distinct (map row_id t)" using assms by (simp add: table_ok_def)
  then have "distinct (map row_id (filter (due now) t))" by (rule distinct_map_filter)
  then have "card (due_ids (lookup t) now) = length (filter (due now) t)"
    unfolding due_ids_lookup [OF d] by (metis distinct_card length_map list.set_map)
  then show ?thesis by (simp add: claim_ids_def)
qed

lemma claim_succeeds:
  assumes h: "pg_healthy s" and n: "0 \<le> n" and room: "claimable (repo_rows s) (clock s)"
  shows "\<exists>ms s'. repo_Claim n v s = (Inr ms, s') \<and> pg_healthy s' \<and>
    length ms = min (nat n) (card (due_ids (repo_rows s) (clock s)))"
proof -
  let ?stmt = "sql_claim (seconds_int32 v) n (locks s)"
  have ok: "table_ok (visible s)" using h by (simp add: pg_healthy_def db_ok_def)
  have fits: "smallint (attempts r + 1)" if "r \<in> set (visible s)" "row_id r \<in> set (claim_ids (clock s) n (locks s) (visible s))" for r
  proof -
    have "due (clock s) r" using claim_ids_due [OF ok that] by blast
    moreover have "repo_rows s (row_id r) = Some r"
      using ok that(1) by (simp add: repo_rows_def table_ok_def lookup_member)
    moreover have "0 \<le> attempts r" using ok that(1) by (simp add: table_ok_def row_ok_def)
    moreover from calculation have "attempts r < 32767" using room unfolding claimable_def by blast
    ultimately show ?thesis by (simp add: smallint_def)
  qed
  then obtain t ms where t: "?stmt (clock s) (visible s) = Inr (t, ms)" using n by (auto simp: sql_claim_def Let_def)
  have "run_sql ?stmt s = (Inr ms, store t (s\<lparr>faults := tl (faults s)\<rparr>))"
    using h t by (simp add: run_sql_def Let_def next_fault_def in_tx_def pg_healthy_def)
  moreover from healthy_run_sql [OF h keeps_ok_claim] this have "pg_healthy (store t (s\<lparr>faults := tl (faults s)\<rparr>))" by (metis snd_conv)
  moreover have "length ms = min (nat n) (card (due_ids (repo_rows s) (clock s)))"
    using claim_messages_length(1) [OF ok t] claim_ids_free [OF ok] h by (simp add: pg_healthy_def repo_rows_def)
  ultimately show ?thesis by (simp add: repo_Claim_def Let_def wrap_db_def)
qed

interpretation repo_reliable: reliable_queue Repository repo_rows clock db_ok Repository_Counter pg_healthy
proof unfold_locales
  show "db_ok s" if "pg_healthy s" for s using that by (simp add: pg_healthy_def)
  show "finite (due_ids (repo_rows s) (clock s))" if "pg_healthy s" for s
  proof -
    have "distinct (map row_id (visible s))" using that by (simp add: pg_healthy_def db_ok_def table_ok_def)
    then show ?thesis by (simp add: repo_rows_def due_ids_lookup)
  qed
  show "\<exists>ms s'. Claim Repository n v s = (Inr ms, s') \<and> pg_healthy s' \<and>
      length ms = min (nat n) (card (due_ids (repo_rows s) (clock s)))"
    if "pg_healthy s" "0 \<le> n" "claimable (repo_rows s) (clock s)" for s n v
    using claim_succeeds [OF that] by (simp add: Repository_def)
qed (simp_all add: Repository_def Repository_Counter_def repo_defs healthy_run_sql keeps_ok_others)

section \<open>Properties\<close>

text \<open>
  The surroundings of a run that catches up: between two iterations other sessions may claim, finish or delay messages, add
  messages for later and let time pass, as long as nothing becomes due.
\<close>

definition nothing_becomes_due :: "pg iteration \<Rightarrow> bool" where
  "nothing_becomes_due it \<longleftrightarrow> (\<forall>ms. mset (call_order it ms) = mset ms) \<and>
     (\<forall>s. pg_healthy s \<longrightarrow> pg_healthy (outside it s) \<and>
        (\<forall>i r. repo_rows (outside it s) i = Some r \<longrightarrow> due (clock (outside it s)) r \<longrightarrow>
           repo_rows s i = Some r \<and> due (clock s) r))"

lemma settled_iff: "repo_reliable.settled = nothing_becomes_due"
  by (simp add: fun_eq_iff nothing_becomes_due_def repo_reliable.settled_def repo_reliable.stays_due_def)


definition two_due :: "pg world" where
  "two_due = sample_world [sample_row 1 0 50, sample_row 2 3 10]"


end
