(* ===== verification/Outbox_Accounting.thy ===== *)
theory Outbox_Accounting
  imports Outbox_Liveness
begin

text \<open>
  The metrics of the outbox worker tell what it did: the counter of a kind of message and a result goes up by the number
  of deliveries of that kind that ended so, over runs of any length.
\<close>

section \<open>A log of deliveries and what it adds up to\<close>

definition fate_count :: "string \<Rightarrow> string \<Rightarrow> (Message \<times> attempt) list \<Rightarrow> nat" where
  "fate_count knd res log = length (filter (\<lambda>(m, a). Kind m = knd \<and> fate_metric (fate_of a m) = Some res) log)"

lemma fate_count_simps [simp]:
  "fate_count knd res [] = 0"
  "fate_count knd res (xs @ ys) = fate_count knd res xs + fate_count knd res ys"
  "fate_count knd res ((m, a) # xs) =
     (if Kind m = knd \<and> fate_metric (fate_of a m) = Some res then 1 else 0) + fate_count knd res xs"
  by (simp_all add: fate_count_def)

definition counted :: "(Message \<times> attempt) list \<Rightarrow> 'q world \<Rightarrow> 'q world \<Rightarrow> bool" where
  "counted log w w' \<longleftrightarrow> sends w' = sends w @ map (\<lambda>(m, a). (m, send_result a)) log \<and>
     (case metrics w of
        None \<Rightarrow> metrics w' = None
      | Some mt \<Rightarrow> \<exists>mt'. metrics w' = Some mt' \<and>
          (\<forall>knd res. messages_total mt' (knd, res) = messages_total mt (knd, res) + fate_count knd res log))"

lemma counted_Nil: "sends w' = sends w \<Longrightarrow> metrics w' = metrics w \<Longrightarrow> counted [] w w'"
  by (simp add: counted_def split: option.split)

lemma counted_trans: "counted xs w v \<Longrightarrow> counted ys v u \<Longrightarrow> counted (xs @ ys) w u"
  by (auto simp: counted_def split: option.splits)

text \<open>The gauges have no part in it.\<close>

lemma counted_gauges:
  assumes "counted log w v" and "sends u = sends v"
    and "map_option messages_total (metrics u) = map_option messages_total (metrics v)"
  shows "counted log w u"
  using assms by (auto simp: counted_def split: option.splits)

lemma after_batch_counts:
  "sends (after_batch wk it w) = sends w \<and>
   map_option messages_total (metrics (after_batch wk it w)) = map_option messages_total (metrics w)"
proof -
  have clean: "sends (cleanupFailed wk v) = sends v \<and> metrics (cleanupFailed wk v) = metrics v" for v
    by (auto simp: cleanupFailed_def dest!: call_queueD split: prod.splits sum.splits)
  have "sends (observeDepth wk v) = sends v \<and>
      map_option messages_total (metrics (observeDepth wk v)) = map_option messages_total (metrics v)" for v
    by (auto simp: observeDepth_def depth_def option.map_comp comp_def dest!: call_queueD
      split: option.splits prod.splits sum.splits)
  with clean show ?thesis by (simp add: after_batch_def)
qed

section \<open>Counting over the queue's contract\<close>

locale accountable_queue = reliable_queue +
  assumes healthy_complete: "healthy s \<Longrightarrow> \<exists>x. fst (Complete q i s) = Inr x"
    and healthy_after_claim: "healthy s \<Longrightarrow> healthy (snd (Claim q n v s))"
begin

lemma deliver_counted:
  assumes "healthy (qstate w)" and "queue wk = q"
  shows "counted [(m, a)] w (deliver wk a m w)"
proof -
  obtain x where "fst (Complete q (ID m) (qstate w)) = Inr x" using healthy_complete [OF assms(1)] by blast
  then have "metrics (deliver wk a m w) =
      (case fate_metric (fate_of a m) of None \<Rightarrow> metrics w | Some res \<Rightarrow> observe (Kind m) res (metrics w))"
    by (simp add: deliver_metric assms(2))
  then show ?thesis
    by (auto simp: counted_def deliver_sends observe_def split: option.split)
qed

lemma deliver_all_counted:
  "healthy (qstate w) \<Longrightarrow> queue wk = q \<Longrightarrow> counted (map (\<lambda>m. (m, a m)) ms) w (deliver_all wk a ms w)"
proof (induction ms arbitrary: w)
  case Nil
  then show ?case by (simp add: deliver_all_def counted_Nil)
next
  case (Cons m ms)
  let ?w1 = "deliver wk (a m) m w"
  have all: "deliver_all wk a (m # ms) w = deliver_all wk a ms ?w1" "deliver_all wk a [m] w = ?w1"
    by (simp_all add: deliver_all_def)
  have "healthy (qstate ?w1)" using deliver_all_healthy [OF Cons.prems, of a "[m]"] by (simp add: all)
  then have "counted (map (\<lambda>m. (m, a m)) ms) ?w1 (deliver_all wk a ms ?w1)" using Cons.IH Cons.prems(2) by blast
  from counted_trans [OF deliver_counted [OF Cons.prems] this] show ?case by (simp add: all)
qed

lemma batch_counted:
  assumes "healthy (qstate w)" and "queue wk = q" and "processBatch wk a order w = (res, w')"
  shows "healthy (qstate w') \<and> (\<exists>log. counted log w w' \<and> (\<forall>(m, x) \<in> set log. x = a m))"
proof -
  obtain r w1 where call: "call_queue (Claim q (BatchSize (cfg wk)) (VisibilityTimeout (cfg wk))) w = (r, w1)" by fastforce
  note c = call_queueD [OF call]
  have h1: "healthy (qstate w1)" using healthy_after_claim [OF assms(1)] c by (metis snd_conv)
  have c1: "counted [] w w1" using c by (simp add: counted_Nil)
  show ?thesis
  proof (cases "\<exists>ms. r = Inr ms \<and> ms \<noteq> []")
    case True
    then obtain ms where ms: "r = Inr ms" "ms \<noteq> []" by blast
    then have "w' = deliver_all wk a (order ms) w1" using assms(2,3) call by (simp add: processBatch_def)
    moreover have "counted (map (\<lambda>m. (m, a m)) (order ms)) w (deliver_all wk a (order ms) w1)"
      using counted_trans [OF c1 deliver_all_counted [OF h1 assms(2)]] by simp
    ultimately show ?thesis
      using deliver_all_healthy [OF h1 assms(2)] by (intro conjI exI [of _ "map (\<lambda>m. (m, a m)) (order ms)"]) auto
  next
    case False
    then have "w' = w1" using assms(2,3) call by (auto simp: processBatch_def split: sum.splits if_splits)
    then show ?thesis using h1 c1 by (intro conjI exI [of _ "[]"]) auto
  qed
qed

definition keeps_healthy :: "'a iteration \<Rightarrow> bool" where
  "keeps_healthy it \<longleftrightarrow> (\<forall>s. healthy s \<longrightarrow> healthy (outside it s))"

lemma iterate_counted:
  assumes "healthy (qstate w)" and "worker_on wk" and "keeps_healthy it" and "iterate wk it w = (stop, w')"
  shows "healthy (qstate w') \<and> (\<exists>log. counted log w w' \<and> (\<forall>(m, x) \<in> set log. x = attempt_of it m))"
proof -
  let ?v = "w\<lparr>qstate := outside it (qstate w)\<rparr>"
  have q: "queue wk = q" using assms(2) by (simp add: worker_on_def)
  have hv: "healthy (qstate ?v)" using assms(1,3) by (simp add: keeps_healthy_def)
  obtain r w1 where b: "processBatch wk (attempt_of it) (call_order it) ?v = (r, w1)" by fastforce
  from batch_counted [OF hv q b] obtain log where h1: "healthy (qstate w1)" and l: "counted log ?v w1"
    and from_it: "\<forall>(m, x) \<in> set log. x = attempt_of it m" by blast
  have l': "counted log w w1" using l by (simp add: counted_def)
  let ?w2 = "case r of Inl e \<Rightarrow> log_at LevelError ''outbox batch failed'' w1 | Inr n \<Rightarrow> w1"
  have w2: "qstate ?w2 = qstate w1" "sends ?w2 = sends w1" "metrics ?w2 = metrics w1" by (cases r; simp)+
  then have c2: "counted log w ?w2" using counted_gauges [OF l'] by simp
  have "w' = w1 \<or> w' = after_batch wk it ?w2"
    using assms(4) b by (cases r) (auto simp: iterate_def split: if_splits)
  then show ?thesis
  proof
    assume "w' = w1"
    with h1 l' from_it show ?thesis by blast
  next
    assume w': "w' = after_batch wk it ?w2"
    have "healthy (qstate w')" unfolding w' using h1 w2(1) assms(2) by (intro after_batch_healthy) auto
    moreover have "counted log w w'" unfolding w' using c2 after_batch_counts by (blast intro: counted_gauges)
    ultimately show ?thesis using from_it by blast
  qed
qed

lemma run_counted:
  assumes "healthy (qstate w)" and "worker_on wk" and "\<forall>it \<in> set its. keeps_healthy it" and "Run wk its w = (stop, w')"
  shows "\<exists>log. counted log w w' \<and> (\<forall>(m, x) \<in> set log. \<exists>it \<in> set its. x = attempt_of it m)"
  using assms
proof (induction its arbitrary: w)
  case Nil
  then show ?case using counted_Nil [of w w] by (intro exI [of _ "[]"]) auto
next
  case (Cons it its)
  obtain st w1 where it: "iterate wk it w = (st, w1)" by fastforce
  from iterate_counted [OF Cons.prems(1,2) _ it] Cons.prems(3) obtain log where
    h1: "healthy (qstate w1)" and l: "counted log w w1" and from_it: "\<forall>(m, x) \<in> set log. x = attempt_of it m" by auto
  show ?case
  proof (cases st)
    case True
    then have "w' = w1" using Cons.prems(4) it by simp
    with l from_it show ?thesis by (intro exI [of _ log]) auto
  next
    case False
    then have "Run wk its w1 = (stop, w')" using Cons.prems(4) it by simp
    with Cons.IH [OF h1 Cons.prems(2)] Cons.prems(3) obtain log' where
      l': "counted log' w1 w'" and rest: "\<forall>(m, x) \<in> set log'. \<exists>it \<in> set its. x = attempt_of it m" by auto
    show ?thesis by (rule exI [of _ "log @ log'"]) (use counted_trans [OF l l'] from_it rest in fastforce)
  qed
qed

end

section \<open>The repository\<close>

lemma repo_complete_succeeds: "pg_healthy s \<Longrightarrow> fst (repo_Complete i s) = Inr ()"
  by (simp add: repo_Complete_def run_sql_def sql_complete_def wrap_db_def pg_healthy_def next_fault_def in_tx_def Let_def)

interpretation repo_counts: accountable_queue Repository repo_rows clock db_ok Repository_Counter pg_healthy
proof unfold_locales
  show "\<exists>x. fst (Complete Repository i s) = Inr x" if "pg_healthy s" for s i
    using repo_complete_succeeds [OF that] by (simp add: Repository_def)
  show "pg_healthy (snd (Claim Repository n v s))" if "pg_healthy s" for s n v
    using healthy_run_sql [OF that keeps_ok_claim] by (simp add: Repository_def repo_Claim_def Let_def)
qed

text \<open>
  C18. The counters of the worker are exact: over a run of any length against a database that answers, whatever the sender
  returns, in whatever order the deliveries run, whatever other sessions do and with clean-up ticks in between, the counter of a kind
  and a result goes up by exactly the number of the run's deliveries of messages of that kind that ended with that
  result: sent, retried, deferred, or failed, be it rejected or given up. A delivery that was interrupted is not counted.
\<close>

theorem deliveries_are_counted:
  assumes "pg_healthy (qstate w)" and "queue wk = Repository" and "counter wk \<in> {None, Some Repository_Counter}"
    and "\<forall>it \<in> set its. \<forall>s. pg_healthy s \<longrightarrow> pg_healthy (outside it s)"
    and "metrics w = Some mt" and "Run wk its w = (stopped, w')"
  shows "\<exists>log mt'. sends w' = sends w @ map (\<lambda>(m, a). (m, send_result a)) log \<and> metrics w' = Some mt' \<and>
    (\<forall>(m, a) \<in> set log. \<exists>it \<in> set its. a = attempt_of it m) \<and>
    (\<forall>knd res. messages_total mt' (knd, res) = messages_total mt (knd, res) +
       length (filter (\<lambda>(m, a). Kind m = knd \<and>
         (case fate_of a m of Sent \<Rightarrow> res = resultSent | Interrupted \<Rightarrow> False | Deferred \<Rightarrow> res = resultDeferred
          | Rescheduled \<Rightarrow> res = resultRetried | _ \<Rightarrow> res = resultFailed)) log))"
proof -
  have on: "repo_worker.worker_on wk" using assms(2,3) by (simp add: repo_worker.worker_on_def)
  from repo_counts.run_counted [OF assms(1) on _ assms(6)] assms(4) obtain log where "counted log w w'"
    and "\<forall>(m, x) \<in> set log. \<exists>it \<in> set its. x = attempt_of it m"
    by (auto simp: repo_counts.keeps_healthy_def)
  moreover have "fate_metric f = Some res \<longleftrightarrow>
      (case f of Sent \<Rightarrow> res = resultSent | Interrupted \<Rightarrow> False | Deferred \<Rightarrow> res = resultDeferred
        | Rescheduled \<Rightarrow> res = resultRetried | _ \<Rightarrow> res = resultFailed)" for f res
    by (cases f) (auto simp: result_names)
  ultimately show ?thesis using assms(5) by (intro exI [of _ log]) (auto simp: counted_def fate_count_def)
qed

theorem deliveries_are_counted_witness:
  "\<exists>stopped w' mt'. Run sample_worker [sample_iteration] (two_due\<lparr>metrics := Some \<lparr>pending_gauge = 0, failed_gauge = 0, messages_total = (\<lambda>_. 0)\<rparr>\<rparr>) =
      (stopped, w') \<and> metrics w' = Some mt' \<and> sends two_due = []"
proof -
  let ?mt = "\<lparr>pending_gauge = 0, failed_gauge = 0, messages_total = (\<lambda>_. 0)\<rparr>"
  let ?w = "two_due\<lparr>metrics := Some ?mt\<rparr>"
  obtain st w' where run: "Run sample_worker [sample_iteration] ?w = (st, w')" by fastforce
  have h: "pg_healthy (qstate ?w)" by (simp add: pg_healthy_def two_due_def sample_world_def sample_eval)
  have q: "queue sample_worker = Repository" "counter sample_worker \<in> {None, Some Repository_Counter}"
    by (simp_all add: sample_worker_def)
  have it: "\<forall>it \<in> set [sample_iteration]. \<forall>s. pg_healthy s \<longrightarrow> pg_healthy (outside it s)"
    by (simp add: sample_iteration_def)
  have m: "metrics ?w = Some ?mt" by simp
  from deliveries_are_counted [OF h q it m run] run show ?thesis by (auto simp: two_due_def sample_world_def)
qed

end
