(* ===== verification/Token.thy ===== *)
theory Token
  imports Apperr
begin

text \<open>
  The package \<^verbatim>\<open>token\<close>: claims and the manager that issues and checks tokens.

  The JWT library and the libraries that read and make keys are arguments (\<open>jwt\<close>, \<open>key_parsers\<close>,
  \<open>key_makers\<close>); what the
  package relies on is \<open>jwt_documented\<close>: a parsed token passes the checks its parser
  options ask for, and a token signed with the matching key that passes them is parsed to
  the claims it was made from.
\<close>

section \<open>Claims\<close>

definition TypeAccess :: string where "TypeAccess = ''access''"
definition TypeRefresh :: string where "TypeRefresh = ''refresh''"
definition AlgHS256 :: string where "AlgHS256 = ''HS256''"
definition AlgEdDSA :: string where "AlgEdDSA = ''EdDSA''"
definition MinSecretLength :: nat where "MinSecretLength = 32"
definition RoleService :: string where "RoleService = ''service''"

record Claims =
  Subject :: string
  Issuer :: string
  Audience :: "string list"
  IssuedAt :: "instant option"
  NotBefore :: "instant option"
  ExpiresAt :: "instant option"
  JTI :: string
  Type :: string
  SessionID :: string
  Roles :: "string list"

text \<open>The receiver may be a nil pointer.\<close>

definition UserID :: "Claims option \<Rightarrow> string" where
  "UserID c = (case c of None \<Rightarrow> [] | Some x \<Rightarrow> Subject x)"

definition HasRole :: "Claims option \<Rightarrow> string \<Rightarrow> bool" where
  "HasRole c role = (case c of None \<Rightarrow> False | Some x \<Rightarrow> role \<in> set (Roles x))"

section \<open>The libraries\<close>

text \<open>Keys are byte strings; an Ed25519 private key ends with its public key.\<close>

datatype sign_key = SecretKey string | EdPrivateKey string | EdPublicKey string

definition ed25519_Public :: "string \<Rightarrow> string" where
  "ed25519_Public key = drop 32 key"

datatype signing_method = SigningMethodHS256 | SigningMethodEdDSA

datatype parser_option =
    WithValidMethods "signing_method list" | WithIssuer string | WithLeeway duration
  | WithExpirationRequired | WithAudience string

record jwt =
  SignedString :: "signing_method \<Rightarrow> sign_key \<Rightarrow> Claims \<Rightarrow> string result"
  ParseWithClaims :: "parser_option list \<Rightarrow> sign_key \<Rightarrow> instant \<Rightarrow> string \<Rightarrow> (Claims \<times> bool) result"
  signature_ok :: "signing_method \<Rightarrow> sign_key \<Rightarrow> string \<Rightarrow> bool"

text \<open>What a PKCS8 or PKIX block holds: an Ed25519 key or a key of another type.\<close>

datatype parsed_key = EdKey string | OtherKey string

record key_parsers =
  pem_Decode :: "string \<Rightarrow> string option"
  ParsePKCS8PrivateKey :: "string \<Rightarrow> parsed_key result"
  ParsePKIXPublicKey :: "string \<Rightarrow> parsed_key result"

text \<open>The checks the parser options stand for; of several audience options the last is in force.\<close>

definition leeway_of :: "parser_option list \<Rightarrow> duration" where
  "leeway_of opts = (case [l. WithLeeway l \<leftarrow> opts] of [] \<Rightarrow> 0 | ls \<Rightarrow> last ls)"

definition claims_pass :: "parser_option list \<Rightarrow> instant \<Rightarrow> Claims \<Rightarrow> bool" where
  "claims_pass opts now c \<longleftrightarrow>
     (WithExpirationRequired \<in> set opts \<longrightarrow> ExpiresAt c \<noteq> None) \<and>
     (case ExpiresAt c of None \<Rightarrow> True | Some e \<Rightarrow> now < e + leeway_of opts) \<and>
     (case NotBefore c of None \<Rightarrow> True | Some b \<Rightarrow> b - leeway_of opts \<le> now) \<and>
     (\<forall>i. WithIssuer i \<in> set opts \<longrightarrow> i \<noteq> [] \<longrightarrow> Issuer c = i) \<and>
     (case [a. WithAudience a \<leftarrow> opts] of [] \<Rightarrow> True | as \<Rightarrow> last as \<in> set (Audience c))"

text \<open>A signing key and the key that checks its signatures.\<close>

definition key_pair :: "signing_method \<Rightarrow> sign_key \<Rightarrow> sign_key \<Rightarrow> bool" where
  "key_pair m sk vk =
     (case m of
        SigningMethodHS256 \<Rightarrow> (\<exists>s. sk = SecretKey s \<and> vk = SecretKey s)
      | SigningMethodEdDSA \<Rightarrow> (\<exists>p. sk = EdPrivateKey p \<and> vk = EdPublicKey (ed25519_Public p)))"

definition whole_seconds :: "instant option \<Rightarrow> bool" where
  "whole_seconds t = (case t of None \<Rightarrow> True | Some x \<Rightarrow> x mod second = 0)"

text \<open>Claims that JSON carries unchanged.\<close>

definition json_clean :: "Claims \<Rightarrow> bool" where
  "json_clean c \<longleftrightarrow>
     utf8_valid (Subject c) \<and> utf8_valid (Issuer c) \<and> utf8_valid (JTI c) \<and> utf8_valid (Type c) \<and>
     utf8_valid (SessionID c) \<and> (\<forall>s \<in> set (Audience c) \<union> set (Roles c). utf8_valid s) \<and>
     whole_seconds (IssuedAt c) \<and> whole_seconds (NotBefore c) \<and> whole_seconds (ExpiresAt c)"

definition jwt_documented :: "jwt \<Rightarrow> bool" where
  "jwt_documented lib \<longleftrightarrow>
     (\<forall>opts vk now raw c v. ParseWithClaims lib opts vk now raw = Inr (c, v) \<longrightarrow>
        claims_pass opts now c \<and>
        (\<forall>ms. WithValidMethods ms \<in> set opts \<longrightarrow> (\<exists>m \<in> set ms. signature_ok lib m vk raw))) \<and>
     (\<forall>m sk vk opts now c raw. SignedString lib m sk c = Inr raw \<longrightarrow> key_pair m sk vk \<longrightarrow> json_clean c \<longrightarrow>
        claims_pass opts now c \<longrightarrow> (\<forall>ms. WithValidMethods ms \<in> set opts \<longrightarrow> m \<in> set ms) \<longrightarrow>
        ParseWithClaims lib opts vk now raw = Inr (c, True)) \<and>
     (\<forall>m sk vk opts now c raw c' v. SignedString lib m sk c = Inr raw \<longrightarrow> json_clean c \<longrightarrow>
        ParseWithClaims lib opts vk now raw = Inr (c', v) \<longrightarrow> c' = c)"

section \<open>The manager\<close>

record token_Config =
  tok_Algorithm :: string
  tok_Secret :: string
  tok_PrivateKeyPEM :: string
  tok_PublicKeyPEM :: string
  tok_Issuer :: string
  tok_Audience :: "string list"
  tok_AccessTTL :: duration
  tok_Leeway :: duration

definition token_withDefaults :: "token_Config \<Rightarrow> token_Config" where
  "token_withDefaults c =
     c\<lparr>tok_Algorithm := if tok_Algorithm c = [] then AlgHS256 else tok_Algorithm c,
       tok_Issuer := if tok_Issuer c = [] then ''hockeynights'' else tok_Issuer c,
       tok_AccessTTL := if tok_AccessTTL c = 0 then 15 * minute else tok_AccessTTL c,
       tok_Leeway := if tok_Leeway c = 0 then 30 * second else tok_Leeway c\<rparr>"

interpretation token_cfg: defaulting token_withDefaults
  "\<lambda>c. tok_Algorithm c \<noteq> [] \<and> tok_Issuer c \<noteq> [] \<and> tok_AccessTTL c \<noteq> 0 \<and> tok_Leeway c \<noteq> 0"
  by unfold_locales (auto simp: token_withDefaults_def AlgHS256_def duration_units)

record Manager =
  mgr_cfg :: token_Config
  mgr_method :: signing_method
  mgr_sign :: "sign_key option"
  mgr_verify :: sign_key
  mgr_parser :: "parser_option list"

definition parseEd25519PrivateKey :: "key_parsers \<Rightarrow> string \<Rightarrow> string result" where
  "parseEd25519PrivateKey ks encoded =
     (case pem_Decode ks encoded of
        None \<Rightarrow> Inl (ErrorString ''token: private key is not valid PEM'')
      | Some block \<Rightarrow>
          (case ParsePKCS8PrivateKey ks block of
             Inl e \<Rightarrow> Inl (errorf ''token: parse private key: '' e)
           | Inr (OtherKey t) \<Rightarrow> Inl (ErrorString (''token: private key must be ed25519, got '' @ t))
           | Inr (EdKey key) \<Rightarrow> Inr key))"

definition parseEd25519PublicKey :: "key_parsers \<Rightarrow> string \<Rightarrow> string result" where
  "parseEd25519PublicKey ks encoded =
     (case pem_Decode ks encoded of
        None \<Rightarrow> Inl (ErrorString ''token: public key is not valid PEM'')
      | Some block \<Rightarrow>
          (case ParsePKIXPublicKey ks block of
             Inl e \<Rightarrow> Inl (errorf ''token: parse public key: '' e)
           | Inr (OtherKey t) \<Rightarrow> Inl (ErrorString (''token: public key must be ed25519, got '' @ t))
           | Inr (EdKey key) \<Rightarrow> Inr key))"

text \<open>
  The libraries that make keys: \<open>GenerateKey\<close> returns the public and the private key, and a block is encoded with
  its type.
\<close>

record key_makers =
  GenerateKey :: "(string \<times> string) result"
  MarshalPKCS8PrivateKey :: "string \<Rightarrow> string result"
  MarshalPKIXPublicKey :: "string \<Rightarrow> string result"
  pem_EncodeToMemory :: "string \<Rightarrow> string \<Rightarrow> string"

definition GenerateEd25519Keys :: "key_makers \<Rightarrow> (string \<times> string) result" where
  "GenerateEd25519Keys km =
     (case GenerateKey km of
        Inl e \<Rightarrow> Inl (errorf ''token: generate key: '' e)
      | Inr (public, private) \<Rightarrow>
          (case MarshalPKCS8PrivateKey km private of
             Inl e \<Rightarrow> Inl (errorf ''token: marshal private key: '' e)
           | Inr privateBytes \<Rightarrow>
               (case MarshalPKIXPublicKey km public of
                  Inl e \<Rightarrow> Inl (errorf ''token: marshal public key: '' e)
                | Inr publicBytes \<Rightarrow>
                    Inr (pem_EncodeToMemory km ''PRIVATE KEY'' privateBytes,
                         pem_EncodeToMemory km ''PUBLIC KEY'' publicBytes))))"

text \<open>What is marshalled and encoded is decoded and parsed to the same key; the two generated keys belong together.\<close>

definition keys_documented :: "key_parsers \<Rightarrow> key_makers \<Rightarrow> bool" where
  "keys_documented ks km \<longleftrightarrow>
     (\<forall>public private. GenerateKey km = Inr (public, private) \<longrightarrow> public = ed25519_Public private) \<and>
     (\<forall>k b. MarshalPKCS8PrivateKey km k = Inr b \<longrightarrow> ParsePKCS8PrivateKey ks b = Inr (EdKey k)) \<and>
     (\<forall>k b. MarshalPKIXPublicKey km k = Inr b \<longrightarrow> ParsePKIXPublicKey ks b = Inr (EdKey k)) \<and>
     (\<forall>t b. pem_EncodeToMemory km t b \<noteq> [] \<and> pem_Decode ks (pem_EncodeToMemory km t b) = Some b)"

text \<open>The switch on the algorithm: the method, the signing key if there is one, the checking key.\<close>

definition select_keys :: "key_parsers \<Rightarrow> token_Config \<Rightarrow> (signing_method \<times> sign_key option \<times> sign_key) result" where
  "select_keys ks cfg =
     (if tok_Algorithm cfg = AlgHS256 then
        if length (tok_Secret cfg) < MinSecretLength then
          Inl (ErrorString (''token: HS256 secret must be at least '' @ itoa (int MinSecretLength) @
            '' bytes, got '' @ itoa (int (length (tok_Secret cfg)))))
        else Inr (SigningMethodHS256, Some (SecretKey (tok_Secret cfg)), SecretKey (tok_Secret cfg))
      else if tok_Algorithm cfg = AlgEdDSA then
        case (if tok_PrivateKeyPEM cfg \<noteq> []
              then map_sum id Some (parseEd25519PrivateKey ks (tok_PrivateKeyPEM cfg)) else Inr None) of
          Inl e \<Rightarrow> Inl e
        | Inr priv \<Rightarrow>
            (case (if tok_PublicKeyPEM cfg \<noteq> []
                   then map_sum id Some (parseEd25519PublicKey ks (tok_PublicKeyPEM cfg)) else Inr None) of
               Inl e \<Rightarrow> Inl e
             | Inr (Some p) \<Rightarrow> Inr (SigningMethodEdDSA, map_option EdPrivateKey priv, EdPublicKey p)
             | Inr None \<Rightarrow>
                 (case priv of
                    Some k \<Rightarrow> Inr (SigningMethodEdDSA, Some (EdPrivateKey k), EdPublicKey (ed25519_Public k))
                  | None \<Rightarrow> Inl (ErrorString ''token: EdDSA requires JWT_PRIVATE_KEY or JWT_PUBLIC_KEY'')))
      else Inl (ErrorString (''token: unsupported algorithm '' @ quote_text (tok_Algorithm cfg))))"

definition parser_options :: "token_Config \<Rightarrow> signing_method \<Rightarrow> parser_option list" where
  "parser_options cfg m =
     [WithValidMethods [m], WithIssuer (tok_Issuer cfg), WithLeeway (tok_Leeway cfg), WithExpirationRequired] @
     map WithAudience (tok_Audience cfg)"

definition NewManager :: "key_parsers \<Rightarrow> token_Config \<Rightarrow> Manager result" where
  "NewManager ks cfg0 =
     (let cfg = token_withDefaults cfg0 in
      case select_keys ks cfg of
        Inl e \<Rightarrow> Inl e
      | Inr (m, sk, vk) \<Rightarrow>
          Inr \<lparr>mgr_cfg = cfg, mgr_method = m, mgr_sign = sk, mgr_verify = vk, mgr_parser = parser_options cfg m\<rparr>)"

record IssueOptions =
  opt_SessionID :: string
  opt_Roles :: "string list"
  opt_TTL :: duration
  opt_ID :: string

text \<open>\<^verbatim>\<open>jwt.NewNumericDate\<close> drops the fraction of the second.\<close>

definition NewNumericDate :: "instant \<Rightarrow> instant" where
  "NewNumericDate t = t div second * second"

definition issued_claims :: "Manager \<Rightarrow> instant \<Rightarrow> string \<Rightarrow> string \<Rightarrow> IssueOptions \<Rightarrow> duration \<Rightarrow> Claims" where
  "issued_claims m now userID tokenType opts ttl =
     \<lparr>Subject = userID, Issuer = tok_Issuer (mgr_cfg m), Audience = tok_Audience (mgr_cfg m),
      IssuedAt = Some (NewNumericDate now), NotBefore = Some (NewNumericDate now),
      ExpiresAt = Some (NewNumericDate (now + ttl)), JTI = opt_ID opts,
      Type = tokenType, SessionID = opt_SessionID opts, Roles = opt_Roles opts\<rparr>"

definition Issue ::
  "jwt \<Rightarrow> Manager \<Rightarrow> instant \<Rightarrow> string \<Rightarrow> string \<Rightarrow> IssueOptions \<Rightarrow> (string \<times> Claims) result" where
  "Issue lib m now userID tokenType opts =
     (case mgr_sign m of
        None \<Rightarrow> Inl (ErrorString ''token: signing key is not configured'')
      | Some key \<Rightarrow>
          if userID = [] then Inl (ErrorString ''token: user id is required'')
          else if opt_TTL opts = 0 \<and> tokenType \<noteq> TypeAccess then
            Inl (ErrorString (''token: TTL is required for '' @ quote_text tokenType @ '' tokens''))
          else
            let ttl = (if opt_TTL opts = 0 then tok_AccessTTL (mgr_cfg m) else opt_TTL opts);
                claims = issued_claims m now userID tokenType opts ttl in
            (case SignedString lib (mgr_method m) key claims of
               Inl e \<Rightarrow> Inl (errorf ''token: sign: '' e)
             | Inr signed \<Rightarrow> Inr (signed, claims)))"

definition IssueAccess ::
  "jwt \<Rightarrow> Manager \<Rightarrow> instant \<Rightarrow> string \<Rightarrow> IssueOptions \<Rightarrow> (string \<times> Claims) result" where
  "IssueAccess lib m now userID opts = Issue lib m now userID TypeAccess opts"

definition Parse :: "jwt \<Rightarrow> Manager \<Rightarrow> instant \<Rightarrow> string \<Rightarrow> string \<Rightarrow> Claims result" where
  "Parse lib m now raw expected =
     (case ParseWithClaims lib (mgr_parser m) (mgr_verify m) now raw of
        Inl e \<Rightarrow> Inl (errorf2 (Sentinel ErrInvalidToken) e)
      | Inr (claims, valid) \<Rightarrow>
          if \<not> valid then Inl (Sentinel ErrInvalidToken)
          else if expected \<noteq> [] \<and> Type claims \<noteq> expected then
            Inl (WrapError (sentinel_text ErrWrongType @ '': got '' @ quote_text (Type claims) @
              '', want '' @ quote_text expected) [Sentinel ErrWrongType])
          else Inr claims)"

definition ParseAccess :: "jwt \<Rightarrow> Manager \<Rightarrow> instant \<Rightarrow> string \<Rightarrow> Claims result" where
  "ParseAccess lib m now raw = Parse lib m now raw TypeAccess"

definition AccessTTL :: "Manager \<Rightarrow> duration" where
  "AccessTTL m = tok_AccessTTL (mgr_cfg m)"

section \<open>What a manager accepts and issues\<close>

lemma leeway_parser_options [simp]: "leeway_of (parser_options cfg m) = tok_Leeway cfg"
proof -
  have "concat (map (\<lambda>x. case x of WithLeeway l \<Rightarrow> [l] | _ \<Rightarrow> []) (map WithAudience xs)) = []" for xs
    by (induction xs) auto
  then show ?thesis by (simp add: leeway_of_def parser_options_def)
qed

lemma audience_parser_options [simp]:
  "[a. WithAudience a \<leftarrow> parser_options cfg m] = tok_Audience cfg"
proof -
  have "concat (map (\<lambda>x. case x of WithAudience l \<Rightarrow> [l] | _ \<Rightarrow> []) (map WithAudience xs)) = xs" for xs
    by (induction xs) auto
  then show ?thesis by (simp add: parser_options_def)
qed

lemma options_in [simp]:
  "WithExpirationRequired \<in> set (parser_options cfg m)"
  "WithIssuer i \<in> set (parser_options cfg m) \<longleftrightarrow> i = tok_Issuer cfg"
  "WithValidMethods ms \<in> set (parser_options cfg m) \<longleftrightarrow> ms = [m]"
  by (auto simp: parser_options_def)

lemma claims_pass_options:
  "claims_pass (parser_options cfg m) now c \<longleftrightarrow>
     (\<exists>e. ExpiresAt c = Some e \<and> now < e + tok_Leeway cfg) \<and>
     (case NotBefore c of None \<Rightarrow> True | Some b \<Rightarrow> b - tok_Leeway cfg \<le> now) \<and>
     (tok_Issuer cfg \<noteq> [] \<longrightarrow> Issuer c = tok_Issuer cfg) \<and>
     (tok_Audience cfg \<noteq> [] \<longrightarrow> last (tok_Audience cfg) \<in> set (Audience c))"
  by (auto simp: claims_pass_def split: option.splits list.splits)

lemma jwt_sound:
  assumes "jwt_documented lib" and "ParseWithClaims lib opts vk now raw = Inr (c, v)"
  shows "claims_pass opts now c" and "WithValidMethods [meth] \<in> set opts \<Longrightarrow> signature_ok lib meth vk raw"
  using assms unfolding jwt_documented_def by fastforce+

lemma jwt_complete:
  assumes "jwt_documented lib" and "SignedString lib meth sk c = Inr raw" and "key_pair meth sk vk" and "json_clean c"
    and "claims_pass opts now c" and "\<And>ms. WithValidMethods ms \<in> set opts \<Longrightarrow> meth \<in> set ms"
  shows "ParseWithClaims lib opts vk now raw = Inr (c, True)"
  using assms unfolding jwt_documented_def by blast

lemma jwt_same:
  assumes "jwt_documented lib" and "SignedString lib meth sk c = Inr raw" and "json_clean c"
    and "ParseWithClaims lib opts vk now raw = Inr (c', v)"
  shows "c' = c"
  using assms unfolding jwt_documented_def by blast

lemma NewManager_InrE:
  assumes "NewManager ks cfg0 = Inr m"
  obtains sk vk where "select_keys ks (token_withDefaults cfg0) = Inr (mgr_method m, sk, vk)"
    and "mgr_cfg m = token_withDefaults cfg0" and "mgr_sign m = sk" and "mgr_verify m = vk"
    and "mgr_parser m = parser_options (token_withDefaults cfg0) (mgr_method m)"
  using assms by (auto simp: NewManager_def Let_def split: sum.splits prod.splits)

lemma withDefaults_keys [simp]:
  "tok_PublicKeyPEM (token_withDefaults c) = tok_PublicKeyPEM c"
  "tok_Secret (token_withDefaults c) = tok_Secret c"
  "tok_Audience (token_withDefaults c) = tok_Audience c"
  "tok_Issuer (token_withDefaults c) \<noteq> []"
  by (auto simp: token_withDefaults_def)

lemma select_keys_pair:
  assumes "select_keys ks cfg = Inr (meth, Some sk, vk)"
    and "tok_PublicKeyPEM cfg = [] \<or> meth = SigningMethodHS256"
  shows "key_pair meth sk vk"
  using assms
  by (auto simp: select_keys_def key_pair_def split: if_splits sum.splits option.splits)

lemma Issue_InrE:
  assumes "Issue lib m now u typ opts = Inr (raw, c)"
  obtains sk ttl where "mgr_sign m = Some sk" and "u \<noteq> []"
    and "ttl = (if opt_TTL opts = 0 then tok_AccessTTL (mgr_cfg m) else opt_TTL opts)"
    and "c = issued_claims m now u typ opts ttl" and "SignedString lib (mgr_method m) sk c = Inr raw"
  using assms by (auto simp: Issue_def Let_def split: option.splits if_splits sum.splits)

lemma NewNumericDate_le: "NewNumericDate t \<le> t" "t < NewNumericDate t + second"
  by (simp_all add: NewNumericDate_def second_def)

lemma Issue_Parse:
  assumes "jwt_documented lib" and "NewManager ks cfg = Inr m"
    and "tok_PublicKeyPEM cfg = [] \<or> mgr_method m = SigningMethodHS256" and "0 \<le> tok_Leeway (mgr_cfg m)"
    and "Issue lib m now u typ opts = Inr (raw, c)" and "json_clean c"
    and "now \<le> t" and "\<exists>e. ExpiresAt c = Some e \<and> t < e + tok_Leeway (mgr_cfg m)"
  shows "Parse lib m t raw typ = Inr c \<and> Parse lib m t raw [] = Inr c \<and>
    Subject c = u \<and> Type c = typ \<and> Roles c = opt_Roles opts"
proof -
  obtain sk vk where sel: "select_keys ks (token_withDefaults cfg) = Inr (mgr_method m, sk, vk)"
    and m: "mgr_cfg m = token_withDefaults cfg" "mgr_sign m = sk" "mgr_verify m = vk"
      "mgr_parser m = parser_options (token_withDefaults cfg) (mgr_method m)"
    by (rule NewManager_InrE [OF assms(2)])
  obtain key ttl where key: "mgr_sign m = Some key" and c: "c = issued_claims m now u typ opts ttl"
    and signed: "SignedString lib (mgr_method m) key c = Inr raw"
    by (rule Issue_InrE [OF assms(5)])
  have pair: "key_pair (mgr_method m) key vk"
    using select_keys_pair [of ks "token_withDefaults cfg"] sel m key assms(3) by simp
  have "claims_pass (mgr_parser m) t c"
    unfolding m(4) claims_pass_options
    using assms(4,7,8) NewNumericDate_le(1) [of now] by (auto simp: c issued_claims_def m(1))
  then have "ParseWithClaims lib (mgr_parser m) vk t raw = Inr (c, True)"
    by (rule jwt_complete [OF assms(1) signed pair assms(6)]) (simp add: m(4))
  then show ?thesis using m(3) by (simp add: Parse_def c issued_claims_def)
qed

lemma issued_json_clean:
  assumes "utf8_valid u" and "utf8_valid typ" and "utf8_valid (tok_Issuer (mgr_cfg m))"
    and "\<forall>s \<in> set (tok_Audience (mgr_cfg m)) \<union> set (opt_Roles opts). utf8_valid s"
    and "utf8_valid (opt_ID opts)" and "utf8_valid (opt_SessionID opts)"
  shows "json_clean (issued_claims m now u typ opts ttl)"
  using assms by (simp add: json_clean_def issued_claims_def whole_seconds_def NewNumericDate_def)

text \<open>
  C6. What a manager issues it accepts: a token issued at \<open>now\<close> is parsed back to exactly
  the claims it was issued with, by the same manager at any time from \<open>now\<close> until the
  leeway after its expiry, both when its type is asked for and when no type is. The expiry is
  the time to live after \<open>now\<close>, in whole seconds: that of the options, or else that of the configuration.
\<close>

theorem issue_parse_roundtrip:
  assumes "jwt_documented lib" and "NewManager ks cfg = Inr m"
    and "tok_PublicKeyPEM cfg = [] \<or> mgr_method m = SigningMethodHS256" and "0 \<le> tok_Leeway (mgr_cfg m)"
    and "Issue lib m now u typ opts = Inr (raw, c)" and "json_clean c"
    and "ttl = (if opt_TTL opts = 0 then tok_AccessTTL (mgr_cfg m) else opt_TTL opts)"
    and "now \<le> t" and "t < NewNumericDate (now + ttl) + tok_Leeway (mgr_cfg m)"
  shows "Parse lib m t raw typ = Inr c \<and> Parse lib m t raw [] = Inr c \<and>
    Subject c = u \<and> Type c = typ \<and> Roles c = opt_Roles opts \<and>
    SessionID c = opt_SessionID opts \<and> ExpiresAt c = Some (NewNumericDate (now + ttl))"
proof -
  from assms(5) have c: "c = issued_claims m now u typ opts ttl" unfolding assms(7) by (blast elim: Issue_InrE)
  have e: "ExpiresAt c = Some (NewNumericDate (now + ttl))" "SessionID c = opt_SessionID opts"
    by (simp_all add: c issued_claims_def)
  with assms(9) have "\<exists>e. ExpiresAt c = Some e \<and> t < e + tok_Leeway (mgr_cfg m)" by blast
  with Issue_Parse [OF assms(1-6) assms(8)] e show ?thesis by blast
qed

text \<open>
  The two halves of a generated pair: a service that has the private key issues tokens, and one that has only the
  public key reads every token as the first does and cannot issue any.
\<close>

lemma generated_key_managers:
  assumes "keys_documented ks km" and "GenerateEd25519Keys km = Inr (priv, pub)"
  shows "\<exists>m1 m2. NewManager ks (cfg\<lparr>tok_Algorithm := AlgEdDSA, tok_PrivateKeyPEM := priv, tok_PublicKeyPEM := []\<rparr>) = Inr m1 \<and>
    NewManager ks (cfg\<lparr>tok_Algorithm := AlgEdDSA, tok_PrivateKeyPEM := [], tok_PublicKeyPEM := pub\<rparr>) = Inr m2 \<and>
    mgr_sign m1 \<noteq> None \<and> mgr_sign m2 = None \<and> Parse lib m2 t raw expected = Parse lib m1 t raw expected"
proof -
  from assms(2) obtain p k b1 b2 where k: "GenerateKey km = Inr (p, k)"
    and b: "MarshalPKCS8PrivateKey km k = Inr b1" "MarshalPKIXPublicKey km p = Inr b2"
    and pem: "priv = pem_EncodeToMemory km ''PRIVATE KEY'' b1" "pub = pem_EncodeToMemory km ''PUBLIC KEY'' b2"
    by (auto simp: GenerateEd25519Keys_def split: sum.splits prod.splits)
  from assms(1) k have p: "p = ed25519_Public k" by (simp add: keys_documented_def)
  have "priv \<noteq> []" "parseEd25519PrivateKey ks priv = Inr k" "pub \<noteq> []" "parseEd25519PublicKey ks pub = Inr (ed25519_Public k)"
    using assms(1) b by (simp_all add: pem p keys_documented_def parseEd25519PrivateKey_def parseEd25519PublicKey_def)
  then show ?thesis
    by (simp add: NewManager_def Let_def select_keys_def token_withDefaults_def AlgEdDSA_def AlgHS256_def
        parser_options_def Parse_def)
qed

lemma generated_keys_roundtrip:
  assumes keys: "keys_documented ks km" "GenerateEd25519Keys km = Inr (priv, pub)" and lib: "jwt_documented lib"
    and issuer: "NewManager ks (cfg\<lparr>tok_Algorithm := AlgEdDSA, tok_PrivateKeyPEM := priv, tok_PublicKeyPEM := []\<rparr>) = Inr m1"
    and reader: "NewManager ks (cfg\<lparr>tok_Algorithm := AlgEdDSA, tok_PrivateKeyPEM := [], tok_PublicKeyPEM := pub\<rparr>) = Inr m2"
    and issued: "Issue lib m1 now u typ opts = Inr (raw, c)" "json_clean c" and leeway: "0 \<le> tok_Leeway (mgr_cfg m1)"
    and times: "now \<le> t" "\<exists>e. ExpiresAt c = Some e \<and> t < e + tok_Leeway (mgr_cfg m1)"
  shows "Parse lib m2 t raw typ = Inr c"
proof -
  have "Parse lib m1 t raw typ = Inr c"
    using Issue_Parse [OF lib issuer _ leeway issued times] by simp
  moreover have "Parse lib m2 t raw typ = Parse lib m1 t raw typ"
    using generated_key_managers [OF keys, of cfg lib t raw "typ"] issuer reader by auto
  ultimately show ?thesis by simp
qed

lemma Parse_sound:
  assumes "jwt_documented lib" and "NewManager ks cfg = Inr m" and "Parse lib m t raw expected = Inr c"
  shows "signature_ok lib (mgr_method m) (mgr_verify m) raw \<and>
    Issuer c = tok_Issuer (token_withDefaults cfg) \<and>
    (\<exists>e. ExpiresAt c = Some e \<and> t < e + tok_Leeway (token_withDefaults cfg)) \<and>
    (\<forall>b. NotBefore c = Some b \<longrightarrow> b - tok_Leeway (token_withDefaults cfg) \<le> t) \<and>
    (tok_Audience cfg \<noteq> [] \<longrightarrow> last (tok_Audience cfg) \<in> set (Audience c)) \<and>
    (expected \<noteq> [] \<longrightarrow> Type c = expected)"
proof -
  have par: "mgr_parser m = parser_options (token_withDefaults cfg) (mgr_method m)"
    using assms(2) by (rule NewManager_InrE)
  obtain v where p: "ParseWithClaims lib (mgr_parser m) (mgr_verify m) t raw = Inr (c, v)"
    and ty: "expected \<noteq> [] \<longrightarrow> Type c = expected"
    using assms(3) by (auto simp: Parse_def split: sum.splits if_splits)
  have pass: "claims_pass (mgr_parser m) t c" by (rule jwt_sound(1) [OF assms(1) p])
  have "signature_ok lib (mgr_method m) (mgr_verify m) raw"
    by (rule jwt_sound(2) [OF assms(1) p]) (simp add: par)
  with pass ty show ?thesis unfolding par claims_pass_options by auto
qed

text \<open>
  C15. What a manager accepts is what its configuration asks for: the signature verifies with
  its key under its one algorithm, the issuer is the configured one, an expiry is present
  and not passed by more than the leeway, the token is already valid (less the leeway), it
  carries the last configured audience, and it has the type that was asked for.
\<close>

theorem parse_accepts_only_valid:
  assumes "jwt_documented lib" and "NewManager ks cfg = Inr m" and "Parse lib m t raw expected = Inr c"
  shows "signature_ok lib (mgr_method m) (mgr_verify m) raw \<and>
    Issuer c = tok_Issuer (token_withDefaults cfg) \<and>
    (\<exists>e. ExpiresAt c = Some e \<and> t < e + tok_Leeway (token_withDefaults cfg)) \<and>
    (\<forall>b. NotBefore c = Some b \<longrightarrow> b - tok_Leeway (token_withDefaults cfg) \<le> t) \<and>
    (tok_Audience cfg \<noteq> [] \<longrightarrow> last (tok_Audience cfg) \<in> set (Audience c)) \<and>
    (expected \<noteq> [] \<longrightarrow> Type c = expected)"
  using assms by (rule Parse_sound)

text \<open>
  Access and refresh tokens are kept apart: a token of any other type than access is
  refused by \<^verbatim>\<open>ParseAccess\<close> of every manager, whatever its keys and whenever it is asked.
\<close>

lemma other_types_are_not_access:
  assumes "jwt_documented lib" and "Issue lib m now u typ opts = Inr (raw, c)" and "json_clean c"
    and "typ \<noteq> TypeAccess"
  shows "\<exists>e. ParseAccess lib m' t raw = Inl e \<and>
    (errors_Is (Some e) ErrInvalidToken \<or> errors_Is (Some e) ErrWrongType)"
proof -
  obtain sk ttl where c: "c = issued_claims m now u typ opts ttl"
    and signed: "SignedString lib (mgr_method m) sk c = Inr raw"
    by (rule Issue_InrE [OF assms(2)])
  have ty: "Type c \<noteq> TypeAccess" using assms(4) by (simp add: c issued_claims_def)
  show ?thesis
  proof (cases "ParseWithClaims lib (mgr_parser m') (mgr_verify m') t raw")
    case (Inl e)
    then show ?thesis by (simp add: ParseAccess_def Parse_def errors_Is_errorf2)
  next
    case (Inr cv)
    then obtain v where "ParseWithClaims lib (mgr_parser m') (mgr_verify m') t raw = Inr (c, v)"
      using jwt_same [OF assms(1) signed assms(3)] by (cases cv) blast
    with ty show ?thesis
      by (simp add: ParseAccess_def Parse_def TypeAccess_def errors_Is_wrap)
  qed
qed

section \<open>A library that behaves as documented\<close>

text \<open>It signs two claims, with one key, and checks them as the options ask.\<close>

definition sample_token_Config :: token_Config where
  "sample_token_Config =
     \<lparr>tok_Algorithm = [], tok_Secret = replicate 32 CHR ''k'', tok_PrivateKeyPEM = [], tok_PublicKeyPEM = [],
      tok_Issuer = [], tok_Audience = [''mobile''], tok_AccessTTL = 0, tok_Leeway = 0\<rparr>"

definition no_parsers :: key_parsers where
  "no_parsers =
     \<lparr>pem_Decode = (\<lambda>_. None), ParsePKCS8PrivateKey = (\<lambda>_. Inl (ErrorString ''x'')),
      ParsePKIXPublicKey = (\<lambda>_. Inl (ErrorString ''x''))\<rparr>"

definition sample_manager :: Manager where
  "sample_manager =
     \<lparr>mgr_cfg = token_withDefaults sample_token_Config, mgr_method = SigningMethodHS256,
      mgr_sign = Some (SecretKey (replicate 32 CHR ''k'')), mgr_verify = SecretKey (replicate 32 CHR ''k''),
      mgr_parser = parser_options (token_withDefaults sample_token_Config) SigningMethodHS256\<rparr>"

definition sample_options :: "string list \<Rightarrow> IssueOptions" where
  "sample_options roles = \<lparr>opt_SessionID = ''s1'', opt_Roles = roles, opt_TTL = 900 * second, opt_ID = []\<rparr>"

definition sample_claims :: "string \<Rightarrow> Claims" where
  "sample_claims typ = issued_claims sample_manager 0 ''u1'' typ (sample_options [RoleService]) (900 * second)"

definition table_jwt :: "string \<Rightarrow> (string \<times> Claims) list \<Rightarrow> jwt" where
  "table_jwt key tbl =
     \<lparr>SignedString = (\<lambda>m sk c.
        if m = SigningMethodHS256 \<and> sk = SecretKey key
        then (case find (\<lambda>p. snd p = c) tbl of Some p \<Rightarrow> Inr (fst p) | None \<Rightarrow> Inl (ErrorString ''unknown''))
        else Inl (ErrorString ''unknown'')),
      ParseWithClaims = (\<lambda>opts vk now raw.
        case map_of tbl raw of
          Some c \<Rightarrow>
            if vk = SecretKey key \<and> claims_pass opts now c \<and>
               list_all (\<lambda>x. case x of WithValidMethods ms \<Rightarrow> SigningMethodHS256 \<in> set ms | _ \<Rightarrow> True) opts
            then Inr (c, True) else Inl (ErrorString ''invalid'')
        | None \<Rightarrow> Inl (ErrorString ''invalid'')),
      signature_ok = (\<lambda>m vk raw. m = SigningMethodHS256 \<and> vk = SecretKey key \<and> map_of tbl raw \<noteq> None)\<rparr>"

definition sample_jwt :: jwt where
  "sample_jwt =
     table_jwt (replicate 32 CHR ''k'') [(TypeAccess, sample_claims TypeAccess), (TypeRefresh, sample_claims TypeRefresh)]"

lemma table_jwt_documented:
  assumes "distinct (map fst tbl)"
  shows "jwt_documented (table_jwt key tbl)"
proof -
  have ms: "list_all (\<lambda>x. case x of WithValidMethods ms \<Rightarrow> SigningMethodHS256 \<in> set ms | _ \<Rightarrow> True) opts \<longleftrightarrow>
      (\<forall>ms. WithValidMethods ms \<in> set opts \<longrightarrow> SigningMethodHS256 \<in> set ms)" for opts
    by (auto simp: list_all_iff split: parser_option.splits)
  have look: "map_of tbl (fst p) = Some c" if "find (\<lambda>p. snd p = c) tbl = Some p" for p c
  proof -
    have "p \<in> set tbl" and "snd p = c" using that by (auto simp: find_Some_iff)
    then show ?thesis using map_of_is_SomeI [OF assms, of "fst p" c] by auto
  qed
  show ?thesis
    unfolding jwt_documented_def table_jwt_def ms jwt.simps
    by (intro conjI allI impI) (auto simp: key_pair_def dest!: look split: if_splits option.splits)
qed

lemma sample_claims_Type [simp]: "Type (sample_claims typ) = typ"
  by (simp add: sample_claims_def issued_claims_def)

lemma sample_jwt_documented: "jwt_documented sample_jwt"
  unfolding sample_jwt_def by (rule table_jwt_documented) (simp add: TypeAccess_def TypeRefresh_def)

lemma sample_claims_distinct: "sample_claims TypeAccess \<noteq> sample_claims TypeRefresh"
proof -
  have "TypeAccess \<noteq> TypeRefresh" by (simp add: TypeAccess_def TypeRefresh_def)
  then show ?thesis by (metis sample_claims_Type)
qed

lemma sample_manager_new: "NewManager no_parsers sample_token_Config = Inr sample_manager"
  by (simp add: NewManager_def Let_def select_keys_def token_withDefaults_def sample_token_Config_def sample_manager_def
      AlgHS256_def MinSecretLength_def)

lemma sample_claims_clean: "typ \<in> {TypeAccess, TypeRefresh} \<Longrightarrow> json_clean (sample_claims typ)"
  by (auto simp: sample_claims_def issued_claims_def json_clean_def sample_manager_def token_withDefaults_def
      sample_token_Config_def sample_options_def whole_seconds_def NewNumericDate_def TypeAccess_def TypeRefresh_def
      RoleService_def utf8_valid_Cons)

lemma sample_manager_fields:
  "mgr_sign sample_manager = Some (SecretKey (replicate 32 CHR ''k''))" "mgr_method sample_manager = SigningMethodHS256"
  "mgr_verify sample_manager = SecretKey (replicate 32 CHR ''k'')"
  "mgr_parser sample_manager = parser_options (token_withDefaults sample_token_Config) SigningMethodHS256"
  "opt_TTL (sample_options roles) = 900 * second"
  by (simp_all add: sample_manager_def sample_options_def)

lemma sample_signed:
  "typ \<in> {TypeAccess, TypeRefresh} \<Longrightarrow>
    SignedString sample_jwt SigningMethodHS256 (SecretKey (replicate 32 CHR ''k'')) (sample_claims typ) = Inr typ"
  using sample_claims_distinct by (auto simp: sample_jwt_def table_jwt_def)

lemma sample_issue:
  "typ \<in> {TypeAccess, TypeRefresh} \<Longrightarrow>
    Issue sample_jwt sample_manager 0 ''u1'' typ (sample_options [RoleService]) = Inr (typ, sample_claims typ)"
  using sample_signed [of "typ"]
  by (simp add: Issue_def sample_manager_fields Let_def second_def)
     (simp add: sample_claims_def second_def)

theorem issue_parse_roundtrip_witness:
  "Parse sample_jwt sample_manager (900 * second) TypeAccess TypeAccess = Inr (sample_claims TypeAccess)"
proof -
  have key: "tok_PublicKeyPEM sample_token_Config = [] \<or> mgr_method sample_manager = SigningMethodHS256"
    and lw: "tok_Leeway (mgr_cfg sample_manager) = 30 * second"
    by (simp_all add: sample_manager_def sample_token_Config_def token_withDefaults_def)
  have ttl: "900 * second = (if opt_TTL (sample_options [RoleService]) = 0 then tok_AccessTTL (mgr_cfg sample_manager)
      else opt_TTL (sample_options [RoleService]))"
    by (simp add: sample_options_def sample_manager_def sample_token_Config_def token_withDefaults_def second_def minute_def)
  have ex: "900 * second < NewNumericDate (0 + 900 * second) + tok_Leeway (mgr_cfg sample_manager)"
    unfolding lw by (simp add: NewNumericDate_def second_def)
  have i: "Issue sample_jwt sample_manager 0 ''u1'' TypeAccess (sample_options [RoleService]) =
      Inr (TypeAccess, sample_claims TypeAccess)" by (rule sample_issue) simp
  have cl: "json_clean (sample_claims TypeAccess)" by (rule sample_claims_clean) simp
  have "0 \<le> tok_Leeway (mgr_cfg sample_manager)" and "0 \<le> 900 * second" by (simp_all add: lw second_def)
  from issue_parse_roundtrip [OF sample_jwt_documented sample_manager_new key this(1) i cl ttl this(2) ex]
  show ?thesis by blast
qed

theorem parse_accepts_only_valid_witness:
  "\<exists>c. Parse sample_jwt sample_manager 0 TypeAccess TypeAccess = Inr c \<and> Issuer c = ''hockeynights''"
proof -
  have p: "Parse sample_jwt sample_manager 0 TypeAccess TypeAccess = Inr (sample_claims TypeAccess)"
  proof -
    have pass: "claims_pass (mgr_parser sample_manager) 0 (sample_claims TypeAccess)"
      unfolding sample_manager_fields claims_pass_options
      by (simp add: sample_claims_def issued_claims_def sample_manager_def token_withDefaults_def
          sample_token_Config_def NewNumericDate_def second_def)
    have pair: "key_pair SigningMethodHS256 (SecretKey (replicate 32 CHR ''k'')) (mgr_verify sample_manager)"
      by (simp add: key_pair_def sample_manager_fields)
    have "ParseWithClaims sample_jwt (mgr_parser sample_manager) (mgr_verify sample_manager) 0 TypeAccess =
        Inr (sample_claims TypeAccess, True)"
      by (rule jwt_complete [OF sample_jwt_documented sample_signed pair sample_claims_clean pass])
         (auto simp: sample_manager_fields)
    then show ?thesis by (simp add: Parse_def)
  qed
  from parse_accepts_only_valid [OF sample_jwt_documented sample_manager_new p]
  have "Issuer (sample_claims TypeAccess) = ''hockeynights''"
    by (simp add: token_withDefaults_def sample_token_Config_def)
  with p show ?thesis by blast
qed

end
