(* ===== verification/Logger.thy ===== *)
theory Logger
  imports Apperr
begin

text \<open>
  The package \<^verbatim>\<open>logger\<close>. A logger is described by what decides its output: the level, the
  format, the attributes and groups added to it, and whether its handler is the package's
  \<^verbatim>\<open>contextHandler\<close>, which adds the attributes and the trace of the context to each record.
  Attribute values are kept as text.
\<close>

type_synonym attr = "string \<times> string"

record slogger =
  lg_level :: log_level
  lg_format :: string
  lg_source :: bool
  lg_attrs :: "attr list"
  lg_groups :: "string list"
  lg_context :: bool

record log_record =
  rec_level :: log_level
  rec_msg :: string
  rec_groups :: "string list"
  rec_attrs :: "attr list"

definition FormatJSON :: string where "FormatJSON = ''json''"
definition FormatText :: string where "FormatText = ''text''"

text \<open>
  \<^verbatim>\<open>strings.ToLower\<close> as far as a comparison with ASCII words can see it: besides the ASCII
  letters only U+0130 and U+212A have an ASCII letter as their lower case.
\<close>

definition lower_rune :: "nat \<Rightarrow> nat" where
  "lower_rune r =
     (if 65 \<le> r \<and> r \<le> 90 then r + 32 else if r = 304 then 105 else if r = 8490 then 107 else r)"

definition ToLower :: "string \<Rightarrow> string" where
  "ToLower s = string_of_runes (map lower_rune (runes s))"

definition ParseLevel :: "string \<Rightarrow> log_level result" where
  "ParseLevel v =
     (let w = ToLower (trim_space v) in
      if w = [] \<or> w = ''info'' then Inr LevelInfo
      else if w = ''debug'' then Inr LevelDebug
      else if w = ''warn'' \<or> w = ''warning'' then Inr LevelWarn
      else if w = ''error'' then Inr LevelError
      else Inl (ErrorString (''logger: unknown level '' @ quote_text v)))"

record logger_Config =
  log_Level :: string
  log_Format :: string
  log_AddSource :: bool
  log_Service :: string
  log_Version :: string

definition logger_New :: "logger_Config \<Rightarrow> slogger result" where
  "logger_New cfg =
     (case ParseLevel (log_Level cfg) of
        Inl e \<Rightarrow> Inl e
      | Inr level \<Rightarrow>
          let f = ToLower (log_Format cfg);
              attrs = (if log_Service cfg \<noteq> [] then [(''service'', log_Service cfg)] else []) @
                      (if log_Version cfg \<noteq> [] then [(''version'', log_Version cfg)] else []);
              handler = (\<lambda>fmt. \<lparr>lg_level = level, lg_format = fmt, lg_source = log_AddSource cfg,
                          lg_attrs = attrs, lg_groups = [], lg_context = True\<rparr>) in
          if f = [] \<or> f = FormatJSON then Inr (handler FormatJSON)
          else if f = FormatText then Inr (handler FormatText)
          else Inl (ErrorString (''logger: unknown format '' @ quote_text (log_Format cfg))))"

text \<open>\<^verbatim>\<open>MustNew\<close> panics instead: \<^const>\<open>None\<close>.\<close>

definition logger_MustNew :: "logger_Config \<Rightarrow> slogger option" where
  "logger_MustNew cfg = (case logger_New cfg of Inl _ \<Rightarrow> None | Inr l \<Rightarrow> Some l)"

definition handler_WithAttrs :: "slogger \<Rightarrow> attr list \<Rightarrow> slogger" where
  "handler_WithAttrs l as = l\<lparr>lg_attrs := lg_attrs l @ as\<rparr>"

definition handler_WithGroup :: "slogger \<Rightarrow> string \<Rightarrow> slogger" where
  "handler_WithGroup l g = l\<lparr>lg_groups := lg_groups l @ [g]\<rparr>"

text \<open>
  \<^verbatim>\<open>contextHandler.Handle\<close>, given the attributes of the context and its valid span, if any.
  A record below the level of the logger is not handled at all.
\<close>

definition handler_Handle ::
  "slogger \<Rightarrow> attr list \<Rightarrow> (string \<times> string) option \<Rightarrow> log_level \<Rightarrow> string \<Rightarrow> attr list \<Rightarrow> log_record option" where
  "handler_Handle l ctx_attrs span level msg as =
     (if level < lg_level l then None
      else
        let extra = (if lg_context l
              then ctx_attrs @ (case span of None \<Rightarrow> [] | Some (t, s) \<Rightarrow> [(''trace_id'', t), (''span_id'', s)])
              else []) in
        Some \<lparr>rec_level = level, rec_msg = msg, rec_groups = lg_groups l, rec_attrs = lg_attrs l @ as @ extra\<rparr>)"

definition slog_Default :: slogger where
  "slog_Default =
     \<lparr>lg_level = LevelInfo, lg_format = ''default'', lg_source = False, lg_attrs = [], lg_groups = [], lg_context = False\<rparr>"

text \<open>Loggers derived from another by adding attributes or groups.\<close>

inductive derived :: "slogger \<Rightarrow> slogger \<Rightarrow> bool" where
  derived_refl: "derived l l"
| derived_attrs: "derived l k \<Longrightarrow> derived l (handler_WithAttrs k as)"
| derived_group: "derived l k \<Longrightarrow> derived l (handler_WithGroup k g)"

lemma derived_keeps:
  "derived l k \<Longrightarrow> lg_context k = lg_context l \<and> lg_level k = lg_level l \<and> (\<exists>more. lg_attrs k = lg_attrs l @ more)"
  by (induction rule: derived.induct) (auto simp: handler_WithAttrs_def handler_WithGroup_def)

lemma logger_New_InrD:
  assumes "logger_New cfg = Inr l"
  shows "lg_context l" and "lg_groups l = []" and "ParseLevel (log_Level cfg) = Inr (lg_level l)"
    and "log_Service cfg \<noteq> [] \<Longrightarrow> (''service'', log_Service cfg) \<in> set (lg_attrs l)"
  using assms by (auto simp: logger_New_def Let_def split: sum.splits if_splits)

text \<open>
  C28. The context reaches the log: a logger made by \<^verbatim>\<open>New\<close>, and every logger derived from it
  with attributes or groups, writes each record at or above the configured level with all
  attributes of the context, with the trace when there is one, and with the name of the
  service, and writes nothing below the level.
\<close>

theorem context_attributes_are_logged:
  assumes "logger_New cfg = Inr l" and "derived l k"
  shows "(handler_Handle k as span level msg args = None \<longleftrightarrow> level < lg_level l) \<and>
    (\<forall>r. handler_Handle k as span level msg args = Some r \<longrightarrow>
      set as \<subseteq> set (rec_attrs r) \<and> set args \<subseteq> set (rec_attrs r) \<and>
      (\<forall>t s. span = Some (t, s) \<longrightarrow> (''trace_id'', t) \<in> set (rec_attrs r) \<and> (''span_id'', s) \<in> set (rec_attrs r)) \<and>
      (log_Service cfg \<noteq> [] \<longrightarrow> (''service'', log_Service cfg) \<in> set (rec_attrs r)))"
  using logger_New_InrD [OF assms(1)] derived_keeps [OF assms(2)]
  by (auto simp: handler_Handle_def Let_def split: if_splits)

definition sample_log_Config :: logger_Config where
  "sample_log_Config =
     \<lparr>log_Level = [], log_Format = [], log_AddSource = False, log_Service = ''auth'', log_Version = []\<rparr>"

theorem context_attributes_are_logged_witness:
  "\<exists>l. logger_New sample_log_Config = Inr l \<and> lg_level l = LevelInfo \<and>
     (handler_Handle (handler_WithGroup l ''g'') [(''request_id'', ''r1'')] None LevelDebug ''m'' [] = None)"
proof -
  obtain l where l: "logger_New sample_log_Config = Inr l" and lv: "lg_level l = LevelInfo"
    by (simp add: logger_New_def sample_log_Config_def ParseLevel_def ToLower_def trim_eval string_of_runes_def Let_def)
  have d: "derived l (handler_WithGroup l ''g'')" by (intro derived_group derived_refl)
  from context_attributes_are_logged [OF l d]
  have "handler_Handle (handler_WithGroup l ''g'') [(''request_id'', ''r1'')] None LevelDebug ''m'' [] = None"
    by (simp add: lv less_log_level_def)
  with l lv show ?thesis by blast
qed

end
