(* ===== verification/Request_Context.thy ===== *)
theory Request_Context
  imports Token Logger
begin

text \<open>
  What a request's \<^verbatim>\<open>context.Context\<close> carries, and the functions that put values into it and
  read them back: \<^verbatim>\<open>requestid\<close>, \<^verbatim>\<open>token/context.go\<close>, the context part of \<^verbatim>\<open>logger\<close>, and
  \<^verbatim>\<open>WithToken\<close> of \<^verbatim>\<open>grpcclient\<close>. Each package uses a private key type, so the values are
  independent fields of a record; what the transport provides (peer, metadata, deadline)
  is there as well.
\<close>

section \<open>Metadata\<close>

text \<open>gRPC metadata: the values under each (lower-case) key; absent is the empty list.\<close>

type_synonym MD = "string \<Rightarrow> string list"

definition md_empty :: MD where "md_empty = (\<lambda>_. [])"

record ctx =
  ctx_claims :: "Claims option"
  ctx_request_id :: "string option"
  ctx_logger :: "slogger option"
  ctx_log_attrs :: "attr list"
  ctx_token :: "string option"
  ctx_incoming :: "MD option"
  ctx_outgoing :: "MD option"
  ctx_peer :: "string option"
  ctx_deadline :: "instant option"

definition AppendToOutgoingContext :: "ctx \<Rightarrow> string \<Rightarrow> string \<Rightarrow> ctx" where
  "AppendToOutgoingContext c k v =
     (let md = (case ctx_outgoing c of None \<Rightarrow> md_empty | Some md \<Rightarrow> md) in
      c\<lparr>ctx_outgoing := Some (md(k := md k @ [v]))\<rparr>)"

section \<open>token\<close>

definition token_NewContext :: "ctx \<Rightarrow> Claims \<Rightarrow> ctx" where
  "token_NewContext c claims = c\<lparr>ctx_claims := Some claims\<rparr>"

definition token_FromContext :: "ctx \<Rightarrow> Claims option" where
  "token_FromContext c = ctx_claims c"

definition token_UserID :: "ctx \<Rightarrow> string" where
  "token_UserID c = (case token_FromContext c of None \<Rightarrow> [] | Some claims \<Rightarrow> Subject claims)"

definition token_HasRole :: "ctx \<Rightarrow> string \<Rightarrow> bool" where
  "token_HasRole c role \<longleftrightarrow> token_FromContext c \<noteq> None \<and> HasRole (token_FromContext c) role"

section \<open>requestid\<close>

definition request_id_key :: string where "request_id_key = ''x-request-id''"

definition requestid_NewContext :: "ctx \<Rightarrow> string \<Rightarrow> ctx" where
  "requestid_NewContext c i = c\<lparr>ctx_request_id := Some i\<rparr>"

text \<open>An empty id counts as absent.\<close>

definition requestid_FromContext :: "ctx \<Rightarrow> string option" where
  "requestid_FromContext c =
     (case ctx_request_id c of Some i \<Rightarrow> if i \<noteq> [] then Some i else None | None \<Rightarrow> None)"

definition requestid_Get :: "ctx \<Rightarrow> string" where
  "requestid_Get c = (case ctx_request_id c of Some i \<Rightarrow> i | None \<Rightarrow> [])"

section \<open>logger\<close>

definition logger_Attrs :: "ctx \<Rightarrow> attr list \<Rightarrow> ctx" where
  "logger_Attrs c as = (if as = [] then c else c\<lparr>ctx_log_attrs := ctx_log_attrs c @ as\<rparr>)"

definition logger_Into :: "ctx \<Rightarrow> slogger \<Rightarrow> ctx" where
  "logger_Into c l = c\<lparr>ctx_logger := Some l\<rparr>"

definition logger_From :: "ctx \<Rightarrow> slogger" where
  "logger_From c = (case ctx_logger c of Some l \<Rightarrow> l | None \<Rightarrow> slog_Default)"

definition logger_With :: "ctx \<Rightarrow> attr list \<Rightarrow> ctx" where
  "logger_With c as = logger_Into c (handler_WithAttrs (logger_From c) as)"

section \<open>grpcclient/token.go: the token of a context\<close>

definition WithToken :: "ctx \<Rightarrow> string \<Rightarrow> ctx" where
  "WithToken c raw = (if raw = [] then c else c\<lparr>ctx_token := Some raw\<rparr>)"

definition TokenFromContext :: "ctx \<Rightarrow> string option" where
  "TokenFromContext c = (case ctx_token c of Some raw \<Rightarrow> if raw \<noteq> [] then Some raw else None | None \<Rightarrow> None)"

section \<open>Bearer headers\<close>

text \<open>
  Server and client read the header \<^verbatim>\<open>authorization\<close> in the same way: the scheme is
  compared without regard to case on the first bytes, the rest is trimmed.
\<close>

definition authorization_key :: string where "authorization_key = ''authorization''"
definition bearer_prefix :: string where "bearer_prefix = ''bearer ''"

definition strip_bearer :: "string \<Rightarrow> string option" where
  "strip_bearer header =
     (if length header < length bearer_prefix \<or>
         \<not> equal_fold (take (length bearer_prefix) header) bearer_prefix then None
      else Some (trim_space (drop (length bearer_prefix) header)))"

lemma strip_bearer_Bearer: "trimmed raw \<Longrightarrow> strip_bearer (''Bearer '' @ raw) = Some raw"
  by (simp add: strip_bearer_def bearer_prefix_def equal_fold_eval trim_space_trimmed)

lemmas ctx_ops =
  token_NewContext_def token_FromContext_def requestid_NewContext_def requestid_FromContext_def
  logger_Attrs_def logger_Into_def AppendToOutgoingContext_def

end
