(* ===== verification/Grpc_Server.thy ===== *)
theory Grpc_Server
  imports Request_Context Metrics_Registry
begin

text \<open>
  The package \<^verbatim>\<open>grpcserver\<close>: the interceptors of a server, the mapping of errors to
  statuses, and the chain that \<^verbatim>\<open>newGRPCServer\<close> builds.

  A handler is a function of the context, the request and the server's observable state
  (metrics, log, response headers, and the state \<open>app\<close> of the application itself); it
  returns a response and an error, or panics. A unary interceptor takes the full method name
  and the handler it wraps. Of the library \<^verbatim>\<open>google.golang.org/grpc/status\<close> the package uses
  \<^verbatim>\<open>FromError\<close>; it is the argument \<open>fe\<close>, with \<open>status_documented\<close> as what is relied on.
\<close>

section \<open>Handlers and interceptors\<close>

datatype 'a outcome = Returned "'a option" "goerr option" | Panicked string

record 'x server =
  requests_total :: "string \<times> string \<Rightarrow> nat"
  request_durations :: "(string \<times> duration) list"
  in_flight :: "string \<Rightarrow> int"
  log_records :: "log_record list"
  response_headers :: "(string \<times> string) list"
  app :: 'x

type_synonym ('q, 'a, 'x) handler = "ctx \<Rightarrow> 'q \<Rightarrow> 'x server \<Rightarrow> 'a outcome \<times> 'x server"
type_synonym ('q, 'a, 'x) interceptor = "string \<Rightarrow> ('q, 'a, 'x) handler \<Rightarrow> ('q, 'a, 'x) handler"
type_synonym 'x stream_handler = "ctx \<Rightarrow> 'x server \<Rightarrow> unit outcome \<times> 'x server"
type_synonym 'x stream_interceptor = "string \<Rightarrow> 'x stream_handler \<Rightarrow> 'x stream_handler"

definition status_Error :: "code \<Rightarrow> string \<Rightarrow> goerr" where
  "status_Error c msg = StatusError c msg []"

definition write_log :: "slogger \<Rightarrow> ctx \<Rightarrow> log_level \<Rightarrow> string \<Rightarrow> attr list \<Rightarrow> 'x server \<Rightarrow> 'x server" where
  "write_log l c level msg as s =
     (case handler_Handle l (ctx_log_attrs c) None level msg as of
        None \<Rightarrow> s | Some r \<Rightarrow> s\<lparr>log_records := log_records s @ [r]\<rparr>)"

definition orDefaultLogger :: "slogger option \<Rightarrow> slogger" where
  "orDefaultLogger l = (case l of Some x \<Rightarrow> x | None \<Rightarrow> slog_Default)"

definition metadataValue :: "MD \<Rightarrow> string \<Rightarrow> string" where
  "metadataValue md k = (case md k of [] \<Rightarrow> [] | v # _ \<Rightarrow> v)"

section \<open>Errors\<close>

type_synonym from_error = "goerr \<Rightarrow> (code \<times> string \<times> detail list) option"

definition status_documented :: "from_error \<Rightarrow> bool" where
  "status_documented fe \<longleftrightarrow>
     (\<forall>c m ds. fe (StatusError c m ds) = Some (c, m, ds)) \<and>
     (\<forall>e. fe e \<noteq> None \<longleftrightarrow> (\<exists>c m ds. StatusError c m ds \<in> set (walk e)))"

definition status_Code :: "from_error \<Rightarrow> goerr option \<Rightarrow> code" where
  "status_Code fe err =
     (case err of None \<Rightarrow> codes_OK
      | Some e \<Rightarrow> (case fe e of Some (c, _, _) \<Rightarrow> c | None \<Rightarrow> codes_Unknown))"

fun CodeOf :: "Kind \<Rightarrow> code" where
  "CodeOf KindInvalidArgument = codes_InvalidArgument"
| "CodeOf KindUnauthenticated = codes_Unauthenticated"
| "CodeOf KindPermissionDenied = codes_PermissionDenied"
| "CodeOf KindNotFound = codes_NotFound"
| "CodeOf KindAlreadyExists = codes_AlreadyExists"
| "CodeOf KindConflict = codes_Aborted"
| "CodeOf KindFailedPrecondition = codes_FailedPrecondition"
| "CodeOf KindRateLimited = codes_ResourceExhausted"
| "CodeOf KindTimeout = codes_DeadlineExceeded"
| "CodeOf KindUnavailable = codes_Unavailable"
| "CodeOf _ = codes_Internal"

definition errorDomain :: string where "errorDomain = ''hockeynights''"

definition internal_status :: goerr where
  "internal_status = status_Error codes_Internal ''internal server error''"

text \<open>\<^verbatim>\<open>WithDetails\<close> fails for a detail that is not valid protobuf text; the status is then sent without.\<close>

definition with_reason :: "string \<Rightarrow> detail list" where
  "with_reason reason = (if reason \<noteq> [] \<and> utf8_valid reason then [ErrorInfo reason errorDomain] else [])"

definition MapError :: "from_error \<Rightarrow> goerr option \<Rightarrow> goerr option" where
  "MapError fe err =
     (case err of
        None \<Rightarrow> None
      | Some e \<Rightarrow>
          (case apperr_As err of
             Some (AppError k c m _ _) \<Rightarrow>
               if CodeOf k = codes_Internal then Some internal_status
               else Some (StatusError (CodeOf k) m (with_reason c))
           | _ \<Rightarrow>
               if fe e \<noteq> None then Some e
               else if errors_Is err ContextCanceled then Some (status_Error codes_Canceled ''request canceled'')
               else if errors_Is err ContextDeadlineExceeded
               then Some (status_Error codes_DeadlineExceeded ''request timed out'')
               else Some internal_status))"

definition ErrorMappingUnaryInterceptor :: "from_error \<Rightarrow> ('q, 'a, 'x) interceptor" where
  "ErrorMappingUnaryInterceptor fe meth h c q s =
     (case h c q s of
        (Returned resp None, s') \<Rightarrow> (Returned resp None, s')
      | (Returned _ (Some e), s') \<Rightarrow> (Returned None (MapError fe (Some e)), s')
      | (Panicked p, s') \<Rightarrow> (Panicked p, s'))"

definition ErrorMappingStreamInterceptor :: "from_error \<Rightarrow> 'x stream_interceptor" where
  "ErrorMappingStreamInterceptor fe meth h c s =
     (case h c s of
        (Returned r err, s') \<Rightarrow> (Returned (if err = None then r else None) (MapError fe err), s')
      | (Panicked p, s') \<Rightarrow> (Panicked p, s'))"

section \<open>Logging, recovery, timeout\<close>

fun isServerFault :: "code \<Rightarrow> bool" where
  "isServerFault codes_Unknown = True"
| "isServerFault codes_Internal = True"
| "isServerFault codes_DataLoss = True"
| "isServerFault codes_Unimplemented = True"
| "isServerFault _ = False"

definition peerAddress :: "ctx \<Rightarrow> string" where
  "peerAddress c = (case ctx_peer c of Some a \<Rightarrow> a | None \<Rightarrow> [])"

text \<open>Alternating keys and values; a key without a value is dropped.\<close>

fun toAttrs :: "string list \<Rightarrow> attr list" where
  "toAttrs (k # v # rest) = (k, v) # toAttrs rest"
| "toAttrs _ = []"

definition milliseconds :: "duration \<Rightarrow> int" where
  "milliseconds d = d sdiv 1000000"

definition logRequest ::
  "from_error \<Rightarrow> ctx \<Rightarrow> slogger \<Rightarrow> string \<Rightarrow> duration \<Rightarrow> goerr option \<Rightarrow> 'x server \<Rightarrow> 'x server" where
  "logRequest fe c l meth took err s =
     (let code = status_Code fe err;
          attrs = [''method'', meth, ''code'', code_String code, ''duration_ms'', itoa (milliseconds took)] @
            (if requestid_Get c \<noteq> [] then [''request_id'', requestid_Get c] else []) @
            (if peerAddress c \<noteq> [] then [''peer'', peerAddress c] else []) in
      case err of
        None \<Rightarrow> write_log l c LevelInfo ''grpc request handled'' (toAttrs attrs) s
      | Some e \<Rightarrow>
          write_log l c (if isServerFault code then LevelError else LevelWarn) ''grpc request failed''
            (toAttrs (attrs @ [''error'', error_text e])) s)"

text \<open>\<open>took\<close> is the time the handler takes.\<close>

definition LoggingUnaryInterceptor ::
  "from_error \<Rightarrow> slogger option \<Rightarrow> string list \<Rightarrow> duration \<Rightarrow> ('q, 'a, 'x) interceptor" where
  "LoggingUnaryInterceptor fe log skip took meth h c q s =
     (let l = orDefaultLogger log in
      if meth \<in> set skip then h c q s
      else
        let c' = logger_Into c l in
        case h c' q s of
          (Returned resp err, s') \<Rightarrow> (Returned resp err, logRequest fe c' l meth took err s')
        | (Panicked p, s') \<Rightarrow> (Panicked p, s'))"

definition LoggingStreamInterceptor ::
  "from_error \<Rightarrow> slogger option \<Rightarrow> string list \<Rightarrow> duration \<Rightarrow> 'x stream_interceptor" where
  "LoggingStreamInterceptor fe log skip took meth h c s =
     (let l = orDefaultLogger log in
      if meth \<in> set skip then h c s
      else
        let c' = logger_Into c l in
        case h c' s of
          (Returned resp err, s') \<Rightarrow> (Returned resp err, logRequest fe c' l meth took err s')
        | (Panicked p, s') \<Rightarrow> (Panicked p, s'))"

definition logPanic :: "ctx \<Rightarrow> slogger \<Rightarrow> string \<Rightarrow> string \<Rightarrow> string \<Rightarrow> 'x server \<Rightarrow> 'x server" where
  "logPanic c l meth recovered stack s =
     write_log l c LevelError ''grpc panic recovered''
       [(''method'', meth), (''panic'', recovered), (''request_id'', requestid_Get c), (''stack'', stack)] s"

definition RecoveryUnaryInterceptor :: "slogger option \<Rightarrow> string \<Rightarrow> ('q, 'a, 'x) interceptor" where
  "RecoveryUnaryInterceptor log stack meth h c q s =
     (case h c q s of
        (Panicked p, s') \<Rightarrow> (Returned None (Some internal_status), logPanic c (orDefaultLogger log) meth p stack s')
      | r \<Rightarrow> r)"

definition RecoveryStreamInterceptor :: "slogger option \<Rightarrow> string \<Rightarrow> 'x stream_interceptor" where
  "RecoveryStreamInterceptor log stack meth h c s =
     (case h c s of
        (Panicked p, s') \<Rightarrow> (Returned None (Some internal_status), logPanic c (orDefaultLogger log) meth p stack s')
      | r \<Rightarrow> r)"

definition TimeoutUnaryInterceptor :: "instant \<Rightarrow> duration \<Rightarrow> ('q, 'a, 'x) interceptor" where
  "TimeoutUnaryInterceptor now timeout meth h c q s =
     (if ctx_deadline c \<noteq> None \<or> timeout \<le> 0 then h c q s
      else h (c\<lparr>ctx_deadline := Some (now + timeout)\<rparr>) q s)"

section \<open>Request ids\<close>

text \<open>\<open>fresh\<close> is what \<^verbatim>\<open>requestid.Generate\<close> returns.\<close>

definition withRequestID :: "string \<Rightarrow> ctx \<Rightarrow> ctx \<times> string" where
  "withRequestID fresh c =
     (let given = (case ctx_incoming c of Some md \<Rightarrow> metadataValue md request_id_key | None \<Rightarrow> []);
          i = (if given = [] then fresh else given) in
      (logger_Attrs (requestid_NewContext c i) [(''request_id'', i)], i))"

definition SetHeader :: "string \<Rightarrow> string \<Rightarrow> 'x server \<Rightarrow> 'x server" where
  "SetHeader k v s = s\<lparr>response_headers := response_headers s @ [(k, v)]\<rparr>"

definition RequestIDUnaryInterceptor :: "string \<Rightarrow> ('q, 'a, 'x) interceptor" where
  "RequestIDUnaryInterceptor fresh meth h c q s =
     (let (c', i) = withRequestID fresh c in h c' q (SetHeader request_id_key i s))"

definition RequestIDStreamInterceptor :: "string \<Rightarrow> 'x stream_interceptor" where
  "RequestIDStreamInterceptor fresh meth h c s =
     (let (c', i) = withRequestID fresh c in h c' (SetHeader request_id_key i s))"

section \<open>Metrics\<close>

text \<open>The result \<^const>\<open>None\<close> is a panic: the histogram's bounds are out of order, or a name is taken.\<close>

definition server_NewMetrics :: "registry \<Rightarrow> registry option" where
  "server_NewMetrics reg =
     (if \<not> increasing DurationBuckets then None
      else MustRegister {''grpc_server_requests_total'', ''grpc_server_request_duration_seconds'',
             ''grpc_server_requests_in_flight''} reg)"

definition metrics_observe :: "from_error \<Rightarrow> string \<Rightarrow> duration \<Rightarrow> goerr option \<Rightarrow> 'x server \<Rightarrow> 'x server" where
  "metrics_observe fe meth took err s =
     (let k = (meth, code_String (status_Code fe err)) in
      s\<lparr>requests_total := (requests_total s)(k := Suc (requests_total s k)),
        request_durations := request_durations s @ [(meth, took)]\<rparr>)"

definition add_in_flight :: "int \<Rightarrow> string \<Rightarrow> 'x server \<Rightarrow> 'x server" where
  "add_in_flight d meth s = s\<lparr>in_flight := (in_flight s)(meth := in_flight s meth + d)\<rparr>"

definition MetricsUnaryInterceptor :: "from_error \<Rightarrow> duration \<Rightarrow> ('q, 'a, 'x) interceptor" where
  "MetricsUnaryInterceptor fe took meth h c q s =
     (case h c q (add_in_flight 1 meth s) of
        (Returned resp err, s') \<Rightarrow> (Returned resp err, add_in_flight (- 1) meth (metrics_observe fe meth took err s'))
      | (Panicked p, s') \<Rightarrow> (Panicked p, add_in_flight (- 1) meth s'))"

definition MetricsStreamInterceptor :: "from_error \<Rightarrow> duration \<Rightarrow> 'x stream_interceptor" where
  "MetricsStreamInterceptor fe took meth h c s =
     (case h c (add_in_flight 1 meth s) of
        (Returned resp err, s') \<Rightarrow> (Returned resp err, add_in_flight (- 1) meth (metrics_observe fe meth took err s'))
      | (Panicked p, s') \<Rightarrow> (Panicked p, add_in_flight (- 1) meth s'))"

section \<open>Authentication\<close>

definition BearerToken :: "ctx \<Rightarrow> string result" where
  "BearerToken c =
     (case ctx_incoming c of
        None \<Rightarrow> Inl (status_Error codes_Unauthenticated ''missing credentials'')
      | Some md \<Rightarrow>
          let header = metadataValue md authorization_key in
          if header = [] then Inl (status_Error codes_Unauthenticated ''missing credentials'')
          else
            (case strip_bearer header of
               None \<Rightarrow> Inl (status_Error codes_Unauthenticated ''invalid authorization scheme'')
             | Some raw \<Rightarrow>
                 if raw = [] then Inl (status_Error codes_Unauthenticated ''missing credentials'') else Inr raw))"

type_synonym Authenticator = "ctx \<Rightarrow> string \<Rightarrow> ctx result"

record AuthConfig =
  Authenticate :: "Authenticator option"
  PublicMethods :: "string list"
  Optional :: bool

definition authenticate :: "ctx \<Rightarrow> AuthConfig \<Rightarrow> 'x server \<Rightarrow> ctx result \<times> 'x server" where
  "authenticate c cfg s =
     (case Authenticate cfg of
        None \<Rightarrow> (Inl (status_Error codes_Internal ''authenticator is not configured''), s)
      | Some auth \<Rightarrow>
          (case BearerToken c of
             Inl e \<Rightarrow> if Optional cfg then (Inr c, s) else (Inl e, s)
           | Inr raw \<Rightarrow>
               (case auth c raw of
                  Inl e \<Rightarrow> (Inl (status_Error codes_Unauthenticated ''invalid credentials''),
                     write_log (logger_From c) c LevelWarn ''authentication failed'' [(''error'', error_text e)] s)
                | Inr c' \<Rightarrow> (Inr c', s))))"

definition AuthUnaryInterceptor :: "AuthConfig \<Rightarrow> ('q, 'a, 'x) interceptor" where
  "AuthUnaryInterceptor cfg meth h c q s =
     (if meth \<in> set (PublicMethods cfg) then h c q s
      else case authenticate c cfg s of
        (Inl e, s') \<Rightarrow> (Returned None (Some e), s')
      | (Inr c', s') \<Rightarrow> h c' q s')"

definition AuthStreamInterceptor :: "AuthConfig \<Rightarrow> 'x stream_interceptor" where
  "AuthStreamInterceptor cfg meth h c s =
     (if meth \<in> set (PublicMethods cfg) then h c s
      else case authenticate c cfg s of
        (Inl e, s') \<Rightarrow> (Returned None (Some e), s')
      | (Inr c', s') \<Rightarrow> h c' s')"

definition TokenAuthenticator :: "jwt \<Rightarrow> Manager \<Rightarrow> instant \<Rightarrow> Authenticator" where
  "TokenAuthenticator lib m now c raw =
     (case ParseAccess lib m now raw of
        Inl e \<Rightarrow> Inl e
      | Inr claims \<Rightarrow> Inr (logger_Attrs (token_NewContext c claims) [(''user_id'', Subject claims)]))"

definition RequireRole :: "string list \<Rightarrow> ('q, 'a, 'x) interceptor" where
  "RequireRole roles meth h c q s =
     (case token_FromContext c of
        None \<Rightarrow> (Returned None (Some (status_Error codes_Unauthenticated ''missing credentials'')), s)
      | Some claims \<Rightarrow>
          if \<exists>role \<in> set roles. HasRole (Some claims) role then h c q s
          else (Returned None (Some (status_Error codes_PermissionDenied ''insufficient permissions'')), s))"

record InternalAuthConfig =
  int_Manager :: "Manager option"
  int_Methods :: "string list"
  int_Role :: string

definition InternalAuthUnaryInterceptor ::
  "jwt \<Rightarrow> instant \<Rightarrow> InternalAuthConfig \<Rightarrow> ('q, 'a, 'x) interceptor" where
  "InternalAuthUnaryInterceptor lib now cfg meth h c q s =
     (let role = (if int_Role cfg = [] then RoleService else int_Role cfg) in
      if meth \<notin> set (int_Methods cfg) then h c q s
      else case int_Manager cfg of
        None \<Rightarrow> (Returned None (Some (status_Error codes_Internal ''internal authenticator is not configured'')), s)
      | Some m \<Rightarrow>
          (case BearerToken c of
             Inl e \<Rightarrow> (Returned None (Some e), s)
           | Inr raw \<Rightarrow>
               (case ParseAccess lib m now raw of
                  Inl e \<Rightarrow> (Returned None (Some (status_Error codes_Unauthenticated ''invalid credentials'')),
                     write_log (logger_From c) c LevelWarn ''internal authentication failed''
                       [(''method'', meth), (''error'', error_text e)] s)
                | Inr claims \<Rightarrow>
                    if \<not> HasRole (Some claims) role then
                      (Returned None (Some (status_Error codes_PermissionDenied ''insufficient permissions'')),
                       write_log (logger_From c) c LevelWarn ''internal call without required role''
                         [(''method'', meth), (''subject'', Subject claims)] s)
                    else h (logger_Attrs (token_NewContext c claims) [(''caller_service'', Subject claims)]) q s)))"

section \<open>Validation\<close>

text \<open>
  The validator is an argument: what it says of a request, and how \<^verbatim>\<open>errors.As\<close> finds its
  violations in an error. A violation has a field path, a rule id and a message, or no
  description at all.
\<close>

type_synonym violation = "(string \<times> string \<times> string) option"

record 'q validator =
  is_message :: "'q \<Rightarrow> bool"
  Validate :: "'q \<Rightarrow> goerr option"
  violations_of :: "goerr \<Rightarrow> violation list option"

fun join :: "string \<Rightarrow> string list \<Rightarrow> string" where
  "join sep [] = []"
| "join sep [x] = x"
| "join sep (x # y # zs) = x @ sep @ join sep (y # zs)"

definition field_violations :: "violation list \<Rightarrow> (string \<times> string) list" where
  "field_violations vs =
     concat (map (\<lambda>v. case v of None \<Rightarrow> []
       | Some (field, rule, msg) \<Rightarrow> [(if field = [] then rule else field, msg)]) vs)"

definition validationStatus :: "'q validator \<Rightarrow> goerr \<Rightarrow> goerr" where
  "validationStatus v err =
     (case violations_of v err of
        None \<Rightarrow> status_Error codes_Internal ''validation failed''
      | Some vs \<Rightarrow>
          let fs = field_violations vs; msg = join ''; '' (map (\<lambda>(f, d). f @ '': '' @ d) fs) in
          StatusError codes_InvalidArgument msg
            (if \<forall>(f, d) \<in> set fs. utf8_valid f \<and> utf8_valid d then [BadRequest fs] else []))"

definition ValidationUnaryInterceptor :: "'q validator result \<Rightarrow> ('q, 'a, 'x) interceptor result" where
  "ValidationUnaryInterceptor created =
     (case created of
        Inl e \<Rightarrow> Inl (errorf ''grpcserver: create validator: '' e)
      | Inr v \<Rightarrow> Inr (\<lambda>meth h c q s.
          if \<not> is_message v q then h c q s
          else case Validate v q of
            Some e \<Rightarrow> (Returned None (Some (validationStatus v e)), s)
          | None \<Rightarrow> h c q s))"

text \<open>Where the interceptor cannot be made, \<^verbatim>\<open>MustValidationUnaryInterceptor\<close> panics with the text of the error.\<close>

definition MustValidationUnaryInterceptor :: "'q validator result \<Rightarrow> string + ('q, 'a, 'x) interceptor" where
  "MustValidationUnaryInterceptor created =
     (case ValidationUnaryInterceptor created of Inl e \<Rightarrow> Inl (error_text e) | Inr ic \<Rightarrow> Inr ic)"

section \<open>The chain\<close>

text \<open>The first interceptor of a chain is the outermost.\<close>

definition chain_unary :: "('q, 'a, 'x) interceptor list \<Rightarrow> ('q, 'a, 'x) interceptor" where
  "chain_unary ics meth h = foldr (\<lambda>ic acc. ic meth acc) ics h"

definition chain_stream :: "'x stream_interceptor list \<Rightarrow> 'x stream_interceptor" where
  "chain_stream ics meth h = foldr (\<lambda>ic acc. ic meth acc) ics h"

text \<open>The parts of the server's configuration that shape the chain, and one call's surroundings.\<close>

record grpc_Config =
  srv_Logger :: "slogger option"
  srv_Registry :: bool
  srv_LogSkipMethods :: "string list"

record call_env =
  fresh_id :: string
  stack_trace :: string
  handler_took :: duration

definition server_unary ::
  "from_error \<Rightarrow> grpc_Config \<Rightarrow> ('q, 'a, 'x) interceptor list \<Rightarrow> call_env \<Rightarrow> ('q, 'a, 'x) interceptor list" where
  "server_unary fe cfg user env =
     [RecoveryUnaryInterceptor (srv_Logger cfg) (stack_trace env), RequestIDUnaryInterceptor (fresh_id env),
      LoggingUnaryInterceptor fe (srv_Logger cfg) (srv_LogSkipMethods cfg) (handler_took env)] @
     (if srv_Registry cfg then [MetricsUnaryInterceptor fe (handler_took env)] else []) @
     [ErrorMappingUnaryInterceptor fe] @ user"

definition server_stream ::
  "from_error \<Rightarrow> grpc_Config \<Rightarrow> 'x stream_interceptor list \<Rightarrow> call_env \<Rightarrow> 'x stream_interceptor list" where
  "server_stream fe cfg user env =
     [RecoveryStreamInterceptor (srv_Logger cfg) (stack_trace env), RequestIDStreamInterceptor (fresh_id env),
      LoggingStreamInterceptor fe (srv_Logger cfg) (srv_LogSkipMethods cfg) (handler_took env)] @
     (if srv_Registry cfg then [MetricsStreamInterceptor fe (handler_took env)] else []) @
     [ErrorMappingStreamInterceptor fe] @ user"

section \<open>Gates\<close>

text \<open>
  The contract of an interceptor that guards a handler: without consulting the handler it
  either refuses with a status, or passes the request on, exactly once, perhaps in another
  context. It leaves the application and the metrics alone.
\<close>

definition untouched :: "'x server \<Rightarrow> 'x server \<Rightarrow> bool" where
  "untouched s s' \<longleftrightarrow> app s' = app s \<and> in_flight s' = in_flight s \<and> requests_total s' = requests_total s"

lemma untouched_refl [simp]: "untouched s s"
  by (simp add: untouched_def)

lemma untouched_trans: "untouched s t \<Longrightarrow> untouched t u \<Longrightarrow> untouched s u"
  by (simp add: untouched_def)

lemma untouched_write_log [simp]: "untouched s (write_log l c level msg as s)"
  by (simp add: untouched_def write_log_def split: option.splits)

lemma untouched_SetHeader [simp]: "untouched s (SetHeader k v s)"
  by (simp add: untouched_def SetHeader_def)

definition gated :: "('q, 'a, 'x) interceptor \<Rightarrow> string \<Rightarrow> ctx \<Rightarrow> 'q \<Rightarrow> 'x server \<Rightarrow> bool" where
  "gated ic meth c q s \<longleftrightarrow>
     (\<exists>code msg ds s'. untouched s s' \<and> (\<forall>h. ic meth h c q s = (Returned None (Some (StatusError code msg ds)), s'))) \<or>
     (\<exists>c' s'. untouched s s' \<and> (\<forall>h. ic meth h c q s = h c' q s'))"

lemma gated_refuse:
  "(\<And>h. ic meth h c q s = (Returned None (Some (StatusError code msg ds)), s')) \<Longrightarrow> untouched s s' \<Longrightarrow>
    gated ic meth c q s"
  unfolding gated_def by blast

lemma gated_pass: "(\<And>h. ic meth h c q s = h c' q s') \<Longrightarrow> untouched s s' \<Longrightarrow> gated ic meth c q s"
  unfolding gated_def by blast

locale gate =
  fixes ic :: "('q, 'a, 'x) interceptor"
  assumes refuses_or_passes: "gated ic meth c q s"
begin

lemma gate_cases:
  obtains (refused) code msg ds s' where "untouched s s'"
      "\<And>h. ic meth h c q s = (Returned None (Some (StatusError code msg ds)), s')"
  | (passed) c' s' where "untouched s s'" "\<And>h. ic meth h c q s = h c' q s'"
  using refuses_or_passes [of meth c q s] unfolding gated_def by metis

text \<open>An application that has changed was changed by the handler, which the gate let run.\<close>

lemma refused_not_run:
  assumes "ic meth h c q s = (out, s')" and "app s' \<noteq> app s"
  shows "\<exists>c0 s0. untouched s s0 \<and> h c0 q s0 = (out, s')"
  by (rule gate_cases [of s meth c q]) (use assms in \<open>auto simp: untouched_def\<close>)

end

lemma gate_chain: "(\<And>ic. ic \<in> set ics \<Longrightarrow> gate ic) \<Longrightarrow> gate (chain_unary ics)"
proof (induction ics)
  case Nil
  show ?case by unfold_locales (rule gated_pass, auto simp: chain_unary_def)
next
  case (Cons ic ics)
  then have g: "gate ic" and gs: "gate (chain_unary ics)" by auto
  have step: "chain_unary (ic # ics) meth h = ic meth (chain_unary ics meth h)" for meth h
    by (simp add: chain_unary_def)
  show ?case
  proof unfold_locales
    fix meth c q s
    show "gated (chain_unary (ic # ics)) meth c q s"
    proof (cases rule: gate.gate_cases [OF g, of s meth c q])
      case (1 code msg ds s')
      show ?thesis by (rule gated_refuse [OF _ 1(1)]) (simp add: step 1(2))
    next
      case (2 c1 s1)
      show ?thesis
      proof (cases rule: gate.gate_cases [OF gs, of s1 meth c1 q])
        case (1 code msg ds s')
        show ?thesis by (rule gated_refuse [OF _ untouched_trans [OF 2(1) 1(1)]]) (simp add: step 1(2) 2(2))
      next
        case p: (2 c2 s2)
        show ?thesis by (rule gated_pass [OF _ untouched_trans [OF 2(1) p(1)]]) (simp add: step 2(2) p(2))
      qed
    qed
  qed
qed

interpretation timeout_gate: gate "TimeoutUnaryInterceptor now timeout" for now timeout
proof unfold_locales
  fix meth c q s
  show "gated (TimeoutUnaryInterceptor now timeout) meth c q s"
    by (rule gated_pass [where s' = s and c' = "if ctx_deadline c \<noteq> None \<or> timeout \<le> 0 then c
        else c\<lparr>ctx_deadline := Some (now + timeout)\<rparr>"]) (auto simp: TimeoutUnaryInterceptor_def)
qed

interpretation request_id_gate: gate "RequestIDUnaryInterceptor fresh" for fresh
  by unfold_locales (rule gated_pass, auto simp: RequestIDUnaryInterceptor_def case_prod_beta Let_def)

lemma BearerToken_status: "BearerToken c = Inl e \<Longrightarrow> \<exists>msg. e = StatusError codes_Unauthenticated msg []"
  by (auto simp: BearerToken_def Let_def status_Error_def split: option.splits if_splits)

lemma authenticate_cases:
  assumes "authenticate c cfg s = (r, s')"
  shows "untouched s s'" and "r = Inl e \<Longrightarrow> \<exists>code msg ds. e = StatusError code msg ds"
  using assms BearerToken_status [of c]
  by (auto simp: authenticate_def status_Error_def split: option.splits sum.splits if_splits)

interpretation auth_gate: gate "AuthUnaryInterceptor cfg" for cfg
proof unfold_locales
  fix meth c q and s :: "'x server"
  obtain r s' where a: "authenticate c cfg s = (r, s')" by fastforce
  show "gated (AuthUnaryInterceptor cfg) meth c q s"
  proof (cases "meth \<in> set (PublicMethods cfg)")
    case True
    then show ?thesis by (intro gated_pass [where c' = c and s' = s]) (auto simp: AuthUnaryInterceptor_def)
  next
    case False
    show ?thesis
    proof (cases r)
      case (Inl e)
      with authenticate_cases(2) [OF a] obtain code msg ds where "e = StatusError code msg ds" by blast
      with False Inl a show ?thesis
        by (intro gated_refuse [OF _ authenticate_cases(1) [OF a]]) (simp add: AuthUnaryInterceptor_def)
    next
      case (Inr c')
      with False a show ?thesis
        by (intro gated_pass [OF _ authenticate_cases(1) [OF a], where c' = c']) (simp add: AuthUnaryInterceptor_def)
    qed
  qed
qed

interpretation role_gate: gate "RequireRole roles" for roles
proof unfold_locales
  fix meth c q s
  show "gated (RequireRole roles) meth c q s"
  proof (cases "\<exists>claims. token_FromContext c = Some claims \<and> (\<exists>role \<in> set roles. HasRole (Some claims) role)")
    case True
    then show ?thesis by (intro gated_pass [where c' = c and s' = s]) (auto simp: RequireRole_def)
  next
    case False
    then show ?thesis
      by (intro gated_refuse [where s' = s and ds = "[]" and
            code = "if token_FromContext c = None then codes_Unauthenticated else codes_PermissionDenied" and
            msg = "if token_FromContext c = None then ''missing credentials'' else ''insufficient permissions''"])
         (auto simp: RequireRole_def status_Error_def split: option.splits)
  qed
qed

text \<open>The internal interceptor: passed on, or refused, by what the token says.\<close>

definition internal_claims :: "jwt \<Rightarrow> instant \<Rightarrow> InternalAuthConfig \<Rightarrow> ctx \<Rightarrow> Claims option" where
  "internal_claims lib now cfg c =
     (case (int_Manager cfg, BearerToken c) of
        (Some m, Inr raw) \<Rightarrow>
          (case ParseAccess lib m now raw of
             Inr claims \<Rightarrow>
               if HasRole (Some claims) (if int_Role cfg = [] then RoleService else int_Role cfg)
               then Some claims else None
           | Inl _ \<Rightarrow> None)
      | _ \<Rightarrow> None)"

lemma internal_passed:
  "meth \<in> set (int_Methods cfg) \<Longrightarrow> internal_claims lib now cfg c = Some claims \<Longrightarrow>
    InternalAuthUnaryInterceptor lib now cfg meth h c q s =
      h (logger_Attrs (token_NewContext c claims) [(''caller_service'', Subject claims)]) q s"
  by (auto simp: internal_claims_def InternalAuthUnaryInterceptor_def Let_def
      split: option.splits sum.splits if_splits)

lemma internal_refused:
  assumes "meth \<in> set (int_Methods cfg)" and "internal_claims lib now cfg c = None"
  obtains code msg s' where "untouched s s'"
    and "\<And>h. InternalAuthUnaryInterceptor lib now cfg meth h c q s = (Returned None (Some (StatusError code msg [])), s')"
proof (cases "int_Manager cfg")
  case None
  with assms(1) show thesis
    by (intro that [OF untouched_refl]) (simp add: InternalAuthUnaryInterceptor_def status_Error_def)
next
  case (Some m)
  show thesis
  proof (cases "BearerToken c")
    case (Inl e)
    with BearerToken_status [OF Inl] obtain msg where "e = StatusError codes_Unauthenticated msg []" by blast
    with assms(1) Some Inl show thesis
      by (intro that [OF untouched_refl]) (simp add: InternalAuthUnaryInterceptor_def)
  next
    case (Inr raw)
    show thesis
    proof (cases "ParseAccess lib m now raw")
      case (Inl e)
      with assms(1) Some Inr show thesis
        by (intro that [OF untouched_write_log]) (simp add: InternalAuthUnaryInterceptor_def status_Error_def)
    next
      case r: (Inr claims)
      then have "\<not> HasRole (Some claims) (if int_Role cfg = [] then RoleService else int_Role cfg)"
        using assms(2) Some Inr by (auto simp: internal_claims_def split: if_splits)
      with assms(1) Some Inr r show thesis
        by (intro that [OF untouched_write_log]) (simp add: InternalAuthUnaryInterceptor_def status_Error_def Let_def)
    qed
  qed
qed

interpretation internal_gate: gate "InternalAuthUnaryInterceptor lib now cfg" for lib now cfg
proof unfold_locales
  fix meth c q and s :: "'x server"
  show "gated (InternalAuthUnaryInterceptor lib now cfg) meth c q s"
  proof (cases "meth \<in> set (int_Methods cfg)")
    case False
    then show ?thesis
      by (intro gated_pass [where c' = c and s' = s]) (auto simp: InternalAuthUnaryInterceptor_def Let_def)
  next
    case True
    show ?thesis
    proof (cases "internal_claims lib now cfg c")
      case None
      show ?thesis by (rule internal_refused [OF True None, of s q]) (rule gated_refuse)
    next
      case (Some claims)
      show ?thesis by (rule gated_pass, rule internal_passed [OF True Some], rule untouched_refl)
    qed
  qed
qed

lemma validation_gate:
  assumes "ValidationUnaryInterceptor created = Inr ic"
  shows "gate ic"
proof unfold_locales
  fix meth c q s
  obtain v where v: "created = Inr v" using assms by (cases created) (auto simp: ValidationUnaryInterceptor_def)
  obtain code msg ds where st: "validationStatus v (the (Validate v q)) = StatusError code msg ds"
    by (cases "violations_of v (the (Validate v q))") (auto simp: validationStatus_def status_Error_def Let_def)
  have ic: "ic meth h c q s = (if is_message v q \<and> Validate v q \<noteq> None
      then (Returned None (Some (validationStatus v (the (Validate v q)))), s) else h c q s)" for h
    using assms unfolding v ValidationUnaryInterceptor_def by (auto split: option.splits)
  show "gated ic meth c q s"
  proof (cases "is_message v q \<and> Validate v q \<noteq> None")
    case True
    then show ?thesis by (intro gated_refuse [OF _ untouched_refl]) (simp add: ic st)
  next
    case False
    then show ?thesis by (intro gated_pass [where c' = c and s' = s]) (auto simp: ic)
  qed
qed

section \<open>The chain in one piece\<close>

text \<open>
  What the chain of \<^verbatim>\<open>newGRPCServer\<close> amounts to, as a straight-line specification: the context
  and state that the service's own interceptors see, and what is done with their outcome.
\<close>

definition enter_ctx :: "grpc_Config \<Rightarrow> call_env \<Rightarrow> string \<Rightarrow> ctx \<Rightarrow> ctx" where
  "enter_ctx cfg env meth c =
     (let c' = fst (withRequestID (fresh_id env) c) in
      if meth \<in> set (srv_LogSkipMethods cfg) then c' else logger_Into c' (orDefaultLogger (srv_Logger cfg)))"

definition enter_state :: "grpc_Config \<Rightarrow> call_env \<Rightarrow> string \<Rightarrow> ctx \<Rightarrow> 'x server \<Rightarrow> 'x server" where
  "enter_state cfg env meth c s =
     (let s' = SetHeader request_id_key (snd (withRequestID (fresh_id env) c)) s in
      if srv_Registry cfg then add_in_flight 1 meth s' else s')"

definition leave ::
  "from_error \<Rightarrow> grpc_Config \<Rightarrow> call_env \<Rightarrow> string \<Rightarrow> ctx \<Rightarrow> 'a outcome \<times> 'x server \<Rightarrow> 'a outcome \<times> 'x server" where
  "leave fe cfg env meth c os =
     (case os of
        (Returned r err, s) \<Rightarrow>
          let err' = MapError fe err;
              s1 = (if srv_Registry cfg
                    then add_in_flight (- 1) meth (metrics_observe fe meth (handler_took env) err' s) else s);
              s2 = (if meth \<in> set (srv_LogSkipMethods cfg) then s1
                    else logRequest fe (enter_ctx cfg env meth c) (orDefaultLogger (srv_Logger cfg)) meth
                      (handler_took env) err' s1) in
          (Returned (if err = None then r else None) err', s2)
      | (Panicked p, s) \<Rightarrow>
          (Returned None (Some internal_status),
           logPanic c (orDefaultLogger (srv_Logger cfg)) meth p (stack_trace env)
             (if srv_Registry cfg then add_in_flight (- 1) meth s else s)))"

lemma chain_unary_append: "chain_unary (xs @ ys) meth h = chain_unary xs meth (chain_unary ys meth h)"
  by (simp add: chain_unary_def)

lemma chain_unary_Cons: "chain_unary (x # xs) meth h = x meth (chain_unary xs meth h)"
  by (simp add: chain_unary_def)

lemma chain_unary_Nil [simp]: "chain_unary [] meth h = h"
  by (simp add: chain_unary_def)

lemma MapError_None [simp]: "MapError fe None = None"
  by (simp add: MapError_def)

lemma error_mapping_leave:
  "ErrorMappingUnaryInterceptor fe meth h c q s =
    (case h c q s of
       (Returned r err, s') \<Rightarrow> (Returned (if err = None then r else None) (MapError fe err), s')
     | (Panicked p, s') \<Rightarrow> (Panicked p, s'))"
  by (simp add: ErrorMappingUnaryInterceptor_def split: prod.split outcome.split option.split)

lemma server_chain_leave:
  "chain_unary (server_unary fe cfg user env) meth h c q s =
    leave fe cfg env meth c
      (chain_unary user meth h (enter_ctx cfg env meth c) q (enter_state cfg env meth c s))"
proof -
  let ?inner = "chain_unary user meth h"
  let ?i = "snd (withRequestID (fresh_id env) c)" and ?c' = "fst (withRequestID (fresh_id env) c)"
  let ?l = "orDefaultLogger (srv_Logger cfg)"
  have "chain_unary (server_unary fe cfg user env) meth h c q s =
      RecoveryUnaryInterceptor (srv_Logger cfg) (stack_trace env) meth
        (RequestIDUnaryInterceptor (fresh_id env) meth
          (LoggingUnaryInterceptor fe (srv_Logger cfg) (srv_LogSkipMethods cfg) (handler_took env) meth
            (if srv_Registry cfg
             then MetricsUnaryInterceptor fe (handler_took env) meth (ErrorMappingUnaryInterceptor fe meth ?inner)
             else ErrorMappingUnaryInterceptor fe meth ?inner))) c q s"
    by (simp add: server_unary_def chain_unary_append chain_unary_Cons)
  then show ?thesis
    by (cases "?inner (enter_ctx cfg env meth c) q (enter_state cfg env meth c s)"; cases "srv_Registry cfg";
        cases "meth \<in> set (srv_LogSkipMethods cfg)")
       (auto simp: RecoveryUnaryInterceptor_def RequestIDUnaryInterceptor_def LoggingUnaryInterceptor_def
         MetricsUnaryInterceptor_def error_mapping_leave enter_ctx_def enter_state_def leave_def case_prod_beta Let_def
         split: outcome.splits)
qed

text \<open>
  C5. The interceptors compose as intended: the chain that \<^verbatim>\<open>newGRPCServer\<close> installs, for unary
  calls and for streams, on every handler and with every further interceptor of the service,
  equals the straight-line specification: tag the request, count it in, run the service once
  in the tagged context, map the error, count it out, log it, and turn a panic into a plain
  internal error.
\<close>

theorem server_chain_equals_specification:
  "chain_unary (server_unary fe cfg user env) meth h c q s =
      leave fe cfg env meth c (chain_unary user meth h (enter_ctx cfg env meth c) q (enter_state cfg env meth c s)) \<and>
   chain_stream (server_stream fe cfg suser env) meth sh c s =
      leave fe cfg env meth c (chain_stream suser meth sh (enter_ctx cfg env meth c) (enter_state cfg env meth c s))"
proof
  let ?inner = "chain_stream suser meth sh"
  have "chain_stream (server_stream fe cfg suser env) meth sh c s =
      RecoveryStreamInterceptor (srv_Logger cfg) (stack_trace env) meth
        (RequestIDStreamInterceptor (fresh_id env) meth
          (LoggingStreamInterceptor fe (srv_Logger cfg) (srv_LogSkipMethods cfg) (handler_took env) meth
            (if srv_Registry cfg
             then MetricsStreamInterceptor fe (handler_took env) meth (ErrorMappingStreamInterceptor fe meth ?inner)
             else ErrorMappingStreamInterceptor fe meth ?inner))) c s"
    by (simp add: server_stream_def chain_stream_def)
  then show "chain_stream (server_stream fe cfg suser env) meth sh c s =
      leave fe cfg env meth c (?inner (enter_ctx cfg env meth c) (enter_state cfg env meth c s))"
    by (cases "?inner (enter_ctx cfg env meth c) (enter_state cfg env meth c s)"; cases "srv_Registry cfg";
        cases "meth \<in> set (srv_LogSkipMethods cfg)")
       (auto simp: RecoveryStreamInterceptor_def RequestIDStreamInterceptor_def LoggingStreamInterceptor_def
         MetricsStreamInterceptor_def ErrorMappingStreamInterceptor_def enter_ctx_def enter_state_def leave_def
         case_prod_beta Let_def split: outcome.splits)
qed (rule server_chain_leave)

definition untouched_metrics :: "'x server \<Rightarrow> 'x server \<Rightarrow> bool" where
  "untouched_metrics s s' \<longleftrightarrow> in_flight s' = in_flight s \<and> requests_total s' = requests_total s"

lemma write_log_metrics [simp]:
  "in_flight (write_log l c level msg as s) = in_flight s"
  "requests_total (write_log l c level msg as s) = requests_total s"
  by (simp_all add: write_log_def split: option.split)

lemma log_keeps_metrics [simp]:
  "in_flight (logRequest fe c l meth took err s) = in_flight s"
  "requests_total (logRequest fe c l meth took err s) = requests_total s"
  "in_flight (logPanic c l meth p st s) = in_flight s"
  "requests_total (logPanic c l meth p st s) = requests_total s"
  by (cases err; simp add: logRequest_def logPanic_def Let_def del: toAttrs.simps append_Cons)+

section \<open>What a client sees\<close>

lemma status_documentedD:
  assumes "status_documented fe"
  shows "fe (StatusError c m ds) = Some (c, m, ds)"
  using assms by (simp add: status_documented_def)

lemma MapError_status:
  assumes "status_documented fe" and "MapError fe err = Some e'"
  shows "fe e' \<noteq> None"
  using assms(2) status_documentedD [OF assms(1)]
  by (auto simp: MapError_def status_Error_def internal_status_def split: option.splits goerr.splits if_splits)

text \<open>
  C24. Every error becomes a status that says no more than it should: an application error
  gives the code of its kind with its own message (and at most its code as the reason); one of
  kind internal or unknown, and every error that carries neither an application error nor
  a status nor a context error, gives exactly \<^verbatim>\<open>internal server error\<close>.
\<close>

theorem errors_become_statuses:
  assumes "status_documented fe"
  shows "\<exists>e'. MapError fe (Some e) = Some e' \<and> fe e' \<noteq> None \<and>
    (case apperr_As (Some e) of
       Some (AppError k c m f x) \<Rightarrow>
         (if k \<in> {KindInternal, KindUnknown} then e' = StatusError codes_Internal ''internal server error'' []
          else \<exists>ds. e' = StatusError (CodeOf k) m ds \<and> CodeOf k \<noteq> codes_Internal \<and>
            set ds \<subseteq> {ErrorInfo c ''hockeynights''})
     | _ \<Rightarrow>
         (if \<exists>c m ds. StatusError c m ds \<in> set (walk e) then e' = e
          else if errors_Is (Some e) ContextCanceled then e' = StatusError codes_Canceled ''request canceled'' []
          else if errors_Is (Some e) ContextDeadlineExceeded
          then e' = StatusError codes_DeadlineExceeded ''request timed out'' []
          else e' = StatusError codes_Internal ''internal server error'' []))"
proof (cases "apperr_As (Some e)")
  case None
  have "fe e \<noteq> None \<longleftrightarrow> (\<exists>c m ds. StatusError c m ds \<in> set (walk e))"
    using assms unfolding status_documented_def by blast
  with None show ?thesis
    by (auto simp: MapError_def status_Error_def internal_status_def status_documentedD [OF assms])
next
  case (Some a)
  then obtain k c m f x where a: "a = AppError k c m f x" by (metis apperr_As_app is_app_iff)
  show ?thesis
    using Some unfolding a
    by (cases k) (auto simp: MapError_def status_Error_def internal_status_def with_reason_def errorDomain_def
        status_documentedD [OF assms])
qed

text \<open>\<^verbatim>\<open>status.FromError\<close> as its documentation describes it.\<close>

fun status_parts :: "goerr \<Rightarrow> (code \<times> string \<times> detail list) option" where
  "status_parts (StatusError c m ds) = Some (c, m, ds)"
| "status_parts _ = None"

definition documented_from_error :: from_error where
  "documented_from_error e =
     (case status_parts e of
        Some p \<Rightarrow> Some p
      | None \<Rightarrow>
          (case find (\<lambda>x. status_parts x \<noteq> None) (walk e) of
             None \<Rightarrow> None
           | Some x \<Rightarrow> map_option (\<lambda>(c, m, ds). (c, error_text e, ds)) (status_parts x)))"

lemma status_parts_iff: "status_parts x \<noteq> None \<longleftrightarrow> (\<exists>c m ds. x = StatusError c m ds)"
  by (cases x) auto

lemma documented_from_error: "status_documented documented_from_error"
proof -
  have "documented_from_error e \<noteq> None \<longleftrightarrow> (\<exists>x \<in> set (walk e). status_parts x \<noteq> None)" for e
  proof (cases "find (\<lambda>x. status_parts x \<noteq> None) (walk e)")
    case None
    then have no: "\<forall>x \<in> set (walk e). status_parts x = None" unfolding find_None_iff by blast
    then have "status_parts e = None" by simp
    with None no show ?thesis by (simp add: documented_from_error_def)
  next
    case (Some x)
    then have "x \<in> set (walk e)" and "status_parts x \<noteq> None" by (auto simp: find_Some_iff)
    with Some show ?thesis by (auto simp: documented_from_error_def split: option.splits)
  qed
  then show ?thesis unfolding status_documented_def status_parts_iff by (auto simp: documented_from_error_def)
qed

theorem errors_become_statuses_witness:
  "MapError documented_from_error (Some (errorf ''load user: '' (apperr_Internal ''db'' ''secret detail''))) =
     Some (StatusError codes_Internal ''internal server error'' [])"
  using errors_become_statuses [OF documented_from_error, of "errorf ''load user: '' (apperr_Internal ''db'' ''secret detail'')"]
  by (simp add: apperr_As_through_errorf apperr_Internal_def apperr_New_def)

text \<open>
  C25. A server never panics and never answers with a bare error: whatever the handler and the
  service's interceptors do, the call returns; if it returns an error, that error carries a status and
  there is no response beside it.
\<close>

theorem server_answers_with_status:
  assumes "status_documented fe" and "chain_unary (server_unary fe cfg user env) meth h c q s = (out, s')"
  shows "\<exists>resp err. out = Returned resp err \<and> (\<forall>e. err = Some e \<longrightarrow> fe e \<noteq> None \<and> resp = None)"
proof -
  obtain o1 s1 where inner: "chain_unary user meth h (enter_ctx cfg env meth c) q (enter_state cfg env meth c s) = (o1, s1)"
    by fastforce
  have out: "out = fst (leave fe cfg env meth c (o1, s1))"
    using assms(2) unfolding server_chain_leave inner by (metis fst_conv)
  have map: "fe e' \<noteq> None" if "MapError fe (Some e) = Some e'" for e e'
    using MapError_status [OF assms(1) that] .
  show ?thesis
  proof (cases o1)
    case (Returned r err)
    then show ?thesis using map by (cases err) (auto simp: out leave_def Let_def)
  next
    case (Panicked p)
    then show ?thesis
      by (auto simp: out leave_def internal_status_def status_Error_def status_documentedD [OF assms(1)])
  qed
qed

definition empty_ctx :: ctx where
  "empty_ctx =
     \<lparr>ctx_claims = None, ctx_request_id = None, ctx_logger = None, ctx_log_attrs = [], ctx_token = None,
      ctx_incoming = None, ctx_outgoing = None, ctx_peer = None, ctx_deadline = None\<rparr>"

definition empty_server :: "unit server" where
  "empty_server =
     \<lparr>requests_total = (\<lambda>_. 0), request_durations = [], in_flight = (\<lambda>_. 0), log_records = [],
      response_headers = [], app = ()\<rparr>"

definition sample_grpc_Config :: grpc_Config where
  "sample_grpc_Config = \<lparr>srv_Logger = None, srv_Registry = True, srv_LogSkipMethods = []\<rparr>"

definition sample_env :: call_env where
  "sample_env = \<lparr>fresh_id = ''r1'', stack_trace = [], handler_took = 0\<rparr>"

definition panicking :: "(unit, unit, unit) handler" where
  "panicking c q s = (Panicked ''boom'', s)"

theorem server_answers_with_status_witness:
  "\<exists>resp err s'. chain_unary (server_unary documented_from_error sample_grpc_Config [] sample_env)
      ''/svc/M'' panicking empty_ctx () empty_server = (Returned resp err, s')"
proof -
  obtain out s' where run: "chain_unary (server_unary documented_from_error sample_grpc_Config [] sample_env)
      ''/svc/M'' panicking empty_ctx () empty_server = (out, s')" by fastforce
  from server_answers_with_status [OF documented_from_error run]
  obtain resp err where out: "out = Returned resp err" by blast
  show ?thesis by (rule exI [of _ resp], rule exI [of _ err], rule exI [of _ s']) (use run out in simp)
qed



text \<open>
  The log line of a recovered panic never has the id of the request: recovery is the outermost
  interceptor, and the id is put into the context only inside it. With a context that comes
  from the transport (no id yet) the attribute is empty, although the request has an id
  that the client is told in the response header.
\<close>

lemma panic_log_has_no_request_id:
  assumes "ctx_request_id c = None" and "srv_Logger cfg = Some l" and "lg_level l \<le> LevelError"
    and "chain_unary user meth h (enter_ctx cfg env meth c) q (enter_state cfg env meth c s) = (Panicked p, s1)"
    and "chain_unary (server_unary fe cfg user env) meth h c q s = (out, s')"
  shows "\<exists>r. log_records s' = log_records s1 @ [r] \<and> rec_msg r = ''grpc panic recovered'' \<and>
    (''request_id'', []) \<in> set (rec_attrs r) \<and>
    requestid_Get (enter_ctx cfg env meth c) = snd (withRequestID (fresh_id env) c)"
proof -
  have lv: "\<not> LevelError < lg_level l" using assms(3) by simp
  have inflight: "log_records (if srv_Registry cfg then add_in_flight (- 1) meth s1 else s1) = log_records s1"
    by (simp add: add_in_flight_def)
  have "s' = logPanic c l meth p (stack_trace env) (if srv_Registry cfg then add_in_flight (- 1) meth s1 else s1)"
    using assms(5) unfolding server_chain_leave assms(4) by (simp add: leave_def assms(2) orDefaultLogger_def)
  moreover have "requestid_Get c = []" using assms(1) by (simp add: requestid_Get_def)
  ultimately have "\<exists>r. log_records s' = log_records s1 @ [r] \<and> rec_msg r = ''grpc panic recovered'' \<and>
      (''request_id'', []) \<in> set (rec_attrs r)"
    using inflight lv by (auto simp: logPanic_def write_log_def handler_Handle_def Let_def)
  moreover have "requestid_Get (enter_ctx cfg env meth c) = snd (withRequestID (fresh_id env) c)"
    by (simp add: enter_ctx_def withRequestID_def Let_def requestid_Get_def logger_Attrs_def logger_Into_def
        requestid_NewContext_def)
  ultimately show ?thesis by blast
qed

section \<open>Who reaches a handler\<close>

lemma refusing:
  "\<forall>h q s. f h q s = (r, g s) \<Longrightarrow> (\<And>s. untouched s (g s)) \<Longrightarrow> \<forall>h q s. \<exists>s'. untouched s s' \<and> f h q s = (r, s')"
  by blast

text \<open>
  C11. A guarded method is reached only with a token: with \<^verbatim>\<open>AuthUnaryInterceptor\<close> over
  \<^verbatim>\<open>TokenAuthenticator\<close>, not optional, a method that is not public either is refused as
  unauthenticated, whatever the handler, or its handler runs, exactly once, in the context
  that carries the claims of the bearer token, which the manager has accepted as an access token.
\<close>

theorem guarded_handler_has_claims:
  assumes "meth \<notin> set pub"
    and "cfg = \<lparr>Authenticate = Some (TokenAuthenticator lib m now), PublicMethods = pub, Optional = False\<rparr>"
  shows "(\<exists>raw claims. BearerToken c = Inr raw \<and> ParseAccess lib m now raw = Inr claims \<and>
      (\<forall>h q s. AuthUnaryInterceptor cfg meth h c q s =
        h (logger_Attrs (token_NewContext c claims) [(''user_id'', Subject claims)]) q s)) \<or>
    (\<exists>msg. \<forall>h q s. \<exists>s'. untouched s s' \<and>
      AuthUnaryInterceptor cfg meth h c q s = (Returned None (Some (StatusError codes_Unauthenticated msg [])), s'))"
proof (cases "BearerToken c")
  case (Inl e)
  with BearerToken_status [OF Inl] obtain msg where "e = StatusError codes_Unauthenticated msg []" by blast
  with Inl assms have "\<forall>h q s. AuthUnaryInterceptor cfg meth h c q s =
      (Returned None (Some (StatusError codes_Unauthenticated msg [])), s)"
    by (simp add: AuthUnaryInterceptor_def authenticate_def)
  then show ?thesis by - (rule disjI2, rule exI, rule refusing, assumption, rule untouched_refl)
next
  case (Inr raw)
  show ?thesis
  proof (cases "ParseAccess lib m now raw")
    case (Inl e)
    with Inr assms have "\<forall>h q s. AuthUnaryInterceptor cfg meth h c q s =
        (Returned None (Some (StatusError codes_Unauthenticated ''invalid credentials'' [])),
         write_log (logger_From c) c LevelWarn ''authentication failed'' [(''error'', error_text e)] s)"
      by (simp add: AuthUnaryInterceptor_def authenticate_def TokenAuthenticator_def status_Error_def)
    then show ?thesis by - (rule disjI2, rule exI, rule refusing, assumption, rule untouched_write_log)
  next
    case r: (Inr claims)
    with Inr assms have "\<forall>h q s. AuthUnaryInterceptor cfg meth h c q s =
        h (logger_Attrs (token_NewContext c claims) [(''user_id'', Subject claims)]) q s"
      by (simp add: AuthUnaryInterceptor_def authenticate_def TokenAuthenticator_def)
    with Inr r show ?thesis by (intro disjI1 exI conjI)
  qed
qed

definition bearer_ctx :: "string \<Rightarrow> ctx" where
  "bearer_ctx header = empty_ctx\<lparr>ctx_incoming := Some (md_empty(authorization_key := [header]))\<rparr>"

theorem guarded_handler_has_claims_witness:
  "\<exists>msg. \<forall>h q s. \<exists>s'. untouched s s' \<and>
    AuthUnaryInterceptor \<lparr>Authenticate = Some (TokenAuthenticator sample_jwt sample_manager 0), PublicMethods = [], Optional = False\<rparr>
      ''/svc/M'' h empty_ctx q (s :: unit server) =
      (Returned None (Some (StatusError codes_Unauthenticated msg [])) :: unit outcome, s')"
proof -
  let ?cfg = "\<lparr>Authenticate = Some (TokenAuthenticator sample_jwt sample_manager 0), PublicMethods = [], Optional = False\<rparr>"
  have p: "''/svc/M'' \<notin> set []" by simp
  have no: "BearerToken empty_ctx \<noteq> Inr raw" for raw by (simp add: BearerToken_def empty_ctx_def)
  show ?thesis using guarded_handler_has_claims [OF p refl, where c = empty_ctx] no by blast
qed

end
