(* ===== verification/Server_Lifecycle.thy ===== *)
theory Server_Lifecycle
  imports Apperr
begin

text \<open>
  How the servers start, run and stop: \<^verbatim>\<open>grpcserver/server.go\<close> (\<^verbatim>\<open>Run\<close>, \<^verbatim>\<open>stop\<close>, \<^verbatim>\<open>normalizeServeError\<close>, the
  defaults) and \<^verbatim>\<open>httpserver/server.go\<close>. \<^verbatim>\<open>Run\<close> is a step relation over the goroutine of the caller, the one
  that serves, the one that stops gracefully, and the requests in progress. What the servers of
  \<^verbatim>\<open>google.golang.org/grpc\<close> and \<^verbatim>\<open>net/http\<close> do is in the steps of the serving side, as documented: a graceful
  stop admits no more requests, makes \<^verbatim>\<open>Serve\<close> return, and ends when no request is in progress or the server is
  closed; \<^verbatim>\<open>Serve\<close> reports that the server was stopped only after that. Time is not counted: a timer may fire whenever it is waited for.
\<close>

section \<open>Servers that stop\<close>

text \<open>
  The contract: every step but the start of a request makes progress, and only a run that has returned can go no
  further. Then a run in which requests stop arriving returns.
\<close>

locale stoppable = transition_invariant +
  fixes begins :: "'a \<Rightarrow> 'a \<Rightarrow> bool"
    and weight :: "'a \<Rightarrow> nat"
    and returned :: "'a \<Rightarrow> bool"
  assumes progress: "invar s \<Longrightarrow> step s t \<Longrightarrow> \<not> begins s t \<Longrightarrow> weight t < weight s"
    and stuck_returned: "invar s \<Longrightarrow> \<nexists>t. step s t \<and> \<not> begins s t \<Longrightarrow> returned s"
begin

lemma no_endless_run:
  assumes "start (f 0)" and "\<forall>n. step (f n) (f (Suc n))"
  shows "\<forall>k. \<exists>n \<ge> k. begins (f n) (f (Suc n))"
proof (rule ccontr)
  assume "\<not> ?thesis"
  then obtain k where quiet: "\<forall>n \<ge> k. \<not> begins (f n) (f (Suc n))" by blast
  have inv: "invar (f n)" for n by (induction n) (use assms invar_start invar_step in blast)+
  let ?g = "\<lambda>n. f (k + n)"
  have "\<forall>n. weight (?g (Suc n)) < weight (?g n)" using quiet assms(2) inv progress by simp
  then show False using wf_no_infinite_down_chainE [OF wf_measure [of weight], of ?g] by auto
qed

lemma can_return: "reach start step s \<Longrightarrow> \<exists>t. step\<^sup>*\<^sup>* s t \<and> returned t"
proof (induction "weight s" arbitrary: s rule: less_induct)
  case less
  show ?case
  proof (cases "\<exists>t. step s t \<and> \<not> begins s t")
    case True
    then obtain t where t: "step s t" "\<not> begins s t" by blast
    then have "weight t < weight s" using invar_reach [OF less(2)] progress by blast
    then obtain u where "step\<^sup>*\<^sup>* t u" "returned u" using less(1) t(1) less(2) by blast
    then show ?thesis using t(1) by (meson converse_rtranclp_into_rtranclp)
  next
    case False
    then show ?thesis using stuck_returned [OF invar_reach [OF less(2)]] by blast
  qed
qed

end

section \<open>The gRPC server\<close>

record server_Config =
  sv_Address :: string
  EnableHealth :: bool
  EnableReflection :: bool
  EnableTracing :: bool
  GracefulStopTimeout :: duration
  DrainDelay :: duration
  MaxRecvMsgSize :: int
  MaxSendMsgSize :: int
  MaxConcurrentStreams :: nat
  LogSkipMethods :: "string list"

text \<open>The names of the health service's methods are those of its generated code.\<close>

definition skipped_methods :: "string list" where
  "skipped_methods =
     [''/grpc.health.v1.Health/Check'', ''/grpc.health.v1.Health/Watch'',
      ''/grpc.reflection.v1.ServerReflection/ServerReflectionInfo'',
      ''/grpc.reflection.v1alpha.ServerReflection/ServerReflectionInfo'']"

definition server_withDefaults :: "'z server_Config_scheme \<Rightarrow> 'z server_Config_scheme" where
  "server_withDefaults cfg =
     cfg\<lparr>sv_Address := (if sv_Address cfg = [] then '':50051'' else sv_Address cfg),
         GracefulStopTimeout := (if GracefulStopTimeout cfg = 0 then 10 * second else GracefulStopTimeout cfg),
         MaxRecvMsgSize := (if MaxRecvMsgSize cfg = 0 then 4 * 1024 * 1024 else MaxRecvMsgSize cfg),
         MaxSendMsgSize := (if MaxSendMsgSize cfg = 0 then 4 * 1024 * 1024 else MaxSendMsgSize cfg),
         MaxConcurrentStreams := (if MaxConcurrentStreams cfg = 0 then 1000 else MaxConcurrentStreams cfg),
         LogSkipMethods := skipped_methods @ LogSkipMethods cfg\<rparr>"

definition normalizeServeError :: "goerr option \<Rightarrow> goerr option" where
  "normalizeServeError err = (if err = None \<or> errors_Is err ErrServerStopped then None else err)"

text \<open>Where the caller of \<^verbatim>\<open>Run\<close> is: in its \<^verbatim>\<open>select\<close>, and then in the steps of \<^verbatim>\<open>stop\<close>.\<close>

datatype phase = Serving | DrainSleep | StopSelect | Forcing | AwaitServe | ServerReturned "goerr option"

record serving =
  pending :: nat
  cancelled :: bool
  health :: "bool option"
  graceful :: bool
  forced :: bool
  stopped :: bool
  served :: "goerr option option"
  phase :: phase

definition grpc_start :: "server_Config \<Rightarrow> serving \<Rightarrow> bool" where
  "grpc_start cfg s \<longleftrightarrow>
     s = \<lparr>pending = 0, cancelled = False, health = (if EnableHealth cfg then Some True else None), graceful = False,
          forced = False, stopped = False, served = None, phase = Serving\<rparr>"

definition begins :: "serving \<Rightarrow> serving \<Rightarrow> bool" where
  "begins s t \<longleftrightarrow> pending t = Suc (pending s)"

inductive grpc_step :: "server_Config \<Rightarrow> serving \<Rightarrow> serving \<Rightarrow> bool" for cfg where
  request_begins: "\<not> graceful s \<Longrightarrow> \<not> forced s \<Longrightarrow> served s = None \<Longrightarrow> grpc_step cfg s (s\<lparr>pending := Suc (pending s)\<rparr>)"
| request_ends: "pending s = Suc n \<Longrightarrow> grpc_step cfg s (s\<lparr>pending := n\<rparr>)"
| context_cancelled: "\<not> cancelled s \<Longrightarrow> grpc_step cfg s (s\<lparr>cancelled := True\<rparr>)"
| serve_fails: "served s = None \<Longrightarrow> \<not> graceful s \<Longrightarrow> \<not> forced s \<Longrightarrow> \<not> errors_Is (Some e) ErrServerStopped \<Longrightarrow>
    grpc_step cfg s (s\<lparr>served := Some (Some e)\<rparr>)"
| serve_ends: "served s = None \<Longrightarrow> graceful s \<or> forced s \<Longrightarrow> e = None \<or> e = Some (Sentinel ErrServerStopped) \<Longrightarrow>
    grpc_step cfg s (s\<lparr>served := Some e\<rparr>)"
| graceful_returns: "graceful s \<Longrightarrow> \<not> stopped s \<Longrightarrow> pending s = 0 \<or> forced s \<Longrightarrow> grpc_step cfg s (s\<lparr>stopped := True\<rparr>)"
| select_error: "phase s = Serving \<Longrightarrow> served s = Some e \<Longrightarrow>
    grpc_step cfg s (s\<lparr>phase := ServerReturned (normalizeServeError e)\<rparr>)"
| select_drain: "phase s = Serving \<Longrightarrow> cancelled s \<Longrightarrow> health s \<noteq> None \<Longrightarrow> DrainDelay cfg > 0 \<Longrightarrow>
    grpc_step cfg s (s\<lparr>health := Some False, phase := DrainSleep\<rparr>)"
| select_stop: "phase s = Serving \<Longrightarrow> cancelled s \<Longrightarrow> health s = None \<or> DrainDelay cfg \<le> 0 \<Longrightarrow>
    grpc_step cfg s (s\<lparr>health := map_option (\<lambda>_. False) (health s), graceful := True, phase := StopSelect\<rparr>)"
| drain_over: "phase s = DrainSleep \<Longrightarrow> grpc_step cfg s (s\<lparr>graceful := True, phase := StopSelect\<rparr>)"
| select_stopped: "phase s = StopSelect \<Longrightarrow> stopped s \<Longrightarrow> grpc_step cfg s (s\<lparr>phase := AwaitServe\<rparr>)"
| select_timer: "phase s = StopSelect \<Longrightarrow> grpc_step cfg s (s\<lparr>forced := True, phase := Forcing\<rparr>)"
| forced_stopped: "phase s = Forcing \<Longrightarrow> stopped s \<Longrightarrow> grpc_step cfg s (s\<lparr>phase := AwaitServe\<rparr>)"
| serve_received: "phase s = AwaitServe \<Longrightarrow> served s = Some e \<Longrightarrow>
    grpc_step cfg s (s\<lparr>phase := ServerReturned (normalizeServeError e)\<rparr>)"

text \<open>\<^verbatim>\<open>Run\<close>: \<open>listen\<close> is what \<^verbatim>\<open>net.Listen\<close> returns.\<close>

inductive server_Run :: "server_Config \<Rightarrow> goerr option \<Rightarrow> goerr option \<Rightarrow> bool" for cfg where
  listen_failed: "server_Run cfg (Some e) (Some e)"
| server_ran: "reach (grpc_start cfg) (grpc_step cfg) s \<Longrightarrow> phase s = ServerReturned r \<Longrightarrow> server_Run cfg None r"

fun phase_weight :: "phase \<Rightarrow> nat" where
  "phase_weight Serving = 5"
| "phase_weight DrainSleep = 4"
| "phase_weight StopSelect = 3"
| "phase_weight Forcing = 2"
| "phase_weight AwaitServe = 1"
| "phase_weight (ServerReturned _) = 0"

definition serving_weight :: "serving \<Rightarrow> nat" where
  "serving_weight s =
     pending s + (if cancelled s then 0 else 1) + (if served s = None then 1 else 0) + (if stopped s then 0 else 1) +
     phase_weight (phase s)"

text \<open>
  The invariant: what was said to the health checks before the server was stopped, which requests a stopped server
  still has, and where the error that \<^verbatim>\<open>Run\<close> returns comes from.
\<close>

definition serving_ok :: "serving \<Rightarrow> bool" where
  "serving_ok s \<longleftrightarrow>
     (graceful s \<longrightarrow> cancelled s \<and> health s \<noteq> Some True) \<and> (phase s = DrainSleep \<longrightarrow> cancelled s \<and> health s = Some False) \<and>
     (forced s \<longrightarrow> graceful s) \<and> (phase s \<in> {StopSelect, Forcing, AwaitServe} \<longrightarrow> graceful s) \<and>
     (phase s = Forcing \<longrightarrow> forced s) \<and> (phase s = AwaitServe \<longrightarrow> stopped s) \<and>
     (phase s = Serving \<longrightarrow> \<not> graceful s) \<and> (stopped s \<longrightarrow> graceful s \<and> (pending s = 0 \<or> forced s)) \<and>
     (\<forall>e. served s = Some e \<and> normalizeServeError e = None \<longrightarrow> graceful s) \<and>
     (phase s = ServerReturned None \<longrightarrow> stopped s) \<and>
     (\<forall>r. phase s = ServerReturned r \<longrightarrow> (\<exists>e. served s = Some e \<and> r = normalizeServeError e))"

lemma serving_ok_step: "serving_ok s \<Longrightarrow> grpc_step cfg s t \<Longrightarrow> serving_ok t"
  by (erule grpc_step.cases) (auto simp: serving_ok_def normalizeServeError_def split: if_splits)

interpretation grpc_life: stoppable "grpc_start cfg" "grpc_step cfg" serving_ok begins serving_weight
    "\<lambda>s. (\<exists>r. phase s = ServerReturned r)" for cfg
proof unfold_locales
  show "serving_ok s" if "grpc_start cfg s" for s using that by (simp add: grpc_start_def serving_ok_def)
  show "serving_ok t" if "serving_ok s" "grpc_step cfg s t" for s t using that by (rule serving_ok_step)
  show "serving_weight t < serving_weight s" if "serving_ok s" "grpc_step cfg s t" "\<not> begins s t" for s t
    using that(2,3) by (cases rule: grpc_step.cases) (auto simp: serving_weight_def begins_def)
  show "\<exists>r. phase s = ServerReturned r" if ok: "serving_ok s" and stuck: "\<nexists>t. grpc_step cfg s t \<and> \<not> begins s t" for s
  proof (rule ccontr)
    assume "\<not> (\<exists>r. phase s = ServerReturned r)"
    moreover have quiet: "\<not> grpc_step cfg s t" if "pending t \<noteq> Suc (pending s)" for t
      using stuck that by (auto simp: begins_def)
    ultimately show False
    proof (cases "phase s")
      case Serving
      show False
        using quiet [OF _] context_cancelled [of s cfg] select_drain [OF Serving, of cfg] select_stop [OF Serving, of cfg]
        by (cases "cancelled s"; cases "health s"; cases "DrainDelay cfg > 0") auto
    next
      case DrainSleep
      then show False using quiet drain_over [of s cfg] by fastforce
    next
      case StopSelect
      then show False using quiet select_timer [of s cfg] by fastforce
    next
      case Forcing
      then show False
        using ok quiet graceful_returns [of s cfg] forced_stopped [of s cfg] by (cases "stopped s") (fastforce simp: serving_ok_def)+
    next
      case AwaitServe
      then show False
        using ok quiet serve_ends [of s None cfg] serve_received [of s _ cfg]
        by (cases "served s") (fastforce simp: serving_ok_def)+
    qed blast
  qed
qed

section \<open>The HTTP server\<close>

record http_Config =
  ht_Address :: string
  has_Handler :: bool
  ReadHeaderTimeout :: duration
  ReadTimeout :: duration
  WriteTimeout :: duration
  IdleTimeout :: duration
  ShutdownTimeout :: duration

definition timeoutOrDefault :: "duration \<Rightarrow> duration \<Rightarrow> duration" where
  "timeoutOrDefault v fallback = (if v = 0 then fallback else if v < 0 then 0 else v)"

definition http_withDefaults :: "http_Config \<Rightarrow> http_Config" where
  "http_withDefaults c =
     c\<lparr>ht_Address := (if ht_Address c = [] then '':8080'' else ht_Address c),
       ReadHeaderTimeout := timeoutOrDefault (ReadHeaderTimeout c) (5 * second),
       ReadTimeout := timeoutOrDefault (ReadTimeout c) (30 * second),
       WriteTimeout := timeoutOrDefault (WriteTimeout c) (30 * second),
       IdleTimeout := timeoutOrDefault (IdleTimeout c) (60 * second),
       ShutdownTimeout := (if ShutdownTimeout c = 0 then 10 * second else ShutdownTimeout c)\<rparr>"

text \<open>\<^verbatim>\<open>New\<close>, and the settings that \<^verbatim>\<open>Run\<close> gives to the server of \<^verbatim>\<open>net/http\<close>, where a timeout of zero is none.\<close>

definition http_New :: "http_Config \<Rightarrow> http_Config" where
  "http_New cfg = http_withDefaults cfg"

record http_settings =
  set_Addr :: string
  set_ReadHeaderTimeout :: duration
  set_ReadTimeout :: duration
  set_WriteTimeout :: duration
  set_IdleTimeout :: duration

definition http_server_of :: "http_Config \<Rightarrow> http_settings" where
  "http_server_of cfg =
     \<lparr>set_Addr = ht_Address cfg, set_ReadHeaderTimeout = ReadHeaderTimeout cfg, set_ReadTimeout = ReadTimeout cfg,
      set_WriteTimeout = WriteTimeout cfg, set_IdleTimeout = IdleTimeout cfg\<rparr>"

text \<open>Each of the four timeouts is set unless the configuration turns it off by a negative value.\<close>

lemma http_timeouts_are_set:
  "set_Addr (http_server_of (http_New cfg)) \<noteq> []"
  "set_ReadHeaderTimeout (http_server_of (http_New cfg)) \<ge> 0 \<and>
    (set_ReadHeaderTimeout (http_server_of (http_New cfg)) = 0 \<longleftrightarrow> ReadHeaderTimeout cfg < 0)"
  "set_ReadTimeout (http_server_of (http_New cfg)) \<ge> 0 \<and>
    (set_ReadTimeout (http_server_of (http_New cfg)) = 0 \<longleftrightarrow> ReadTimeout cfg < 0)"
  "set_WriteTimeout (http_server_of (http_New cfg)) \<ge> 0 \<and>
    (set_WriteTimeout (http_server_of (http_New cfg)) = 0 \<longleftrightarrow> WriteTimeout cfg < 0)"
  "set_IdleTimeout (http_server_of (http_New cfg)) \<ge> 0 \<and>
    (set_IdleTimeout (http_server_of (http_New cfg)) = 0 \<longleftrightarrow> IdleTimeout cfg < 0)"
  by (auto simp: http_server_of_def http_New_def http_withDefaults_def timeoutOrDefault_def duration_units)

text \<open>
  The serving goroutine sends no error when \<^verbatim>\<open>Serve\<close> says that the server was closed. \<^verbatim>\<open>graceful\<close> is that
  \<^verbatim>\<open>Shutdown\<close> was called, \<^verbatim>\<open>stopped\<close> that it returned without an error, \<^verbatim>\<open>forced\<close> that it did not and
  \<^verbatim>\<open>Close\<close> was called.
\<close>

definition serve_outcome :: "goerr option \<Rightarrow> goerr option" where
  "serve_outcome err = (if err \<noteq> None \<and> \<not> errors_Is err ErrServerClosed then err else None)"

definition http_start :: "serving \<Rightarrow> bool" where
  "http_start s \<longleftrightarrow>
     s = \<lparr>pending = 0, cancelled = False, health = None, graceful = False, forced = False, stopped = False, served = None,
          phase = Serving\<rparr>"

inductive http_step :: "serving \<Rightarrow> serving \<Rightarrow> bool" where
  http_begins: "\<not> graceful s \<Longrightarrow> served s = None \<Longrightarrow> http_step s (s\<lparr>pending := Suc (pending s)\<rparr>)"
| http_ends: "pending s = Suc n \<Longrightarrow> http_step s (s\<lparr>pending := n\<rparr>)"
| http_cancelled: "\<not> cancelled s \<Longrightarrow> http_step s (s\<lparr>cancelled := True\<rparr>)"
| http_fails: "served s = None \<Longrightarrow> \<not> graceful s \<Longrightarrow> \<not> errors_Is (Some e) ErrServerClosed \<Longrightarrow>
    http_step s (s\<lparr>served := Some (serve_outcome (Some e))\<rparr>)"
| http_closed: "served s = None \<Longrightarrow> graceful s \<Longrightarrow>
    http_step s (s\<lparr>served := Some (serve_outcome (Some (Sentinel ErrServerClosed)))\<rparr>)"
| http_error: "phase s = Serving \<Longrightarrow> served s = Some e \<Longrightarrow> http_step s (s\<lparr>phase := ServerReturned e\<rparr>)"
| http_shutdown: "phase s = Serving \<Longrightarrow> cancelled s \<Longrightarrow> http_step s (s\<lparr>graceful := True, phase := StopSelect\<rparr>)"
| http_shut: "phase s = StopSelect \<Longrightarrow> pending s = 0 \<Longrightarrow> http_step s (s\<lparr>stopped := True, phase := AwaitServe\<rparr>)"
| http_timeout: "phase s = StopSelect \<Longrightarrow> http_step s (s\<lparr>forced := True, phase := AwaitServe\<rparr>)"
| http_received: "phase s = AwaitServe \<Longrightarrow> served s = Some e \<Longrightarrow> http_step s (s\<lparr>phase := ServerReturned e\<rparr>)"

inductive http_Run :: "http_Config \<Rightarrow> goerr option \<Rightarrow> goerr option \<Rightarrow> bool" for cfg where
  no_handler: "\<not> has_Handler cfg \<Longrightarrow> http_Run cfg listen (Some (ErrorString ''httpserver: handler is required''))"
| http_listen_failed: "has_Handler cfg \<Longrightarrow> http_Run cfg (Some e) (Some e)"
| http_ran: "has_Handler cfg \<Longrightarrow> reach http_start http_step s \<Longrightarrow> phase s = ServerReturned r \<Longrightarrow> http_Run cfg None r"

definition http_ok :: "serving \<Rightarrow> bool" where
  "http_ok s \<longleftrightarrow>
     (graceful s \<longrightarrow> cancelled s) \<and> (phase s \<in> {StopSelect, AwaitServe} \<longrightarrow> graceful s) \<and>
     phase s \<notin> {DrainSleep, Forcing} \<and> (phase s = Serving \<longrightarrow> \<not> graceful s) \<and> (served s = Some None \<longrightarrow> graceful s) \<and>
     (stopped s \<longrightarrow> graceful s \<and> pending s = 0) \<and> (forced s \<longrightarrow> graceful s) \<and> (phase s = AwaitServe \<longrightarrow> stopped s \<or> forced s) \<and>
     (phase s = ServerReturned None \<longrightarrow> stopped s \<or> forced s) \<and> (\<forall>e. served s = Some (Some e) \<longrightarrow> \<not> errors_Is (Some e) ErrServerClosed) \<and>
     (\<forall>r. phase s = ServerReturned r \<longrightarrow> served s = Some r)"

lemma http_ok_step: "http_ok s \<Longrightarrow> http_step s t \<Longrightarrow> http_ok t"
  by (erule http_step.cases) (auto simp: http_ok_def serve_outcome_def split: if_splits)

interpretation http_life: stoppable http_start http_step http_ok begins serving_weight
    "\<lambda>s. (\<exists>r. phase s = ServerReturned r)"
proof unfold_locales
  show "http_ok s" if "http_start s" for s using that by (simp add: http_start_def http_ok_def)
  show "http_ok t" if "http_ok s" "http_step s t" for s t using that by (rule http_ok_step)
  show "serving_weight t < serving_weight s" if "http_ok s" "http_step s t" "\<not> begins s t" for s t
    using that(2,3) by (cases rule: http_step.cases) (auto simp: serving_weight_def begins_def)
  show "\<exists>r. phase s = ServerReturned r" if ok: "http_ok s" and stuck: "\<nexists>t. http_step s t \<and> \<not> begins s t" for s
  proof (rule ccontr)
    assume "\<not> (\<exists>r. phase s = ServerReturned r)"
    moreover have quiet: "\<not> http_step s t" if "pending t \<noteq> Suc (pending s)" for t
      using stuck that by (auto simp: begins_def)
    ultimately show False
    proof (cases "phase s")
      case Serving
      then show False
        using quiet http_cancelled [of s] http_shutdown [of s] by (cases "cancelled s") fastforce+
    next
      case StopSelect
      then show False using quiet http_timeout [of s] by fastforce
    next
      case AwaitServe
      then show False
        using ok quiet http_closed [of s] http_received [of s] by (cases "served s") (fastforce simp: http_ok_def)+
    qed (use ok in \<open>auto simp: http_ok_def\<close>)
  qed
qed

section \<open>Properties\<close>

lemma no_request_after_stop: "graceful s \<Longrightarrow> grpc_step cfg s t \<Longrightarrow> \<not> begins s t"
  by (erule grpc_step.cases) (auto simp: begins_def)

lemma serve_error_reported:
  assumes "reach (grpc_start cfg) (grpc_step cfg) s" "phase s = ServerReturned (Some e)"
  shows "served s = Some (Some e) \<and> \<not> errors_Is (Some e) ErrServerStopped"
  using grpc_life.invar_reach [OF assms(1)] assms(2) by (auto simp: serving_ok_def normalizeServeError_def split: if_splits)

text \<open>
  C13. The gRPC server can always be brought to its end, and \<^verbatim>\<open>Run\<close> goes on for ever only as long as requests keep
  arriving: from the graceful stop on none is admitted, the health checks have been told before, and with them the
  run is finite, whether or not the requests in progress end. An error that \<^verbatim>\<open>Run\<close> returns is the one that
  \<^verbatim>\<open>Serve\<close> failed with, never that the server was stopped.
\<close>

theorem grpc_server_run_ends:
  "(\<forall>f. grpc_start cfg (f 0) \<longrightarrow> (\<forall>n. grpc_step cfg (f n) (f (Suc n))) \<longrightarrow> (\<forall>k. \<exists>n \<ge> k. begins (f n) (f (Suc n)))) \<and>
   (\<forall>s. reach (grpc_start cfg) (grpc_step cfg) s \<longrightarrow>
      (\<exists>t r. (grpc_step cfg)\<^sup>*\<^sup>* s t \<and> phase t = ServerReturned r) \<and>
      (graceful s \<longrightarrow> cancelled s \<and> health s \<noteq> Some True \<and> (\<forall>t. grpc_step cfg s t \<longrightarrow> \<not> begins s t)) \<and>
      (\<forall>e. phase s = ServerReturned (Some e) \<longrightarrow> served s = Some (Some e) \<and> \<not> errors_Is (Some e) ErrServerStopped))"
proof (intro conjI allI impI)
  fix f k assume "grpc_start cfg (f 0)" "\<forall>n. grpc_step cfg (f n) (f (Suc n))"
  then show "\<exists>n \<ge> k. begins (f n) (f (Suc n))" using grpc_life.no_endless_run by blast
next
  fix s assume s: "reach (grpc_start cfg) (grpc_step cfg) s"
  show "\<exists>t r. (grpc_step cfg)\<^sup>*\<^sup>* s t \<and> phase t = ServerReturned r" using grpc_life.can_return [OF s] by blast
  show "served s = Some (Some e)" "\<not> errors_Is (Some e) ErrServerStopped" if "phase s = ServerReturned (Some e)" for e
    using serve_error_reported [OF s that] by auto
  assume "graceful s"
  with grpc_life.invar_reach [OF s] show "cancelled s" "health s \<noteq> Some True" by (auto simp: serving_ok_def)
  fix t assume "grpc_step cfg s t"
  then show "\<not> begins s t" by (rule no_request_after_stop [OF \<open>graceful s\<close>])
qed

definition sample_server :: server_Config where
  "sample_server = server_withDefaults \<lparr>sv_Address = [], EnableHealth = True, EnableReflection = False, EnableTracing = False,
     GracefulStopTimeout = 0, DrainDelay = 3 * second, MaxRecvMsgSize = 0, MaxSendMsgSize = 0, MaxConcurrentStreams = 0,
     LogSkipMethods = []\<rparr>"

theorem grpc_server_run_ends_witness:
  "\<exists>s t r. reach (grpc_start sample_server) (grpc_step sample_server) s \<and> pending s = 1 \<and>
     (grpc_step sample_server)\<^sup>*\<^sup>* s t \<and> phase t = ServerReturned r"
proof -
  let ?s = "\<lparr>pending = 0, cancelled = False, health = Some True, graceful = False, forced = False, stopped = False,
    served = None, phase = Serving\<rparr>"
  have "grpc_start sample_server ?s" by (simp add: grpc_start_def sample_server_def server_withDefaults_def)
  moreover have "grpc_step sample_server ?s (?s\<lparr>pending := Suc (pending ?s)\<rparr>)" by (rule request_begins) auto
  ultimately have r: "reach (grpc_start sample_server) (grpc_step sample_server) (?s\<lparr>pending := 1\<rparr>)"
    by (intro reach_step [OF reach_start]) auto
  then obtain t u where "(grpc_step sample_server)\<^sup>*\<^sup>* (?s\<lparr>pending := 1\<rparr>) t" "phase t = ServerReturned u"
    using grpc_server_run_ends [of sample_server] by blast
  with r show ?thesis by (intro exI [of _ "?s\<lparr>pending := 1\<rparr>"] exI [of _ t] exI [of _ u]) simp
qed

text \<open>
  The same of the HTTP server: it can always be brought to its end, runs for ever only as long as requests arrive,
  admits none once it shuts down, and reports no error but the one its \<^verbatim>\<open>Serve\<close> failed with.
\<close>

lemma http_server_run_ends:
  "(\<forall>f. http_start (f 0) \<longrightarrow> (\<forall>n. http_step (f n) (f (Suc n))) \<longrightarrow> (\<forall>k. \<exists>n \<ge> k. begins (f n) (f (Suc n)))) \<and>
   (\<forall>s. reach http_start http_step s \<longrightarrow>
      (\<exists>t r. http_step\<^sup>*\<^sup>* s t \<and> phase t = ServerReturned r) \<and>
      (graceful s \<longrightarrow> cancelled s \<and> (\<forall>t. http_step s t \<longrightarrow> \<not> begins s t)) \<and>
      (\<forall>e. phase s = ServerReturned (Some e) \<longrightarrow> served s = Some (Some e) \<and> \<not> errors_Is (Some e) ErrServerClosed))"
proof (intro conjI allI impI)
  fix f k assume "http_start (f 0)" "\<forall>n. http_step (f n) (f (Suc n))"
  then show "\<exists>n \<ge> k. begins (f n) (f (Suc n))" using http_life.no_endless_run by blast
next
  fix s assume s: "reach http_start http_step s"
  note ok = http_life.invar_reach [OF s]
  show "\<exists>t r. http_step\<^sup>*\<^sup>* s t \<and> phase t = ServerReturned r" using http_life.can_return [OF s] by blast
  show "served s = Some (Some e)" "\<not> errors_Is (Some e) ErrServerClosed" if "phase s = ServerReturned (Some e)" for e
    using ok that by (auto simp: http_ok_def)
  assume "graceful s"
  with ok show "cancelled s" by (auto simp: http_ok_def)
  fix t assume "http_step s t"
  then show "\<not> begins s t" using \<open>graceful s\<close> by (cases rule: http_step.cases) (auto simp: begins_def)
qed

end
