(* ===== verification/Grpc_Serve.thy ===== *)
theory Grpc_Serve
  imports Grpc_Server Server_Lifecycle
begin

text \<open>
  What \<^verbatim>\<open>grpcserver/server.go\<close> makes of its configuration before it serves: \<^verbatim>\<open>New\<close>, the options of \<^verbatim>\<open>newGRPCServer\<close>
  with the chains of interceptors, and the order in which \<^verbatim>\<open>Run\<close> registers the services. The server object of
  \<^verbatim>\<open>google.golang.org/grpc\<close>, the health and the reflection service are arguments.
\<close>

section \<open>Configuration and options\<close>

record ('q, 'a, 'x, 'o) serve_Config = server_Config +
  sv_Logger :: "slogger option"
  sv_TLS :: bool
  sv_Registry :: "registry option"
  ServerOptions :: "'o list"
  UnaryInterceptors :: "('q, 'a, 'x) interceptor list"
  StreamInterceptors :: "'x stream_interceptor list"

definition serve_withDefaults :: "('q, 'a, 'x, 'o) serve_Config \<Rightarrow> ('q, 'a, 'x, 'o) serve_Config" where
  "serve_withDefaults cfg = server_withDefaults (cfg\<lparr>sv_Logger := Some (orDefaultLogger (sv_Logger cfg))\<rparr>)"

text \<open>
  Of two options for the same setting the later one counts; those of the configuration come last. A chain is given the
  id, the stack and the time that a call will find.
\<close>

datatype ('q, 'a, 'x, 'o) server_option =
    OptMaxRecvMsgSize int | OptMaxSendMsgSize int | OptMaxConcurrentStreams nat
  | OptKeepalive duration duration duration duration | OptEnforcement duration bool
  | OptTLS | OptTracing
  | OptChainUnary "call_env \<Rightarrow> ('q, 'a, 'x) interceptor list" | OptChainStream "call_env \<Rightarrow> 'x stream_interceptor list"
  | OptUser 'o

definition chain_config :: "('q, 'a, 'x, 'o) serve_Config \<Rightarrow> grpc_Config" where
  "chain_config cfg =
     \<lparr>srv_Logger = sv_Logger cfg, srv_Registry = (sv_Registry cfg \<noteq> None), srv_LogSkipMethods = LogSkipMethods cfg\<rparr>"

definition server_options :: "from_error \<Rightarrow> ('q, 'a, 'x, 'o) serve_Config \<Rightarrow> ('q, 'a, 'x, 'o) server_option list" where
  "server_options fe cfg =
     [OptMaxRecvMsgSize (MaxRecvMsgSize cfg), OptMaxSendMsgSize (MaxSendMsgSize cfg),
      OptMaxConcurrentStreams (MaxConcurrentStreams cfg),
      OptKeepalive (30 * second) (10 * second) (30 * minute) (30 * second), OptEnforcement (10 * second) True] @
     (if sv_TLS cfg then [OptTLS] else []) @ (if EnableTracing cfg then [OptTracing] else []) @
     [OptChainUnary (server_unary fe (chain_config cfg) (UnaryInterceptors cfg)),
      OptChainStream (server_stream fe (chain_config cfg) (StreamInterceptors cfg))] @
     map OptUser (ServerOptions cfg)"

text \<open>The metrics are registered on the way; \<^const>\<open>None\<close> is the panic when they are there already.\<close>

definition newGRPCServer ::
  "(('q, 'a, 'x, 'o) server_option list \<Rightarrow> 'v) \<Rightarrow> from_error \<Rightarrow> ('q, 'a, 'x, 'o) serve_Config \<Rightarrow>
    ('v \<times> registry option) option" where
  "newGRPCServer NewServer fe cfg =
     (case sv_Registry cfg of
        None \<Rightarrow> Some (NewServer (server_options fe cfg), None)
      | Some reg \<Rightarrow>
          (case server_NewMetrics reg of
             None \<Rightarrow> None
           | Some reg' \<Rightarrow> Some (NewServer (server_options fe cfg), Some reg')))"

section \<open>The server\<close>

record ('q, 'a, 'x, 'o, 'v) Server =
  srv_cfg :: "('q, 'a, 'x, 'o) serve_Config"
  srv_registers :: "('v \<Rightarrow> 'v) list"
  srv_health :: "bool option"

definition server_New :: "('q, 'a, 'x, 'o) serve_Config \<Rightarrow> ('v \<Rightarrow> 'v) list \<Rightarrow> ('q, 'a, 'x, 'o, 'v) Server" where
  "server_New cfg registers = \<lparr>srv_cfg = serve_withDefaults cfg, srv_registers = registers, srv_health = None\<rparr>"

definition Health :: "('q, 'a, 'x, 'o, 'v) Server \<Rightarrow> bool option" where
  "Health s = srv_health s"

record ('q, 'a, 'x, 'o, 'v) grpc_lib =
  grpc_NewServer :: "('q, 'a, 'x, 'o) server_option list \<Rightarrow> 'v"
  RegisterHealthServer :: "'v \<Rightarrow> 'v"
  reflection_Register :: "'v \<Rightarrow> 'v"

text \<open>\<^verbatim>\<open>Run\<close> between \<^verbatim>\<open>net.Listen\<close> and \<^verbatim>\<open>Serve\<close>. A health service says that it serves before it is registered.\<close>

definition server_setup ::
  "('q, 'a, 'x, 'o, 'v) grpc_lib \<Rightarrow> from_error \<Rightarrow> ('q, 'a, 'x, 'o, 'v) Server \<Rightarrow> (('q, 'a, 'x, 'o, 'v) Server \<times> 'v) option" where
  "server_setup lib fe s =
     (case newGRPCServer (grpc_NewServer lib) fe (srv_cfg s) of
        None \<Rightarrow> None
      | Some (v0, reg) \<Rightarrow>
          let s' = s\<lparr>srv_cfg := (srv_cfg s)\<lparr>sv_Registry := reg\<rparr>\<rparr>;
              (s1, v1) = (if EnableHealth (srv_cfg s) then (s'\<lparr>srv_health := Some True\<rparr>, RegisterHealthServer lib v0) else (s', v0));
              v2 = fold (\<lambda>register v. register v) (srv_registers s) v1;
              v3 = (if EnableReflection (srv_cfg s) then reflection_Register lib v2 else v2) in
          Some (s1, v3))"

section \<open>Properties\<close>

text \<open>What a list of options amounts to: the chain of all of its unary interceptors.\<close>

fun unary_chain :: "('q, 'a, 'x, 'o) server_option list \<Rightarrow> call_env \<Rightarrow> ('q, 'a, 'x) interceptor list" where
  "unary_chain [] env = []"
| "unary_chain (OptChainUnary f # os) env = f env @ unary_chain os env"
| "unary_chain (_ # os) env = unary_chain os env"

lemma unary_chain_append: "unary_chain (xs @ ys) env = unary_chain xs env @ unary_chain ys env"
  by (induction xs env rule: unary_chain.induct) auto

lemma unary_chain_user [simp]: "unary_chain (map OptUser os) env = []"
  by (induction os) auto

lemma unary_chain_options:
  "unary_chain (server_options fe cfg) env = server_unary fe (chain_config cfg) (UnaryInterceptors cfg) env"
  by (simp add: server_options_def unary_chain_append)

lemma log_records_bookkeeping [simp]:
  "log_records (SetHeader k v s) = log_records s" "log_records (add_in_flight d meth s) = log_records s"
  "log_records (metrics_observe fe meth took err s) = log_records s"
  by (simp_all add: SetHeader_def add_in_flight_def metrics_observe_def Let_def)

lemma server_NewMetrics_again: "server_NewMetrics reg = Some reg' \<Longrightarrow> server_NewMetrics reg' = None"
  by (auto simp: server_NewMetrics_def MustRegister_def split: if_splits)

lemma server_New_fields [simp]:
  "srv_registers (server_New cfg rs) = rs" "srv_health (server_New cfg rs) = None"
  "EnableHealth (srv_cfg (server_New cfg rs)) = EnableHealth cfg"
  "EnableReflection (srv_cfg (server_New cfg rs)) = EnableReflection cfg"
  "UnaryInterceptors (srv_cfg (server_New cfg rs)) = UnaryInterceptors cfg"
  "sv_Registry (srv_cfg (server_New cfg rs)) = sv_Registry cfg"
  "LogSkipMethods (srv_cfg (server_New cfg rs)) = skipped_methods @ LogSkipMethods cfg"
  by (simp_all add: server_New_def serve_withDefaults_def server_withDefaults_def)

lemma newGRPCServer_eq:
  "newGRPCServer ns fe cfg =
    map_option (Pair (ns (server_options fe cfg)))
      (case sv_Registry cfg of None \<Rightarrow> Some None | Some reg \<Rightarrow> map_option Some (server_NewMetrics reg))"
  by (simp add: newGRPCServer_def split: option.split)

lemma server_setup_eq:
  "server_setup lib fe s =
    map_option (\<lambda>reg. (s\<lparr>srv_cfg := (srv_cfg s)\<lparr>sv_Registry := reg\<rparr>,
        srv_health := (if EnableHealth (srv_cfg s) then Some True else srv_health s)\<rparr>,
      (if EnableReflection (srv_cfg s) then reflection_Register lib else id)
        (fold (\<lambda>register. register) (srv_registers s) ((if EnableHealth (srv_cfg s) then RegisterHealthServer lib else id)
          (grpc_NewServer lib (server_options fe (srv_cfg s)))))))
      (case sv_Registry (srv_cfg s) of None \<Rightarrow> Some None | Some reg \<Rightarrow> map_option Some (server_NewMetrics reg))"
proof (cases "case sv_Registry (srv_cfg s) of None \<Rightarrow> Some None | Some reg \<Rightarrow> map_option Some (server_NewMetrics reg)")
  case None
  then show ?thesis by (simp add: server_setup_def newGRPCServer_eq)
next
  case (Some reg)
  then show ?thesis by (simp add: server_setup_def newGRPCServer_eq)
qed

text \<open>
  C19. A server that \<^verbatim>\<open>New\<close> has made from any configuration and that can be set up: its health status is the one that the life of
  the server starts with, and the services are registered in the order health, those of the caller as given, reflection.
  Its unary calls pass through the chain of interceptors that the options of the configuration stand for, with the
  methods of the health and reflection services not logged: when their handler returns, the log is as the service's
  own interceptors left it. With a registry the set-up succeeds once: a second run, or a second server
  on the same registry, panics.
\<close>

theorem server_is_set_up:
  assumes "s = server_New cfg registers" and "server_setup lib fe s = Some (s', v)"
  shows "(\<forall>t. grpc_start (server_Config.truncate (srv_cfg s)) t \<longrightarrow> health t = Health s') \<and>
    v = (if EnableReflection cfg then reflection_Register lib else id)
      (fold (\<lambda>register. register) registers ((if EnableHealth cfg then RegisterHealthServer lib else id)
        (grpc_NewServer lib (server_options fe (srv_cfg s))))) \<and>
    (\<forall>env meth h c q st r err st1 out st'. meth \<in> set (skipped_methods @ LogSkipMethods cfg) \<longrightarrow>
       chain_unary (UnaryInterceptors cfg) meth h (enter_ctx (chain_config (srv_cfg s)) env meth c) q
         (enter_state (chain_config (srv_cfg s)) env meth c st) = (Returned r err, st1) \<longrightarrow>
       chain_unary (unary_chain (server_options fe (srv_cfg s)) env) meth h c q st = (out, st') \<longrightarrow>
       log_records st' = log_records st1) \<and>
    (sv_Registry cfg \<noteq> None \<longrightarrow> server_setup lib fe s' = None)"
proof (intro conjI allI impI)
  fix t assume "grpc_start (server_Config.truncate (srv_cfg s)) t"
  then show "health t = Health s'"
    using assms by (auto simp: grpc_start_def Health_def server_setup_eq server_Config.defs)
next
  show "v = (if EnableReflection cfg then reflection_Register lib else id)
      (fold (\<lambda>register. register) registers ((if EnableHealth cfg then RegisterHealthServer lib else id)
        (grpc_NewServer lib (server_options fe (srv_cfg s)))))"
    using assms(2) unfolding assms(1) server_setup_eq server_New_fields map_option_eq_Some by blast
next
  fix env meth h c q st r err st1 out st'
  let ?cc = "chain_config (srv_cfg s)"
  assume skip: "meth \<in> set (skipped_methods @ LogSkipMethods cfg)"
    and inner: "chain_unary (UnaryInterceptors cfg) meth h (enter_ctx ?cc env meth c) q (enter_state ?cc env meth c st) = (Returned r err, st1)"
    and call: "chain_unary (unary_chain (server_options fe (srv_cfg s)) env) meth h c q st = (out, st')"
  have user: "UnaryInterceptors (srv_cfg s) = UnaryInterceptors cfg" and skipped: "meth \<in> set (srv_LogSkipMethods ?cc)"
    using skip by (simp_all add: assms(1) chain_config_def)
  show "log_records st' = log_records st1"
    using call skipped by (auto simp: unary_chain_options server_chain_leave user inner leave_def Let_def)
next
  assume "sv_Registry cfg \<noteq> None"
  then obtain reg where reg: "sv_Registry cfg = Some reg" by blast
  then obtain reg' where "server_NewMetrics reg = Some reg'" "sv_Registry (srv_cfg s') = Some reg'"
    using assms(2) unfolding assms(1) by (auto simp: server_setup_eq)
  then show "server_setup lib fe s' = None" by (simp add: server_setup_eq server_NewMetrics_again)
qed

text \<open>A server with a registry and a health service; a server object is the list of what was done to it.\<close>

definition sample_serve_Config :: "(unit, unit, unit, unit) serve_Config" where
  "sample_serve_Config = server_Config.extend sample_server
     \<lparr>sv_Logger = None, sv_TLS = False, sv_Registry = Some {}, ServerOptions = [], UnaryInterceptors = [], StreamInterceptors = []\<rparr>"

definition sample_grpc_lib :: "(unit, unit, unit, unit, string list) grpc_lib" where
  "sample_grpc_lib = \<lparr>grpc_NewServer = (\<lambda>os. []), RegisterHealthServer = (\<lambda>v. v @ [''health'']),
     reflection_Register = (\<lambda>v. v @ [''reflection''])\<rparr>"

theorem server_is_set_up_witness:
  "\<exists>s' v. server_setup sample_grpc_lib documented_from_error (server_New sample_serve_Config [\<lambda>v. v @ [''users'']]) = Some (s', v) \<and>
     v = [''health'', ''users''] \<and> server_setup sample_grpc_lib documented_from_error s' = None"
proof -
  let ?s = "server_New sample_serve_Config [\<lambda>v. v @ [''users'']]"
  have "server_NewMetrics {} \<noteq> None" "sv_Registry sample_serve_Config = Some {}"
    by (simp_all add: server_NewMetrics_def DurationBuckets_increasing MustRegister_def sample_serve_Config_def server_Config.defs)
  then obtain s' v where run: "server_setup sample_grpc_lib documented_from_error ?s = Some (s', v)"
    by (auto simp: server_setup_eq)
  from server_is_set_up [OF refl run]
  have "v = [''health'', ''users'']" "server_setup sample_grpc_lib documented_from_error s' = None"
    by (auto simp: sample_serve_Config_def sample_server_def server_withDefaults_def server_Config.defs sample_grpc_lib_def)
  with run show ?thesis by blast
qed

end
