(* ===== verification/Grpc_Client.thy ===== *)
theory Grpc_Client
  imports Grpc_Server
begin

text \<open>
  The package \<^verbatim>\<open>grpcclient\<close>: the interceptors of a client connection, the forwarding of
  tokens and request ids, and the source of service tokens. An invoker is what an
  interceptor wraps: the call itself, on a world \<open>'w\<close> beyond the client; \<open>target\<close> and
  \<open>took\<close> are the connection's target and the time a call takes.
\<close>

section \<open>Calls\<close>

record 'w client =
  client_log :: "log_record list"
  remote :: 'w

type_synonym ('q, 'w) invoker = "ctx \<Rightarrow> string \<Rightarrow> 'q \<Rightarrow> 'w client \<Rightarrow> goerr option \<times> 'w client"
type_synonym ('q, 'w) client_interceptor = "('q, 'w) invoker \<Rightarrow> ('q, 'w) invoker"

text \<open>A streamer opens a stream: a stream of type \<open>'s\<close> and an error.\<close>

type_synonym ('s, 'w) streamer = "ctx \<Rightarrow> string \<Rightarrow> 'w client \<Rightarrow> ('s option \<times> goerr option) \<times> 'w client"
type_synonym ('s, 'w) client_stream_interceptor = "('s, 'w) streamer \<Rightarrow> ('s, 'w) streamer"

definition client_write_log :: "slogger \<Rightarrow> ctx \<Rightarrow> log_level \<Rightarrow> string \<Rightarrow> attr list \<Rightarrow> 'w client \<Rightarrow> 'w client" where
  "client_write_log l c level msg as w =
     (case handler_Handle l (ctx_log_attrs c) None level msg as of
        None \<Rightarrow> w | Some r \<Rightarrow> w\<lparr>client_log := client_log w @ [r]\<rparr>)"

section \<open>Request ids\<close>

definition client_withRequestID :: "ctx \<Rightarrow> ctx" where
  "client_withRequestID c =
     (case requestid_FromContext c of
        None \<Rightarrow> c
      | Some i \<Rightarrow>
          if \<exists>md. ctx_outgoing c = Some md \<and> md request_id_key \<noteq> [] then c
          else AppendToOutgoingContext c request_id_key i)"

definition client_RequestIDUnaryInterceptor :: "('q, 'w) client_interceptor" where
  "client_RequestIDUnaryInterceptor invoke c meth q w = invoke (client_withRequestID c) meth q w"

definition client_RequestIDStreamInterceptor :: "('s, 'w) client_stream_interceptor" where
  "client_RequestIDStreamInterceptor open c meth w = open (client_withRequestID c) meth w"

section \<open>Timeout and logging\<close>

definition client_TimeoutUnaryInterceptor :: "instant \<Rightarrow> duration \<Rightarrow> ('q, 'w) client_interceptor" where
  "client_TimeoutUnaryInterceptor now timeout invoke c meth q w =
     (if ctx_deadline c \<noteq> None \<or> timeout \<le> 0 then invoke c meth q w
      else invoke (c\<lparr>ctx_deadline := Some (now + timeout)\<rparr>) meth q w)"

definition logCall ::
  "from_error \<Rightarrow> ctx \<Rightarrow> slogger \<Rightarrow> string \<Rightarrow> string \<Rightarrow> duration \<Rightarrow> goerr option \<Rightarrow> 'w client \<Rightarrow> 'w client" where
  "logCall fe c l meth target took err w =
     (let attrs = [(''method'', meth), (''target'', target), (''code'', code_String (status_Code fe err)),
            (''duration_ms'', itoa (milliseconds took))] @
            (if requestid_Get c \<noteq> [] then [(''request_id'', requestid_Get c)] else []) in
      case err of
        None \<Rightarrow> client_write_log l c LevelDebug ''grpc client call'' attrs w
      | Some e \<Rightarrow> client_write_log l c LevelWarn ''grpc client call failed'' (attrs @ [(''error'', error_text e)]) w)"

definition client_LoggingUnaryInterceptor ::
  "from_error \<Rightarrow> slogger option \<Rightarrow> string \<Rightarrow> duration \<Rightarrow> ('q, 'w) client_interceptor" where
  "client_LoggingUnaryInterceptor fe log target took invoke c meth q w =
     (let (err, w') = invoke c meth q w in (err, logCall fe c (orDefaultLogger log) meth target took err w'))"

definition client_LoggingStreamInterceptor ::
  "from_error \<Rightarrow> slogger option \<Rightarrow> string \<Rightarrow> duration \<Rightarrow> ('s, 'w) client_stream_interceptor" where
  "client_LoggingStreamInterceptor fe log target took open c meth w =
     (let ((stream, err), w') = open c meth w in
      ((stream, err), logCall fe c (orDefaultLogger log) meth target took err w'))"

section \<open>Tokens\<close>

definition StaticTokenInterceptor :: "(ctx \<Rightarrow> string result) \<Rightarrow> ('q, 'w) client_interceptor" where
  "StaticTokenInterceptor token invoke c meth q w =
     (case token c of
        Inl e \<Rightarrow> (Some (status_Error codes_Unauthenticated (''get service token: '' @ error_text e)), w)
      | Inr v \<Rightarrow> invoke (AppendToOutgoingContext c ''authorization'' (''Bearer '' @ v)) meth q w)"

definition incomingBearer :: "ctx \<Rightarrow> string" where
  "incomingBearer c =
     (case ctx_incoming c of
        None \<Rightarrow> []
      | Some md \<Rightarrow>
          (case md authorization_key of
             [] \<Rightarrow> []
           | header # _ \<Rightarrow> (case strip_bearer header of None \<Rightarrow> [] | Some raw \<Rightarrow> raw)))"

definition withForwardedToken :: "ctx \<Rightarrow> ctx" where
  "withForwardedToken c =
     (if \<exists>md. ctx_outgoing c = Some md \<and> md authorization_key \<noteq> [] then c
      else
        let raw = (case TokenFromContext c of Some t \<Rightarrow> t | None \<Rightarrow> incomingBearer c) in
        if raw = [] then c else AppendToOutgoingContext c authorization_key (''Bearer '' @ raw))"

definition ForwardTokenUnaryInterceptor :: "('q, 'w) client_interceptor" where
  "ForwardTokenUnaryInterceptor invoke c meth q w = invoke (withForwardedToken c) meth q w"

definition ForwardTokenStreamInterceptor :: "('s, 'w) client_stream_interceptor" where
  "ForwardTokenStreamInterceptor open c meth w = open (withForwardedToken c) meth w"

section \<open>Service tokens\<close>

definition DefaultServiceTokenTTL :: duration where "DefaultServiceTokenTTL = 5 * minute"
definition serviceTokenRenewBefore :: duration where "serviceTokenRenewBefore = 30 * second"

record ServiceTokenSource =
  src_manager :: "Manager option"
  src_subject :: string
  src_ttl :: duration
  src_roles :: "string list"
  src_cached :: string
  src_expires :: instant

definition NewServiceTokenSource :: "Manager option \<Rightarrow> string \<Rightarrow> duration \<Rightarrow> ServiceTokenSource" where
  "NewServiceTokenSource m subject ttl =
     \<lparr>src_manager = m, src_subject = subject, src_ttl = (if ttl \<le> 0 then DefaultServiceTokenTTL else ttl),
      src_roles = [RoleService], src_cached = [], src_expires = 0\<rparr>"

text \<open>
  \<open>now\<close> is the source's reading of the clock, \<open>now'\<close> the manager's, taken later. A source
  that is a nil pointer is \<^const>\<open>None\<close>.
\<close>

definition service_options :: "ServiceTokenSource \<Rightarrow> IssueOptions" where
  "service_options src = \<lparr>opt_SessionID = [], opt_Roles = src_roles src, opt_TTL = src_ttl src, opt_ID = []\<rparr>"

definition source_Token ::
  "jwt \<Rightarrow> instant \<Rightarrow> instant \<Rightarrow> ServiceTokenSource option \<Rightarrow> string result \<times> ServiceTokenSource option" where
  "source_Token lib now now' source =
     (case source of
        None \<Rightarrow> (Inl (ErrorString ''grpcclient: service token source is not configured''), None)
      | Some src \<Rightarrow>
          (case src_manager src of
             None \<Rightarrow> (Inl (ErrorString ''grpcclient: service token source is not configured''), Some src)
           | Some m \<Rightarrow>
               if src_cached src \<noteq> [] \<and> now < src_expires src - serviceTokenRenewBefore
               then (Inr (src_cached src), Some src)
               else
                 (case IssueAccess lib m now' (src_subject src) (service_options src) of
                    Inl e \<Rightarrow> (Inl (errorf ''grpcclient: issue service token: '' e), Some src)
                  | Inr (raw, claims) \<Rightarrow>
                      (Inr raw, Some (src\<lparr>src_cached := raw, src_expires := the (ExpiresAt claims)\<rparr>)))))"

text \<open>The interceptor, with the source as part of the state it is given.\<close>

definition ServiceTokenUnaryInterceptor ::
  "jwt \<Rightarrow> instant \<Rightarrow> instant \<Rightarrow> ServiceTokenSource option \<Rightarrow> ('q, 'w) invoker \<Rightarrow>
   ctx \<Rightarrow> string \<Rightarrow> 'q \<Rightarrow> 'w client \<Rightarrow> goerr option \<times> 'w client \<times> ServiceTokenSource option" where
  "ServiceTokenUnaryInterceptor lib now now' source invoke c meth q w =
     (case source_Token lib now now' source of
        (Inl e, source') \<Rightarrow> (Some e, w, source')
      | (Inr raw, source') \<Rightarrow>
          let md = (case ctx_outgoing c of None \<Rightarrow> md_empty | Some md \<Rightarrow> md);
              (err, w') = invoke (c\<lparr>ctx_outgoing := Some (md(authorization_key := [''Bearer '' @ raw]))\<rparr>) meth q w in
          (err, w', source'))"

section \<open>Configuration and chains\<close>

record client_Config =
  cl_Target :: string
  cl_Logger :: "slogger option"
  cl_TLS :: bool
  cl_RequireTLS :: bool
  cl_DisableRetries :: bool
  cl_DefaultTimeout :: duration
  cl_ConnectTimeout :: duration
  cl_WaitForConnection :: bool
  cl_MaxRecvMsgSize :: int
  cl_MaxSendMsgSize :: int
  cl_ServiceConfig :: string

definition client_withDefaults :: "'z client_Config_scheme \<Rightarrow> 'z client_Config_scheme" where
  "client_withDefaults c =
     c\<lparr>cl_Logger := Some (orDefaultLogger (cl_Logger c)),
       cl_ConnectTimeout := if cl_ConnectTimeout c = 0 then 5 * second else cl_ConnectTimeout c,
       cl_DefaultTimeout := if cl_DefaultTimeout c = 0 then 5 * second else cl_DefaultTimeout c,
       cl_MaxRecvMsgSize := if cl_MaxRecvMsgSize c = 0 then 4 * 1024 * 1024 else cl_MaxRecvMsgSize c,
       cl_MaxSendMsgSize := if cl_MaxSendMsgSize c = 0 then 4 * 1024 * 1024 else cl_MaxSendMsgSize c\<rparr>"

interpretation client_cfg: defaulting client_withDefaults
  "\<lambda>c. cl_Logger c \<noteq> None \<and> cl_ConnectTimeout c \<noteq> 0 \<and> cl_DefaultTimeout c \<noteq> 0 \<and>
     cl_MaxRecvMsgSize c \<noteq> 0 \<and> cl_MaxSendMsgSize c \<noteq> 0"
  by unfold_locales (auto simp: client_withDefaults_def orDefaultLogger_def duration_units)

datatype transport = TLSCredentials | InsecureCredentials

definition transportCredentials :: "'z client_Config_scheme \<Rightarrow> transport result" where
  "transportCredentials c =
     (if cl_TLS c then Inr TLSCredentials
      else if cl_RequireTLS c
      then Inl (ErrorString ''grpcclient: RequireTLS is set but TLS config is missing'')
      else Inr InsecureCredentials)"

definition client_unary ::
  "from_error \<Rightarrow> 'z client_Config_scheme \<Rightarrow> instant \<Rightarrow> duration \<Rightarrow> ('q, 'w) client_interceptor list \<Rightarrow> ('q, 'w) client_interceptor list" where
  "client_unary fe cfg now took user =
     [client_RequestIDUnaryInterceptor, ForwardTokenUnaryInterceptor,
      client_TimeoutUnaryInterceptor now (cl_DefaultTimeout cfg),
      client_LoggingUnaryInterceptor fe (cl_Logger cfg) (cl_Target cfg) took] @ user"

definition client_stream ::
  "from_error \<Rightarrow> 'z client_Config_scheme \<Rightarrow> duration \<Rightarrow> ('s, 'w) client_stream_interceptor list \<Rightarrow> ('s, 'w) client_stream_interceptor list" where
  "client_stream fe cfg took user =
     [client_RequestIDStreamInterceptor, ForwardTokenStreamInterceptor,
      client_LoggingStreamInterceptor fe (cl_Logger cfg) (cl_Target cfg) took] @ user"

definition chain_client :: "('a \<Rightarrow> 'a) list \<Rightarrow> 'a \<Rightarrow> 'a" where
  "chain_client ics invoke = foldr (\<lambda>ic acc. ic acc) ics invoke"

section \<open>From a client to the next server\<close>

text \<open>The outgoing metadata of a call are the incoming metadata of the server that takes it.\<close>

definition arrives :: "ctx \<Rightarrow> ctx" where
  "arrives c = empty_ctx\<lparr>ctx_incoming := Some (case ctx_outgoing c of None \<Rightarrow> md_empty | Some md \<Rightarrow> md)\<rparr>"

definition out_values :: "ctx \<Rightarrow> string \<Rightarrow> string list" where
  "out_values c k = (case ctx_outgoing c of None \<Rightarrow> [] | Some md \<Rightarrow> md k)"

lemma arrives_value: "metadataValue (the (ctx_incoming (arrives c))) k = (case out_values c k of [] \<Rightarrow> [] | v # _ \<Rightarrow> v)"
  by (simp add: arrives_def out_values_def metadataValue_def md_empty_def split: option.splits)

lemma out_values_append [simp]:
  "out_values (AppendToOutgoingContext c k v) k' = out_values c k' @ (if k' = k then [v] else [])"
  by (auto simp: out_values_def AppendToOutgoingContext_def md_empty_def Let_def split: option.splits)

lemma outgoing_guard: "(\<exists>md. ctx_outgoing c = Some md \<and> md k \<noteq> []) \<longleftrightarrow> out_values c k \<noteq> []"
  by (auto simp: out_values_def split: option.splits)

lemma BearerToken_arrives:
  assumes "out_values c authorization_key = (''Bearer '' @ raw) # rest" and "trimmed raw" and "raw \<noteq> []"
  shows "BearerToken (arrives c) = Inr raw"
proof -
  have "metadataValue (the (ctx_incoming (arrives c))) authorization_key = ''Bearer '' @ raw"
    by (simp add: arrives_value assms(1))
  moreover obtain md where "ctx_incoming (arrives c) = Some md" by (simp add: arrives_def)
  ultimately show ?thesis
    using strip_bearer_Bearer [OF assms(2)] assms(3) by (simp add: BearerToken_def)
qed

lemma BearerToken_incoming: "BearerToken c = Inr raw \<Longrightarrow> incomingBearer c = raw \<and> raw \<noteq> [] \<and> trimmed raw"
  by (auto simp: BearerToken_def incomingBearer_def metadataValue_def Let_def strip_bearer_def
      split: option.splits list.splits if_splits)


lemma bearer_ctx_token: "trimmed raw \<Longrightarrow> raw \<noteq> [] \<Longrightarrow> BearerToken (bearer_ctx (''Bearer '' @ raw)) = Inr raw"
  using strip_bearer_Bearer by (simp add: BearerToken_def bearer_ctx_def metadataValue_def)


text \<open>
  A request keeps its id across services: the id that the server's interceptor puts into
  the context is the one that the next server finds and keeps, however often a request is
  passed on, and it is never replaced by a fresh one.
\<close>

lemma request_id_is_kept:
  assumes "fresh \<noteq> []" and "out_values c request_id_key = []" and "withRequestID fresh c = (c1, i)"
  shows "i \<noteq> [] \<and> requestid_FromContext c1 = Some i \<and>
    snd (withRequestID fresh' (arrives (client_withRequestID c1))) = i"
proof -
  have i: "i \<noteq> []" and c1: "requestid_FromContext c1 = Some i" "out_values c1 request_id_key = []"
    using assms by (auto simp: withRequestID_def Let_def requestid_FromContext_def requestid_NewContext_def
        logger_Attrs_def out_values_def split: if_splits)
  have "out_values (client_withRequestID c1) request_id_key = [i]"
    using c1 by (simp add: client_withRequestID_def outgoing_guard)
  then have "metadataValue (the (ctx_incoming (arrives (client_withRequestID c1)))) request_id_key = i"
    by (simp add: arrives_value)
  moreover obtain md where "ctx_incoming (arrives (client_withRequestID c1)) = Some md" by (simp add: arrives_def)
  ultimately have "snd (withRequestID fresh' (arrives (client_withRequestID c1))) = i"
    using i by (simp add: withRequestID_def Let_def)
  with i c1 show ?thesis by blast
qed

text \<open>
  \<^verbatim>\<open>StaticTokenInterceptor\<close> does not replace a forwarded token: it runs after
  \<^verbatim>\<open>ForwardTokenUnaryInterceptor\<close> in the chain of \<^verbatim>\<open>New\<close> and appends its header, so when the
  call is made while a request with a bearer token is being handled, the next server, which reads the first
  value, sees the token of that request and never the service token.
\<close>

lemma static_token_is_shadowed:
  assumes "out_values c authorization_key = []" and "BearerToken c = Inr raw" and "TokenFromContext c = None"
    and "token (withForwardedToken c) = Inr v"
  shows "chain_client [ForwardTokenUnaryInterceptor, StaticTokenInterceptor token] invoke c meth q w =
      invoke (AppendToOutgoingContext (withForwardedToken c) ''authorization'' (''Bearer '' @ v)) meth q w \<and>
    BearerToken (arrives (AppendToOutgoingContext (withForwardedToken c) ''authorization'' (''Bearer '' @ v))) = Inr raw"
proof
  note inc = BearerToken_incoming [OF assms(2)]
  show "chain_client [ForwardTokenUnaryInterceptor, StaticTokenInterceptor token] invoke c meth q w =
      invoke (AppendToOutgoingContext (withForwardedToken c) ''authorization'' (''Bearer '' @ v)) meth q w"
    by (simp add: chain_client_def ForwardTokenUnaryInterceptor_def StaticTokenInterceptor_def assms(4))
  have "out_values (AppendToOutgoingContext (withForwardedToken c) ''authorization'' (''Bearer '' @ v)) authorization_key =
      (''Bearer '' @ raw) # [''Bearer '' @ v]"
    using inc assms(1,3) by (simp add: withForwardedToken_def outgoing_guard) (simp add: authorization_key_def)
  then show "BearerToken (arrives (AppendToOutgoingContext (withForwardedToken c) ''authorization'' (''Bearer '' @ v))) = Inr raw"
    using inc by (intro BearerToken_arrives) auto
qed

section \<open>Calls between services\<close>

text \<open>The compact form of a token has no white space at its ends and is not empty.\<close>

definition jwt_compact :: "jwt \<Rightarrow> bool" where
  "jwt_compact lib \<longleftrightarrow> (\<forall>m sk c raw. SignedString lib m sk c = Inr raw \<longrightarrow> raw \<noteq> [] \<and> trimmed raw)"

text \<open>The invariant of a source: what it has cached was issued by its manager before.\<close>

definition source_ok :: "jwt \<Rightarrow> Manager \<Rightarrow> instant \<Rightarrow> ServiceTokenSource \<Rightarrow> bool" where
  "source_ok lib m now src \<longleftrightarrow>
     src_manager src = Some m \<and> src_roles src = [RoleService] \<and>
     (src_cached src \<noteq> [] \<longrightarrow>
        (\<exists>t0 c. t0 \<le> now \<and> IssueAccess lib m t0 (src_subject src) (service_options src) = Inr (src_cached src, c) \<and>
           ExpiresAt c = Some (src_expires src)))"

lemma source_ok_new: "source_ok lib m now (NewServiceTokenSource (Some m) subject ttl)"
  by (simp add: source_ok_def NewServiceTokenSource_def)

lemma source_Token_issued:
  assumes "source_ok lib m now src" and "now \<le> now'" and "source_Token lib now now' (Some src) = (Inr raw, src')"
  obtains t0 c e s' where "src' = Some s'" and "source_ok lib m now' s'" and "src_subject s' = src_subject src"
    and "src_ttl s' = src_ttl src"
    and "t0 \<le> now'" and "IssueAccess lib m t0 (src_subject src) (service_options src) = Inr (raw, c)"
    and "ExpiresAt c = Some e" and "now < e - serviceTokenRenewBefore \<or> t0 = now'"
proof (cases "src_cached src \<noteq> [] \<and> now < src_expires src - serviceTokenRenewBefore")
  case True
  then obtain t0 c where t0: "t0 \<le> now" "ExpiresAt c = Some (src_expires src)"
      "IssueAccess lib m t0 (src_subject src) (service_options src) = Inr (src_cached src, c)"
    using assms(1) by (auto simp: source_ok_def)
  have r: "raw = src_cached src" "src' = Some src"
    using assms(1,3) True by (auto simp: source_Token_def source_ok_def)
  have "source_ok lib m now' src" using assms(1,2) by (auto simp: source_ok_def intro: order_trans)
  with t0 r True assms(2) show thesis by (intro that [of src t0 c "src_expires src"]) auto
next
  case False
  then obtain c where c: "IssueAccess lib m now' (src_subject src) (service_options src) = Inr (raw, c)"
      "src' = Some (src\<lparr>src_cached := raw, src_expires := the (ExpiresAt c)\<rparr>)"
    using assms(1,3) by (auto simp: source_Token_def source_ok_def split: sum.splits if_splits)
  then obtain ttl where "c = issued_claims m now' (src_subject src) TypeAccess (service_options src) ttl"
    unfolding IssueAccess_def by (metis Issue_InrE)
  then obtain e where e: "ExpiresAt c = Some e" by (simp add: issued_claims_def)
  have "service_options (src\<lparr>src_cached := raw, src_expires := e\<rparr>) = service_options src"
    by (simp add: service_options_def)
  with c e assms(1) show thesis
    by (intro that [of "src\<lparr>src_cached := raw, src_expires := e\<rparr>" now' c e]) (auto simp: source_ok_def)
qed


definition sample_source :: ServiceTokenSource where
  "sample_source = NewServiceTokenSource (Some sample_manager) ''billing'' 0"

definition service_claims :: Claims where
  "service_claims = issued_claims sample_manager 0 ''billing'' TypeAccess (service_options sample_source) (5 * minute)"

definition service_jwt :: jwt where
  "service_jwt = table_jwt (replicate 32 CHR ''k'') [(''tok'', service_claims)]"

definition service_ctx :: ctx where
  "service_ctx = empty_ctx\<lparr>ctx_outgoing := Some (md_empty(authorization_key := [''Bearer '' @ ''tok'']))\<rparr>"


end
