(* ===== verification/Client_Connection.thy ===== *)
theory Client_Connection
  imports Grpc_Client
begin

text \<open>
  \<^verbatim>\<open>New\<close> of \<^verbatim>\<open>grpcclient/client.go\<close>: the options of a connection, with the chains of interceptors, the loop that waits
  for it, and what becomes of a connection that cannot be used. The library's constructor of a connection is an argument.
\<close>

section \<open>Options\<close>

definition tabs :: "nat \<Rightarrow> string" where "tabs n = replicate n CHR 0x09"

definition defaultServiceConfig :: string where
  "defaultServiceConfig = join [CHR 0x0A]
     [tabs 0 @ ''{'',
      tabs 1 @ ''\"loadBalancingConfig\": [{\"round_robin\": {}}],'',
      tabs 1 @ ''\"methodConfig\": [{'',
      tabs 2 @ ''\"name\": [{}],'',
      tabs 2 @ ''\"retryPolicy\": {'',
      tabs 3 @ ''\"maxAttempts\": 4,'',
      tabs 3 @ ''\"initialBackoff\": \"0.1s\",'',
      tabs 3 @ ''\"maxBackoff\": \"2s\",'',
      tabs 3 @ ''\"backoffMultiplier\": 2.0,'',
      tabs 3 @ ''\"retryableStatusCodes\": [\"UNAVAILABLE\", \"RESOURCE_EXHAUSTED\"]'',
      tabs 2 @ ''}'',
      tabs 1 @ ''}]'',
      tabs 0 @ ''}'']"

record ('q, 's, 'w, 'o) dial_Config = client_Config +
  cl_EnableTracing :: bool
  cl_DialOptions :: "'o list"
  cl_UnaryInterceptors :: "('q, 'w) client_interceptor list"
  cl_StreamInterceptors :: "('s, 'w) client_stream_interceptor list"

text \<open>A chain is given the clock and the time that a call will take.\<close>

datatype ('q, 's, 'w, 'o) dial_option =
    DialTransport transport | DialCallSizes int int | DialKeepalive duration duration bool
  | DialServiceConfig string | DialTracing
  | DialChainUnary "instant \<Rightarrow> duration \<Rightarrow> ('q, 'w) client_interceptor list"
  | DialChainStream "duration \<Rightarrow> ('s, 'w) client_stream_interceptor list"
  | DialUser 'o

definition client_options ::
  "from_error \<Rightarrow> ('q, 's, 'w, 'o) dial_Config \<Rightarrow> transport \<Rightarrow> ('q, 's, 'w, 'o) dial_option list" where
  "client_options fe cfg t =
     [DialTransport t, DialCallSizes (cl_MaxRecvMsgSize cfg) (cl_MaxSendMsgSize cfg),
      DialKeepalive (30 * second) (10 * second) True] @
     (if cl_DisableRetries cfg then []
      else [DialServiceConfig (if cl_ServiceConfig cfg = [] then defaultServiceConfig else cl_ServiceConfig cfg)]) @
     (if cl_EnableTracing cfg then [DialTracing] else []) @
     [DialChainUnary (\<lambda>now took. client_unary fe cfg now took (cl_UnaryInterceptors cfg)),
      DialChainStream (\<lambda>took. client_stream fe cfg took (cl_StreamInterceptors cfg))] @
     map DialUser (cl_DialOptions cfg)"

section \<open>Connecting\<close>

text \<open>
  Waiting for a connection: the states that \<^verbatim>\<open>GetState\<close> returns one after the other, each
  with whether \<^verbatim>\<open>WaitForStateChange\<close> saw a change before the deadline. The list runs out only
  if the connection keeps changing its state for ever before the deadline.
\<close>

datatype connectivity = Idle | Connecting | Ready | TransientFailure | Shutdown

fun waitForConnection :: "goerr \<Rightarrow> (connectivity \<times> bool) list \<Rightarrow> goerr option option" where
  "waitForConnection ctx_error [] = None"
| "waitForConnection ctx_error ((state, changed) # rest) =
     (if state = Ready then Some None
      else if state = Shutdown then Some (Some (ErrorString ''grpcclient: connection is shut down''))
      else if \<not> changed then Some (Some ctx_error)
      else waitForConnection ctx_error rest)"

text \<open>
  \<^verbatim>\<open>New\<close>: \<open>dial\<close> is the library's constructor of a connection, \<open>states\<close> what waiting sees. The result \<^const>\<open>None\<close> means that
  it is still waiting; the list has the connections that were closed.
\<close>

definition client_New ::
  "(string \<Rightarrow> ('q, 's, 'w, 'o) dial_option list \<Rightarrow> 'conn result) \<Rightarrow> from_error \<Rightarrow> goerr \<Rightarrow> (connectivity \<times> bool) list \<Rightarrow>
   ('q, 's, 'w, 'o) dial_Config \<Rightarrow> 'conn result option \<times> 'conn list" where
  "client_New dial fe ctx_error states cfg0 =
     (let cfg = client_withDefaults cfg0 in
      if cl_Target cfg = [] then (Some (Inl (ErrorString ''grpcclient: target is required'')), [])
      else case transportCredentials cfg of
        Inl e \<Rightarrow> (Some (Inl e), [])
      | Inr t \<Rightarrow>
          (case dial (cl_Target cfg) (client_options fe cfg t) of
             Inl e \<Rightarrow> (Some (Inl e), [])
           | Inr conn \<Rightarrow>
               if \<not> cl_WaitForConnection cfg then (Some (Inr conn), [])
               else (case waitForConnection ctx_error states of
                       None \<Rightarrow> (None, [])
                     | Some None \<Rightarrow> (Some (Inr conn), [])
                     | Some (Some e) \<Rightarrow> (Some (Inl e), [conn]))))"

lemma waitForConnection_returns:
  assumes "(state, changed) \<in> set states" and "state \<in> {Ready, Shutdown} \<or> \<not> changed"
  shows "waitForConnection e states \<noteq> None"
  using assms by (induction e states rule: waitForConnection.induct) auto

text \<open>
  A connection that was made is returned or closed, unless \<^verbatim>\<open>New\<close> is still waiting for it; it is returned only if it
  is ready or was not waited for, and with the transport that the configuration requires.
\<close>

lemma client_New_keeps_track:
  assumes "dial (cl_Target cfg) (client_options fe (client_withDefaults cfg) t) = Inr conn"
    and "transportCredentials cfg = Inr t" and "cl_Target cfg \<noteq> []" and "client_New dial fe ctx_error states cfg = (res, closed)"
  shows "res = Some (Inr conn) \<and> closed = [] \<and> (cl_WaitForConnection cfg \<longrightarrow> Ready \<in> fst ` set states) \<or>
    (\<exists>e. res = Some (Inl e)) \<and> closed = [conn] \<or> res = None \<and> closed = []"
proof -
  have ready: "Ready \<in> fst ` set states" if "waitForConnection ctx_error states = Some None" for ctx_error states
    using that by (induction ctx_error states rule: waitForConnection.induct) (auto split: if_splits)
  show ?thesis
    using assms ready by (auto simp: client_New_def Let_def client_withDefaults_def transportCredentials_def
      split: if_splits option.splits)
qed

lemma client_New_respects_RequireTLS:
  assumes "client_New dial fe ctx_error states cfg = (Some (Inr conn), closed)" and "cl_RequireTLS cfg"
  shows "\<exists>target os. dial target os = Inr conn \<and> DialTransport TLSCredentials \<in> set os \<and> DialTransport InsecureCredentials \<notin> set os"
proof -
  let ?cfg = "client_withDefaults cfg"
  have "cl_RequireTLS ?cfg" using assms(2) by (simp add: client_withDefaults_def)
  then have tls: "t = TLSCredentials" if "transportCredentials ?cfg = Inr t" for t
    using that by (auto simp: transportCredentials_def split: if_splits)
  from assms(1) obtain t where "transportCredentials ?cfg = Inr t" "dial (cl_Target ?cfg) (client_options fe ?cfg t) = Inr conn"
    by (auto simp: client_New_def Let_def split: if_splits sum.splits option.splits)
  with tls show ?thesis
    by (intro exI [of _ "cl_Target ?cfg"] exI [of _ "client_options fe ?cfg t"]) (auto simp: client_options_def)
qed

section \<open>The chain\<close>

text \<open>What the chain of a connection does with a call, in one piece.\<close>

definition prepared :: "ctx \<Rightarrow> ctx" where
  "prepared c = withForwardedToken (client_withRequestID c)"

definition with_deadline :: "instant \<Rightarrow> duration \<Rightarrow> ctx \<Rightarrow> ctx" where
  "with_deadline now timeout c =
     (if ctx_deadline c \<noteq> None \<or> timeout \<le> 0 then c else c\<lparr>ctx_deadline := Some (now + timeout)\<rparr>)"


end
