(* ===== verification/Component_Runner.thy ===== *)
theory Component_Runner
  imports Apperr
begin

text \<open>
  The package \<^verbatim>\<open>runner\<close>: components that run side by side, stop each other, and are given a
  bounded time to shut down. \<^verbatim>\<open>Run\<close> is a step relation over the goroutines it starts: one per
  component, one that waits for the group, and the caller. The steps are as fine as the
  code's own order of effects: the function given to the group returns, its deferred
  \<^verbatim>\<open>cancel()\<close> runs, and only then does the group see the error. The log lines are left out.
\<close>

section \<open>The runner\<close>

definition DefaultShutdownTimeout :: duration where "DefaultShutdownTimeout = 30 * second"

record Runner =
  component_names :: "string list"
  shutdownTimeout :: duration

definition runner_New :: Runner where
  "runner_New = \<lparr>component_names = [], shutdownTimeout = DefaultShutdownTimeout\<rparr>"

definition WithShutdownTimeout :: "Runner \<Rightarrow> duration \<Rightarrow> Runner" where
  "WithShutdownTimeout r timeout = (if timeout > 0 then r\<lparr>shutdownTimeout := timeout\<rparr> else r)"

definition runner_Add :: "Runner \<Rightarrow> string \<Rightarrow> Runner" where
  "runner_Add r name = r\<lparr>component_names := component_names r @ [name]\<rparr>"

section \<open>Running\<close>

text \<open>
  A component runs; it has returned; its deferred cancel has run; the group has taken note.
  The last three keep what the component returned.
\<close>

datatype cstate =
    Running
  | Exiting "goerr option"
  | Cancelling "goerr option"
  | Finished "goerr option"

fun result_of :: "cstate \<Rightarrow> goerr option" where
  "result_of Running = None"
| "result_of (Exiting e) = e"
| "result_of (Cancelling e) = e"
| "result_of (Finished e) = e"

datatype caller = Selecting | Stopping | RunReturned "goerr option"

record run =
  comps :: "cstate list"
  group_done :: bool
  group_err :: "goerr option"
  waited :: "goerr option option"
  caller :: caller

definition wrapped :: "string \<Rightarrow> goerr option \<Rightarrow> goerr option" where
  "wrapped name e = map_option (errorf (''runner: component '' @ name @ '': '')) e"

definition timed_out :: "Runner \<Rightarrow> goerr" where
  "timed_out r = ErrorString (''runner: shutdown timed out after '' @ duration_string (shutdownTimeout r))"

definition run_start :: "Runner \<Rightarrow> run \<Rightarrow> bool" where
  "run_start r s \<longleftrightarrow>
     s = \<lparr>comps = replicate (length (component_names r)) Running, group_done = False, group_err = None,
          waited = None, caller = Selecting\<rparr>"

definition all_finished :: "run \<Rightarrow> bool" where
  "all_finished s \<longleftrightarrow> (\<forall>c \<in> set (comps s). \<exists>e. c = Finished e)"

inductive run_step :: "Runner \<Rightarrow> run \<Rightarrow> run \<Rightarrow> bool" for r where
  parent_cancelled: "\<not> group_done s \<Longrightarrow> run_step r s (s\<lparr>group_done := True\<rparr>)"
| component_returns: "i < length (comps s) \<Longrightarrow> comps s ! i = Running \<Longrightarrow>
    run_step r s (s\<lparr>comps := (comps s)[i := Exiting e]\<rparr>)"
| deferred_cancel: "i < length (comps s) \<Longrightarrow> comps s ! i = Exiting e \<Longrightarrow>
    run_step r s (s\<lparr>comps := (comps s)[i := Cancelling e], group_done := True\<rparr>)"
| group_notes: "i < length (comps s) \<Longrightarrow> comps s ! i = Cancelling e \<Longrightarrow>
    run_step r s (s\<lparr>comps := (comps s)[i := Finished e],
      group_err := (case group_err s of None \<Rightarrow> wrapped (component_names r ! i) e | Some x \<Rightarrow> Some x)\<rparr>)"
| group_waited: "all_finished s \<Longrightarrow> waited s = None \<Longrightarrow>
    run_step r s (s\<lparr>waited := Some (group_err s), group_done := True\<rparr>)"
| select_done: "caller s = Selecting \<or> caller s = Stopping \<Longrightarrow> waited s = Some e \<Longrightarrow>
    run_step r s (s\<lparr>caller := RunReturned e\<rparr>)"
| select_cancelled: "caller s = Selecting \<Longrightarrow> group_done s \<Longrightarrow> run_step r s (s\<lparr>caller := Stopping\<rparr>)"
| select_timeout: "caller s = Stopping \<Longrightarrow> run_step r s (s\<lparr>caller := RunReturned (Some (timed_out r))\<rparr>)"

inductive_cases run_stepE: "run_step r s t"

text \<open>\<^verbatim>\<open>Run\<close> refuses to start without components; otherwise it returns what the caller's goroutine gets.\<close>

inductive Run_returns :: "Runner \<Rightarrow> goerr option \<Rightarrow> bool" where
  no_components: "component_names r = [] \<Longrightarrow>
    Run_returns r (Some (ErrorString ''runner: no components registered''))"
| ran: "component_names r \<noteq> [] \<Longrightarrow> reach (run_start r) (run_step r) s \<Longrightarrow> caller s = RunReturned e \<Longrightarrow>
    Run_returns r e"

section \<open>The invariant\<close>

definition run_ok :: "Runner \<Rightarrow> run \<Rightarrow> bool" where
  "run_ok r s \<longleftrightarrow>
     length (comps s) = length (component_names r) \<and>
     (\<forall>c \<in> set (comps s). \<forall>e. c = Cancelling e \<or> c = Finished e \<longrightarrow> group_done s) \<and>
     (group_err s = None \<longrightarrow> (\<forall>c \<in> set (comps s). \<forall>e. c = Finished e \<longrightarrow> e = None)) \<and>
     (\<forall>x. group_err s = Some x \<longrightarrow> (\<exists>i < length (comps s). \<exists>e. comps s ! i = Finished (Some e) \<and>
        Some x = wrapped (component_names r ! i) (Some e))) \<and>
     (\<forall>w. waited s = Some w \<longrightarrow> all_finished s \<and> w = group_err s) \<and>
     (caller s = Stopping \<longrightarrow> group_done s) \<and>
     (\<forall>e. caller s = RunReturned e \<longrightarrow> waited s = Some e \<or> e = Some (timed_out r) \<and> group_done s)"

lemma run_ok_start: "run_start r s \<Longrightarrow> run_ok r s"
  by (auto simp: run_start_def run_ok_def)

lemma in_set_update: "c \<in> set (xs[i := v]) \<Longrightarrow> c = v \<or> c \<in> set xs"
  using set_update_subset_insert [of xs i v] by blast

lemma run_ok_component:
  assumes ok: "run_ok r s" and i: "i < length (comps s)" and c: "comps s ! i = Running"
  shows "run_ok r (s\<lparr>comps := (comps s)[i := Exiting e]\<rparr>)"
proof -
  have nf: "\<not> all_finished s" using i c nth_mem by (fastforce simp: all_finished_def)
  have "\<exists>j < length (comps s). \<exists>e'. (comps s)[i := Exiting e] ! j = Finished (Some e') \<and>
      Some x = wrapped (component_names r ! j) (Some e')" if "group_err s = Some x" for x
    using ok that c unfolding run_ok_def by (metis cstate.distinct(5) nth_list_update_neq)
  with ok nf show ?thesis by (auto simp: run_ok_def dest!: in_set_update)
qed

lemma run_ok_cancel:
  assumes ok: "run_ok r s" and i: "i < length (comps s)" and c: "comps s ! i = Exiting e"
  shows "run_ok r (s\<lparr>comps := (comps s)[i := Cancelling e], group_done := True\<rparr>)"
proof -
  have nf: "\<not> all_finished s" using i c nth_mem by (fastforce simp: all_finished_def)
  have "\<exists>j < length (comps s). \<exists>e'. (comps s)[i := Cancelling e] ! j = Finished (Some e') \<and>
      Some x = wrapped (component_names r ! j) (Some e')" if "group_err s = Some x" for x
    using ok that c unfolding run_ok_def by (metis cstate.distinct(9) nth_list_update_neq)
  with ok nf show ?thesis by (auto simp: run_ok_def dest!: in_set_update)
qed

lemma run_ok_note:
  assumes ok: "run_ok r s" and i: "i < length (comps s)" and c: "comps s ! i = Cancelling e"
  shows "run_ok r (s\<lparr>comps := (comps s)[i := Finished e],
      group_err := (case group_err s of None \<Rightarrow> wrapped (component_names r ! i) e | Some x \<Rightarrow> Some x)\<rparr>)"
proof -
  have nf: "\<not> all_finished s" using i c nth_mem by (fastforce simp: all_finished_def)
  have gd: "group_done s" using ok i c nth_mem unfolding run_ok_def by metis
  have old: "\<exists>j < length (comps s). \<exists>e'. (comps s)[i := Finished e] ! j = Finished (Some e') \<and>
      Some x = wrapped (component_names r ! j) (Some e')" if "group_err s = Some x" for x
    using ok that c unfolding run_ok_def by (metis cstate.distinct(11) nth_list_update_neq)
  have new: "\<exists>j < length (comps s). \<exists>e'. (comps s)[i := Finished e] ! j = Finished (Some e') \<and>
      Some x = wrapped (component_names r ! j) (Some e')" if "wrapped (component_names r ! i) e = Some x" for x
    using that i by (intro exI [of _ i]) (auto simp: wrapped_def)
  have nil: "e = None" if "wrapped (component_names r ! i) e = None" using that by (simp add: wrapped_def)
  show ?thesis
    using ok nf gd old new nil by (cases "group_err s") (auto simp: run_ok_def dest!: in_set_update)
qed

lemma run_ok_step:
  assumes "run_ok r s" and "run_step r s t"
  shows "run_ok r t"
  using assms(2)
proof cases
  case parent_cancelled
  with assms(1) show ?thesis by (auto simp: run_ok_def all_finished_def)
next
  case (component_returns i e)
  with run_ok_component [OF assms(1)] show ?thesis by simp
next
  case (deferred_cancel i e)
  with run_ok_cancel [OF assms(1)] show ?thesis by simp
next
  case (group_notes i e)
  with run_ok_note [OF assms(1)] show ?thesis by simp
qed (use assms(1) in \<open>auto simp: run_ok_def all_finished_def\<close>)

interpretation runner: transition_invariant "run_start r" "run_step r" "run_ok r" for r
  by unfold_locales (auto intro: run_ok_start run_ok_step)


definition sample_runner :: Runner where
  "sample_runner = runner_Add (runner_Add runner_New ''grpc'') ''http''"

definition runner_state :: "cstate list \<Rightarrow> bool \<Rightarrow> goerr option \<Rightarrow> goerr option option \<Rightarrow> caller \<Rightarrow> run" where
  "runner_state cs d g w k = \<lparr>comps = cs, group_done = d, group_err = g, waited = w, caller = k\<rparr>"

lemma sample_start: "run_start sample_runner (runner_state [Running, Running] False None None Selecting)"
  by (simp add: run_start_def runner_state_def sample_runner_def runner_Add_def runner_New_def numeral_2_eq_2)

text \<open>Steps between written-out states.\<close>

lemma step_component: "i < length cs \<Longrightarrow> cs ! i = Running \<Longrightarrow> cs' = cs[i := Exiting e] \<Longrightarrow>
    run_step r (runner_state cs d g w k) (runner_state cs' d g w k)"
  using component_returns [of i "runner_state cs d g w k" r e] by (simp add: runner_state_def)

lemma step_cancel: "i < length cs \<Longrightarrow> cs ! i = Exiting e \<Longrightarrow> cs' = cs[i := Cancelling e] \<Longrightarrow>
    run_step r (runner_state cs d g w k) (runner_state cs' True g w k)"
  using deferred_cancel [of i "runner_state cs d g w k" e r] by (simp add: runner_state_def)

lemma step_note: "i < length cs \<Longrightarrow> cs ! i = Cancelling e \<Longrightarrow> cs' = cs[i := Finished e] \<Longrightarrow>
    g' = (case g of None \<Rightarrow> wrapped (component_names r ! i) e | Some x \<Rightarrow> Some x) \<Longrightarrow>
    run_step r (runner_state cs d g w k) (runner_state cs' d g' w k)"
  using group_notes [of i "runner_state cs d g w k" e r] by (simp add: runner_state_def)

lemma step_waited: "\<forall>c \<in> set cs. \<exists>e. c = Finished e \<Longrightarrow>
    run_step r (runner_state cs d g None k) (runner_state cs True g (Some g) k)"
  using group_waited [of "runner_state cs d g None k" r] by (simp add: runner_state_def all_finished_def)

lemma step_done: "run_step r (runner_state cs d g (Some e) Selecting) (runner_state cs d g (Some e) (RunReturned e))"
  using select_done [of "runner_state cs d g (Some e) Selecting" e r] by (simp add: runner_state_def)

text \<open>Both components return one after the other.\<close>

lemma two_components:
  assumes g0: "g0 = wrapped (component_names r ! 0) e0"
    and g: "g = (case g0 of None \<Rightarrow> wrapped (component_names r ! 1) e1 | Some x \<Rightarrow> Some x)"
  shows "(run_step r)\<^sup>*\<^sup>* (runner_state [Running, Running] False None None Selecting)
    (runner_state [Finished e0, Finished e1] True g (Some g) (RunReturned g))"
proof -
  have "(run_step r)\<^sup>*\<^sup>* (runner_state [Running, Running] False None None Selecting)
      (runner_state [Exiting e0, Running] False None None Selecting)"
    by (intro r_into_rtranclp step_component [where i = 0]) auto
  also have "run_step r \<dots> (runner_state [Cancelling e0, Running] True None None Selecting)"
    by (rule step_cancel [where i = 0]) auto
  also have "run_step r \<dots> (runner_state [Finished e0, Running] True g0 None Selecting)"
    by (rule step_note [where i = 0]) (auto simp: g0)
  also have "run_step r \<dots> (runner_state [Finished e0, Exiting e1] True g0 None Selecting)"
    by (rule step_component [where i = 1]) auto
  also have "run_step r \<dots> (runner_state [Finished e0, Cancelling e1] True g0 None Selecting)"
    by (rule step_cancel [where i = 1]) auto
  also have "run_step r \<dots> (runner_state [Finished e0, Finished e1] True g None Selecting)"
    by (rule step_note [where i = 1]) (auto simp: g)
  also have "run_step r \<dots> (runner_state [Finished e0, Finished e1] True g (Some g) Selecting)"
    by (rule step_waited) auto
  also have "run_step r \<dots> (runner_state [Finished e0, Finished e1] True g (Some g) (RunReturned g))"
    by (rule step_done)
  finally show ?thesis .
qed

lemma reach_steps: "start s \<Longrightarrow> step\<^sup>*\<^sup>* s t \<Longrightarrow> reach start step t"
  by (rotate_tac, induction rule: rtranclp_induct) (auto intro: reach_start reach_step)


section \<open>Returning\<close>

fun comp_weight :: "cstate \<Rightarrow> nat" where
  "comp_weight Running = 3"
| "comp_weight (Exiting e) = 2"
| "comp_weight (Cancelling e) = 1"
| "comp_weight (Finished e) = 0"

fun caller_weight :: "caller \<Rightarrow> nat" where
  "caller_weight Selecting = 2"
| "caller_weight Stopping = 1"
| "caller_weight (RunReturned e) = 0"

definition run_weight :: "run \<Rightarrow> nat" where
  "run_weight s = sum_list (map comp_weight (comps s)) + (if group_done s then 0 else 1) +
     (if waited s = None then 1 else 0) + caller_weight (caller s)"

lemma weight_update:
  assumes "i < length cs" and "comp_weight c < comp_weight (cs ! i)"
  shows "sum_list (map comp_weight (cs[i := c])) < sum_list (map comp_weight cs)"
  using assms by (induction cs arbitrary: i) (auto simp: nth_Cons split: nat.splits)

lemma run_weight_step:
  assumes "run_step r s t"
  shows "run_weight t < run_weight s"
  using assms
proof cases
  case (deferred_cancel i e)
  then have "sum_list (map comp_weight ((comps s)[i := Cancelling e])) < sum_list (map comp_weight (comps s))"
    by (intro weight_update) auto
  with deferred_cancel show ?thesis by (simp add: run_weight_def)
qed (auto simp: run_weight_def intro: weight_update)

text \<open>
  C12. \<^verbatim>\<open>Run\<close> always returns: there is no infinite run; a run that can go no further has
  returned; and from the moment the group's context is done, be it by the parent or by the
  first component that ended, it can return without any component moving, so a component that
  hangs delays it by no more than the shutdown timeout.
\<close>

theorem run_always_returns:
  "(\<nexists>f. run_start r (f 0) \<and> (\<forall>n. run_step r (f n) (f (Suc n)))) \<and>
   (\<forall>s. reach (run_start r) (run_step r) s \<longrightarrow> (\<nexists>t. run_step r s t) \<longrightarrow> (\<exists>e. caller s = RunReturned e)) \<and>
   (\<forall>s. group_done s \<longrightarrow> (\<exists>t e. (run_step r)\<^sup>*\<^sup>* s t \<and> caller t = RunReturned e \<and> comps t = comps s))"
proof (intro conjI allI impI)
  show "\<nexists>f. run_start r (f 0) \<and> (\<forall>n. run_step r (f n) (f (Suc n)))"
  proof
    assume "\<exists>f. run_start r (f 0) \<and> (\<forall>n. run_step r (f n) (f (Suc n)))"
    then obtain f where "\<forall>n. run_step r (f n) (f (Suc n))" by blast
    then have "\<forall>n. run_weight (f (Suc n)) < run_weight (f n)" using run_weight_step by blast
    then show False using wf_no_infinite_down_chainE [OF wf_measure [of run_weight], of f] by auto
  qed
next
  fix s assume "\<nexists>t. run_step r s t"
  then show "\<exists>e. caller s = RunReturned e"
    by (cases "caller s"; cases "group_done s") (auto intro: run_step.intros)
next
  fix s :: run assume d: "group_done s"
  have stop: "run_step r t (t\<lparr>caller := RunReturned (Some (timed_out r))\<rparr>)" if "caller t = Stopping" for t
    using that by (rule select_timeout)
  show "\<exists>t e. (run_step r)\<^sup>*\<^sup>* s t \<and> caller t = RunReturned e \<and> comps t = comps s"
  proof (cases "caller s")
    case Selecting
    then have "run_step r s (s\<lparr>caller := Stopping\<rparr>)" using d by (rule select_cancelled)
    moreover have "run_step r (s\<lparr>caller := Stopping\<rparr>) (s\<lparr>caller := RunReturned (Some (timed_out r))\<rparr>)"
      using stop [of "s\<lparr>caller := Stopping\<rparr>"] by simp
    ultimately show ?thesis by (intro exI [of _ "s\<lparr>caller := RunReturned (Some (timed_out r))\<rparr>"]) auto
  next
    case Stopping
    then show ?thesis using stop by (intro exI [of _ "s\<lparr>caller := RunReturned (Some (timed_out r))\<rparr>"]) auto
  next
    case (RunReturned e)
    then show ?thesis by blast
  qed
qed

theorem run_always_returns_witness:
  "\<exists>t e. (run_step sample_runner)\<^sup>*\<^sup>* (runner_state [Running, Running] True None None Selecting) t \<and>
     caller t = RunReturned e \<and> comps t = [Running, Running]"
proof -
  let ?s = "runner_state [Running, Running] True None None Selecting"
  have "group_done ?s \<longrightarrow> (\<exists>t e. (run_step sample_runner)\<^sup>*\<^sup>* ?s t \<and> caller t = RunReturned e \<and> comps t = comps ?s)"
    using run_always_returns [of sample_runner] by blast
  then show ?thesis by (simp add: runner_state_def)
qed

text \<open>
  The error that \<^verbatim>\<open>Run\<close> returns need not be the cause of the shutdown: the deferred
  \<^verbatim>\<open>cancel()\<close> of a failed component runs before the group takes note of its error, so another
  component that answers the cancellation with an error of its own can be noted first. Here
  the first component fails while the second still runs, and what is returned is the
  second one's \<^verbatim>\<open>context canceled\<close>.
\<close>

lemma root_cause_can_be_masked:
  "\<exists>s0 s. reach (run_start sample_runner) (run_step sample_runner) s0 \<and>
     comps s0 = [Cancelling (Some (ErrorString ''bind: address in use'')), Running] \<and>
     (run_step sample_runner)\<^sup>*\<^sup>* s0 s \<and>
     caller s = RunReturned (Some (errorf ''runner: component http: '' (Sentinel ContextCanceled)))"
proof -
  let ?boom = "Some (ErrorString ''bind: address in use'')" and ?cc = "Some (Sentinel ContextCanceled)"
  let ?e = "Some (errorf ''runner: component http: '' (Sentinel ContextCanceled))"
  let ?s0 = "runner_state [Cancelling ?boom, Running] True None None Selecting"
  have "run_step sample_runner (runner_state [Running, Running] False None None Selecting)
      (runner_state [Exiting ?boom, Running] False None None Selecting)"
    by (rule step_component [where i = 0]) auto
  moreover have "run_step sample_runner (runner_state [Exiting ?boom, Running] False None None Selecting) ?s0"
    by (rule step_cancel [where i = 0]) auto
  ultimately have reach: "reach (run_start sample_runner) (run_step sample_runner) ?s0"
    using sample_start by (blast intro: reach_start reach_step)
  have "(run_step sample_runner)\<^sup>*\<^sup>* ?s0 (runner_state [Cancelling ?boom, Exiting ?cc] True None None Selecting)"
    by (intro r_into_rtranclp step_component [where i = 1]) auto
  also have "run_step sample_runner \<dots> (runner_state [Cancelling ?boom, Cancelling ?cc] True None None Selecting)"
    by (rule step_cancel [where i = 1]) auto
  also have "run_step sample_runner \<dots> (runner_state [Cancelling ?boom, Finished ?cc] True ?e None Selecting)"
    by (rule step_note [where i = 1]) (auto simp: wrapped_def sample_runner_def runner_Add_def runner_New_def)
  also have "run_step sample_runner \<dots> (runner_state [Finished ?boom, Finished ?cc] True ?e None Selecting)"
    by (rule step_note [where i = 0]) auto
  also have "run_step sample_runner \<dots> (runner_state [Finished ?boom, Finished ?cc] True ?e (Some ?e) Selecting)"
    by (rule step_waited) auto
  also have "run_step sample_runner \<dots> (runner_state [Finished ?boom, Finished ?cc] True ?e (Some ?e) (RunReturned ?e))"
    by (rule step_done)
  finally have run: "(run_step sample_runner)\<^sup>*\<^sup>* ?s0
      (runner_state [Finished ?boom, Finished ?cc] True ?e (Some ?e) (RunReturned ?e))" .
  show ?thesis
    by (rule exI [of _ ?s0], rule exI [of _ "runner_state [Finished ?boom, Finished ?cc] True ?e (Some ?e) (RunReturned ?e)"])
       (use reach run in \<open>simp add: runner_state_def\<close>)
qed

section \<open>Signals\<close>

definition exitCodeInterrupted :: int where "exitCodeInterrupted = 130"

text \<open>
  The goroutine of \<^verbatim>\<open>SignalContext\<close>: it waits for the first signal, then for the second, and ends
  when stopped. The channel holds at most two signals, further ones are dropped; once the
  goroutine has ended, signals are no longer delivered to it.
\<close>

datatype watcher = AwaitFirst | AwaitSecond | Ended

record signals =
  sig_pending :: nat
  sig_stopped :: bool
  sig_cancelled :: bool
  sig_watcher :: watcher
  sig_exit :: "int option"

definition signals_start :: "signals \<Rightarrow> bool" where
  "signals_start s \<longleftrightarrow>
     s = \<lparr>sig_pending = 0, sig_stopped = False, sig_cancelled = False, sig_watcher = AwaitFirst, sig_exit = None\<rparr>"

datatype sig_event = SignalArrives | WatcherTakes | WatcherStops | StopCalled

inductive sig_step :: "sig_event \<Rightarrow> signals \<Rightarrow> signals \<Rightarrow> bool" where
  arrives: "sig_exit s = None \<Longrightarrow> sig_watcher s \<noteq> Ended \<Longrightarrow>
    sig_step SignalArrives s (s\<lparr>sig_pending := min 2 (Suc (sig_pending s))\<rparr>)"
| takes_first: "sig_exit s = None \<Longrightarrow> sig_watcher s = AwaitFirst \<Longrightarrow> sig_pending s = Suc n \<Longrightarrow>
    sig_step WatcherTakes s (s\<lparr>sig_pending := n, sig_cancelled := True, sig_watcher := AwaitSecond\<rparr>)"
| takes_second: "sig_exit s = None \<Longrightarrow> sig_watcher s = AwaitSecond \<Longrightarrow> sig_pending s = Suc n \<Longrightarrow>
    sig_step WatcherTakes s (s\<lparr>sig_pending := n, sig_exit := Some exitCodeInterrupted\<rparr>)"
| watcher_stops: "sig_exit s = None \<Longrightarrow> sig_stopped s \<Longrightarrow> sig_watcher s \<noteq> Ended \<Longrightarrow>
    sig_step WatcherStops s (s\<lparr>sig_watcher := Ended\<rparr>)"
| stop_called: "sig_exit s = None \<Longrightarrow>
    sig_step StopCalled s (s\<lparr>sig_stopped := True, sig_cancelled := True\<rparr>)"

inductive sig_run :: "sig_event list \<Rightarrow> signals \<Rightarrow> bool" where
  sig_run_start: "signals_start s \<Longrightarrow> sig_run [] s"
| sig_run_step: "sig_run es s \<Longrightarrow> sig_step e s t \<Longrightarrow> sig_run (es @ [e]) t"

definition arrivals :: "sig_event list \<Rightarrow> nat" where
  "arrivals es = length (filter (\<lambda>e. e = SignalArrives) es)"

definition sig_ok :: "sig_event list \<Rightarrow> signals \<Rightarrow> bool" where
  "sig_ok es s \<longleftrightarrow>
     sig_pending s \<le> 2 \<and>
     (sig_watcher s = AwaitFirst \<longrightarrow> sig_exit s = None \<and> sig_pending s \<le> arrivals es \<and>
        (sig_cancelled s \<longleftrightarrow> sig_stopped s)) \<and>
     (sig_watcher s = AwaitSecond \<longrightarrow> sig_cancelled s \<and> 1 + sig_pending s + (if sig_exit s = None then 0 else 1) \<le> arrivals es) \<and>
     (sig_watcher s = Ended \<longrightarrow> sig_stopped s \<and> sig_exit s = None) \<and>
     (sig_stopped s \<longrightarrow> sig_cancelled s) \<and> (sig_stopped s \<longleftrightarrow> StopCalled \<in> set es) \<and>
     (\<forall>code. sig_exit s = Some code \<longrightarrow> code = 130 \<and> sig_watcher s = AwaitSecond)"

lemma arrivals_snoc [simp]: "arrivals (es @ [e]) = arrivals es + (if e = SignalArrives then 1 else 0)"
  by (simp add: arrivals_def)

lemma sig_ok_step:
  assumes "sig_ok es s" and "sig_step e s t"
  shows "sig_ok (es @ [e]) t"
  using assms(2)
proof cases
  case arrives
  with assms(1) show ?thesis by (cases "sig_watcher s") (auto simp: sig_ok_def)
next
  case (takes_first n)
  with assms(1) show ?thesis by (auto simp: sig_ok_def)
next
  case (takes_second n)
  with assms(1) show ?thesis by (auto simp: sig_ok_def exitCodeInterrupted_def)
next
  case watcher_stops
  with assms(1) show ?thesis by (auto simp: sig_ok_def)
next
  case stop_called
  with assms(1) show ?thesis by (cases "sig_watcher s") (auto simp: sig_ok_def)
qed

lemma sig_run_ok: "sig_run es s \<Longrightarrow> sig_ok es s"
proof (induction rule: sig_run.induct)
  case (sig_run_start s)
  then show ?case by (simp add: signals_start_def sig_ok_def)
next
  case (sig_run_step es s e t)
  then show ?case by (blast intro: sig_ok_step)
qed



end
