(* ===== verification/Service_Run.thy ===== *)
theory Service_Run
  imports Component_Runner Server_Lifecycle
begin

text \<open>
  A service: the gRPC and HTTP servers of \<open>Server_Lifecycle\<close> run as components of the runner of \<open>Component_Runner\<close>.
  The context of a server is that of the runner's group, so it is cancelled only once the group is done, and the
  runner learns that a component has returned, and with what, from the server's \<^verbatim>\<open>Run\<close>. Requests, servers, and the
  goroutines of the runner interleave in any way.
\<close>

section \<open>The composed system\<close>

datatype server_kind = GrpcServer server_Config | HttpServer

fun server_start :: "server_kind \<Rightarrow> serving \<Rightarrow> bool" where
  "server_start (GrpcServer cfg) = grpc_start cfg"
| "server_start HttpServer = http_start"

fun server_step :: "server_kind \<Rightarrow> serving \<Rightarrow> serving \<Rightarrow> bool" where
  "server_step (GrpcServer cfg) = grpc_step cfg"
| "server_step HttpServer = http_step"

record service =
  running :: run
  servers :: "serving list"

definition service_start :: "Runner \<Rightarrow> server_kind list \<Rightarrow> service \<Rightarrow> bool" where
  "service_start r ks s \<longleftrightarrow>
     run_start r (running s) \<and> length (component_names r) = length ks \<and> length (servers s) = length ks \<and>
     (\<forall>i < length ks. server_start (ks ! i) (servers s ! i))"

text \<open>A step of the runner in which no component returns.\<close>

definition own_step :: "Runner \<Rightarrow> run \<Rightarrow> run \<Rightarrow> bool" where
  "own_step r s t \<longleftrightarrow> run_step r s t \<and> (\<forall>i < length (comps s). comps s ! i = Running \<longrightarrow> comps t ! i = Running)"

inductive service_step :: "Runner \<Rightarrow> server_kind list \<Rightarrow> service \<Rightarrow> service \<Rightarrow> bool" for r ks where
  server_moves: "i < length ks \<Longrightarrow> server_step (ks ! i) (servers s ! i) t \<Longrightarrow>
    (cancelled t \<Longrightarrow> cancelled (servers s ! i) \<or> group_done (running s)) \<Longrightarrow>
    service_step r ks s (s\<lparr>servers := (servers s)[i := t]\<rparr>)"
| server_returns: "i < length ks \<Longrightarrow> phase (servers s ! i) = ServerReturned e \<Longrightarrow> comps (running s) ! i = Running \<Longrightarrow>
    service_step r ks s (s\<lparr>running := (running s)\<lparr>comps := (comps (running s))[i := Exiting e]\<rparr>\<rparr>)"
| runner_moves: "own_step r (running s) t \<Longrightarrow> service_step r ks s (s\<lparr>running := t\<rparr>)"

section \<open>The parts seen from the whole\<close>

fun server_ok :: "server_kind \<Rightarrow> serving \<Rightarrow> bool" where
  "server_ok (GrpcServer cfg) = serving_ok"
| "server_ok HttpServer = http_ok"

interpretation server_life: stoppable "server_start k" "server_step k" "server_ok k" begins serving_weight
    "\<lambda>s. \<exists>r. phase s = ServerReturned r" for k
  by (cases k) (simp_all add: grpc_life.stoppable_axioms http_life.stoppable_axioms)

lemma returned_stays: "server_step k s t \<Longrightarrow> phase s = ServerReturned e \<Longrightarrow> phase t = ServerReturned e"
  by (cases k) (auto elim: grpc_step.cases http_step.cases)

lemma own_step_comps:
  assumes "own_step r s t"
  shows "length (comps t) = length (comps s)" and "group_done s \<Longrightarrow> group_done t"
    and "i < length (comps s) \<Longrightarrow> comps t ! i = Running \<longleftrightarrow> comps s ! i = Running"
    and "i < length (comps s) \<Longrightarrow> result_of (comps t ! i) = result_of (comps s ! i)"
proof -
  have step: "run_step r s t" and keep: "\<forall>i < length (comps s). comps s ! i = Running \<longrightarrow> comps t ! i = Running"
    using assms by (auto simp: own_step_def)
  show "length (comps t) = length (comps s)" "group_done s \<Longrightarrow> group_done t" using step by (auto elim: run_step.cases)
  assume i: "i < length (comps s)"
  have "(comps t ! i = Running \<longleftrightarrow> comps s ! i = Running) \<and> result_of (comps t ! i) = result_of (comps s ! i)"
    using step keep i by cases (auto simp: nth_list_update)
  then show "comps t ! i = Running \<longleftrightarrow> comps s ! i = Running" "result_of (comps t ! i) = result_of (comps s ! i)" by auto
qed

section \<open>The invariant\<close>

definition service_ok :: "Runner \<Rightarrow> server_kind list \<Rightarrow> service \<Rightarrow> bool" where
  "service_ok r ks s \<longleftrightarrow>
     run_ok r (running s) \<and> length (servers s) = length ks \<and> length (comps (running s)) = length ks \<and>
     (\<forall>i < length ks. server_ok (ks ! i) (servers s ! i) \<and> (cancelled (servers s ! i) \<longrightarrow> group_done (running s)) \<and>
        (comps (running s) ! i \<noteq> Running \<longrightarrow> phase (servers s ! i) = ServerReturned (result_of (comps (running s) ! i))))"

definition service_weight :: "service \<Rightarrow> nat" where
  "service_weight s = run_weight (running s) + sum_list (map serving_weight (servers s))"

definition service_begins :: "service \<Rightarrow> service \<Rightarrow> bool" where
  "service_begins s t \<longleftrightarrow> (\<exists>i < length (servers s). begins (servers s ! i) (servers t ! i))"

lemma service_ok_start:
  assumes "service_start r ks s"
  shows "service_ok r ks s"
proof -
  have "\<not> cancelled x" if "server_start k x" for k x
    using that by (cases k) (auto simp: grpc_start_def http_start_def)
  with assms show ?thesis
    using run_ok_start [of r "running s"] server_life.invar_start
    by (auto simp: service_start_def service_ok_def run_start_def)
qed

lemma service_ok_step:
  assumes ok: "service_ok r ks s" and step: "service_step r ks s t"
  shows "service_ok r ks t"
  using step
proof cases
  case (server_moves i x)
  have "server_ok (ks ! i) x" using ok server_moves(2,3) server_life.invar_step by (auto simp: service_ok_def)
  moreover have "comps (running s) ! i \<noteq> Running \<longrightarrow> phase x = ServerReturned (result_of (comps (running s) ! i))"
    using ok server_moves(2,3) returned_stays by (auto simp: service_ok_def)
  ultimately show ?thesis using ok server_moves by (auto simp: service_ok_def nth_list_update)
next
  case (server_returns i e)
  have "run_ok r ((running s)\<lparr>comps := (comps (running s))[i := Exiting e]\<rparr>)"
    using ok server_returns by (intro run_ok_component) (auto simp: service_ok_def)
  with ok server_returns show ?thesis by (auto simp: service_ok_def nth_list_update)
next
  case (runner_moves x)
  then have "run_ok r x" using ok run_ok_step by (auto simp: service_ok_def own_step_def)
  with ok runner_moves own_step_comps [OF runner_moves(2)] show ?thesis by (auto simp: service_ok_def)
qed

lemma sum_list_update_less:
  assumes "i < length xs" and "f x < f (xs ! i)"
  shows "sum_list (map f (xs[i := x])) < sum_list (map f (xs :: 'a list) :: nat list)"
  using assms by (induction xs arbitrary: i) (auto simp: nth_Cons split: nat.splits)

interpretation service_life: stoppable "service_start r ks" "service_step r ks" "service_ok r ks" service_begins service_weight
    "\<lambda>s. \<exists>e. caller (running s) = RunReturned e" for r ks
proof unfold_locales
  show "service_ok r ks s" if "service_start r ks s" for s using that by (rule service_ok_start)
  show "service_ok r ks t" if "service_ok r ks s" "service_step r ks s t" for s t using that by (rule service_ok_step)
  show "service_weight t < service_weight s"
    if ok: "service_ok r ks s" and step: "service_step r ks s t" and quiet: "\<not> service_begins s t" for s t
    using step
  proof cases
    case (server_moves i x)
    have "i < length (servers s)" using ok server_moves(2) by (simp add: service_ok_def)
    moreover have "\<not> begins (servers s ! i) x" using quiet server_moves calculation by (auto simp: service_begins_def)
    then have "serving_weight x < serving_weight (servers s ! i)"
      using ok server_moves server_life.progress by (auto simp: service_ok_def)
    ultimately have "sum_list (map serving_weight ((servers s)[i := x])) < sum_list (map serving_weight (servers s))"
      by (rule sum_list_update_less)
    then show ?thesis using server_moves(1) by (simp add: service_weight_def)
  next
    case (server_returns i e)
    then have "run_step r (running s) ((running s)\<lparr>comps := (comps (running s))[i := Exiting e]\<rparr>)"
      using ok by (intro component_returns) (auto simp: service_ok_def)
    from run_weight_step [OF this] show ?thesis using server_returns(1) by (simp add: service_weight_def)
  next
    case (runner_moves x)
    then have "run_step r (running s) x" by (simp add: own_step_def)
    from run_weight_step [OF this] show ?thesis using runner_moves(1) by (simp add: service_weight_def)
  qed
  show "\<exists>e. caller (running s) = RunReturned e"
    if "service_ok r ks s" and stuck: "\<nexists>t. service_step r ks s t \<and> \<not> service_begins s t" for s
  proof -
    have "\<not> own_step r (running s) x" for x
      using stuck runner_moves [of r s x ks] by (auto simp: service_begins_def begins_def)
    then have "\<not> run_step r (running s) x" if "comps x = comps (running s)" for x using that by (metis own_step_def)
    note no = this [of "(running s)\<lparr>group_done := True\<rparr>"] this [of "(running s)\<lparr>caller := Stopping\<rparr>"]
      this [of "(running s)\<lparr>caller := RunReturned (Some (timed_out r))\<rparr>"]
    show ?thesis
      using no parent_cancelled select_cancelled select_timeout by (cases "caller (running s)"; cases "group_done (running s)") auto
  qed
qed

section \<open>Shutting down\<close>

text \<open>As long as \<^verbatim>\<open>Run\<close> has not returned there is a step towards its end that is not the timeout.\<close>

definition advances :: "Runner \<Rightarrow> server_kind list \<Rightarrow> service \<Rightarrow> service \<Rightarrow> bool" where
  "advances r ks s t \<longleftrightarrow> service_step r ks s t \<and> \<not> service_begins s t \<and>
     (\<forall>e. caller (running t) = RunReturned e \<longrightarrow> waited (running t) = Some e)"

lemma runner_advances:
  assumes "run_step r (running s) x" and "\<forall>i < length (comps (running s)). comps (running s) ! i = Running \<longrightarrow> comps x ! i = Running"
    and "\<forall>e. caller x = RunReturned e \<longrightarrow> waited x = Some e"
  shows "advances r ks s (s\<lparr>running := x\<rparr>)"
  using assms runner_moves [of r s x ks] by (auto simp: advances_def own_step_def service_begins_def begins_def)

lemma component_advances:
  assumes ok: "service_ok r ks s" and gd: "group_done (running s)" and i: "i < length ks"
    and c: "\<forall>e. comps (running s) ! i \<noteq> Finished e" and open_run: "\<forall>e. caller (running s) \<noteq> RunReturned e"
  shows "\<exists>t. advances r ks s t"
proof -
  have len: "i < length (comps (running s))" "i < length (servers s)" using ok i by (auto simp: service_ok_def)
  show ?thesis
  proof (cases "comps (running s) ! i")
    case Running
    show ?thesis
    proof (cases "\<exists>e. phase (servers s ! i) = ServerReturned e")
      case True
      then obtain e where "phase (servers s ! i) = ServerReturned e" by blast
      from server_returns [OF i this Running, of r] open_run show ?thesis
        by (auto simp: advances_def service_begins_def begins_def)
    next
      case False
      have "server_ok (ks ! i) (servers s ! i)" using ok i by (simp add: service_ok_def)
      with False obtain x where x: "server_step (ks ! i) (servers s ! i) x" "\<not> begins (servers s ! i) x"
        using server_life.stuck_returned by blast
      have "\<not> service_begins s (s\<lparr>servers := (servers s)[i := x]\<rparr>)"
        using x(2) len(2) by (auto simp: service_begins_def nth_list_update begins_def)
      with server_moves [OF i x(1), of r] gd open_run show ?thesis by (auto simp: advances_def)
    qed
  next
    case (Exiting e)
    have "advances r ks s (s\<lparr>running := (running s)\<lparr>comps := (comps (running s))[i := Cancelling e], group_done := True\<rparr>\<rparr>)"
      by (rule runner_advances [OF deferred_cancel [OF len(1) Exiting]]) (use len Exiting open_run in \<open>auto simp: nth_list_update\<close>)
    then show ?thesis by blast
  next
    case (Cancelling e)
    note step = group_notes [OF len(1) Cancelling, of r]
    have "advances r ks s (s\<lparr>running := (running s)\<lparr>comps := (comps (running s))[i := Finished e],
        group_err := (case group_err (running s) of None \<Rightarrow> wrapped (component_names r ! i) e | Some x \<Rightarrow> Some x)\<rparr>\<rparr>)"
      by (rule runner_advances [OF step]) (use len Cancelling open_run in \<open>auto simp: nth_list_update\<close>)
    then show ?thesis by blast
  qed (use c in blast)
qed

lemma service_advances:
  assumes ok: "service_ok r ks s" and open_run: "\<forall>e. caller (running s) \<noteq> RunReturned e"
  shows "\<exists>t. advances r ks s t"
proof -
  have len: "length (comps (running s)) = length ks" using ok by (simp add: service_ok_def)
  consider "\<not> group_done (running s)" | i where "group_done (running s)" "i < length ks" "\<forall>e. comps (running s) ! i \<noteq> Finished e"
    | "all_finished (running s)" "waited (running s) = None" | e where "all_finished (running s)" "waited (running s) = Some e"
    using len unfolding all_finished_def by (metis in_set_conv_nth not_None_eq)
  then show ?thesis
  proof cases
    case 1
    have "advances r ks s (s\<lparr>running := (running s)\<lparr>group_done := True\<rparr>\<rparr>)"
      by (rule runner_advances [OF parent_cancelled [OF 1]]) (use open_run in auto)
    then show ?thesis by blast
  next
    case 2
    with component_advances [OF ok] open_run show ?thesis by blast
  next
    case 3
    have "advances r ks s (s\<lparr>running := (running s)\<lparr>waited := Some (group_err (running s)), group_done := True\<rparr>\<rparr>)"
      by (rule runner_advances [OF group_waited [OF 3]]) (use open_run in auto)
    then show ?thesis by blast
  next
    case 4
    have "caller (running s) = Selecting \<or> caller (running s) = Stopping" using open_run by (cases "caller (running s)") auto
    then have "advances r ks s (s\<lparr>running := (running s)\<lparr>caller := RunReturned e\<rparr>\<rparr>)"
      by (rule runner_advances [OF select_done [OF _ 4(2)]]) (use 4 in auto)
    then show ?thesis by blast
  qed
qed

lemma service_can_finish:
  assumes "service_ok r ks s" and "\<forall>e. caller (running s) \<noteq> RunReturned e"
  shows "\<exists>t e. (service_step r ks)\<^sup>*\<^sup>* s t \<and> caller (running t) = RunReturned e \<and> waited (running t) = Some e"
  using assms
proof (induction "service_weight s" arbitrary: s rule: less_induct)
  case less
  obtain t where t: "service_step r ks s t" "\<not> service_begins s t"
    "\<forall>e. caller (running t) = RunReturned e \<longrightarrow> waited (running t) = Some e"
    using service_advances [OF less(2,3)] by (auto simp: advances_def)
  show ?case
  proof (cases "\<exists>e. caller (running t) = RunReturned e")
    case True
    with t show ?thesis by blast
  next
    case False
    moreover have "service_weight t < service_weight s" using service_life.progress [OF less(2) t(1,2)] .
    moreover have "service_ok r ks t" using less(2) t(1) by (rule service_ok_step)
    ultimately have "\<exists>u e. (service_step r ks)\<^sup>*\<^sup>* t u \<and> caller (running u) = RunReturned e \<and> waited (running u) = Some e"
      using less(1) by blast
    then show ?thesis using t(1) by (meson converse_rtranclp_into_rtranclp)
  qed
qed

text \<open>What a server that has returned tells: nil only after a stop, otherwise the error its \<^verbatim>\<open>Serve\<close> failed with.\<close>

lemma server_outcome:
  assumes "server_ok k x" and "phase x = ServerReturned res"
  shows "case res of None \<Rightarrow> cancelled x \<and> graceful x \<and> (pending x = 0 \<or> forced x) | Some y \<Rightarrow> served x = Some (Some y)"
  using assms by (cases k) (auto simp: serving_ok_def http_ok_def normalizeServeError_def split: option.split if_splits)

lemma service_finished:
  assumes ok: "service_ok r ks s" and ret: "caller (running s) = RunReturned e" and in_time: "e \<noteq> Some (timed_out r)"
    and i: "i < length ks"
  shows "\<exists>res. phase (servers s ! i) = ServerReturned res \<and> (e = None \<longrightarrow> res = None)"
proof -
  have run: "run_ok r (running s)" and len: "length (comps (running s)) = length ks" using ok by (auto simp: service_ok_def)
  then have "all_finished (running s)" "e = group_err (running s)" using ret in_time by (auto simp: run_ok_def)
  moreover have mem: "comps (running s) ! i \<in> set (comps (running s))" using i len by simp
  ultimately obtain res where res: "comps (running s) ! i = Finished res" by (auto simp: all_finished_def)
  then have "e = None \<longrightarrow> res = None" using run mem \<open>e = _\<close> unfolding run_ok_def by metis
  moreover have "phase (servers s ! i) = ServerReturned res" using ok i res by (auto simp: service_ok_def)
  ultimately show ?thesis by blast
qed

lemma service_failed:
  assumes ok: "service_ok r ks s" and ret: "caller (running s) = RunReturned (Some x)" and in_time: "x \<noteq> timed_out r"
  shows "\<exists>i < length ks. \<exists>y. phase (servers s ! i) = ServerReturned (Some y) \<and>
    x = errorf (''runner: component '' @ component_names r ! i @ '': '') y"
proof -
  have run: "run_ok r (running s)" and len: "length (comps (running s)) = length ks" using ok by (auto simp: service_ok_def)
  then have "group_err (running s) = Some x" using ret in_time by (auto simp: run_ok_def)
  then obtain i y where "i < length ks" "comps (running s) ! i = Finished (Some y)" "Some x = wrapped (component_names r ! i) (Some y)"
    using run len unfolding run_ok_def by metis
  with ok show ?thesis by (intro exI [of _ i]) (auto simp: service_ok_def wrapped_def)
qed



end
