(* ===== verification/Http_Api.thy ===== *)
theory Http_Api
  imports Request_Context Metrics_Registry
begin

text \<open>
  The HTTP side: \<^verbatim>\<open>httpserver/ops.go\<close> (health, readiness, metrics and profiling endpoints) and the package
  \<^verbatim>\<open>grpcgateway\<close> (\<^verbatim>\<open>WithCORS\<close>, the header matchers and the construction of the gateway). A handler takes the
  request and what has been written of the response; the mux of the gateway, the header matcher of its library,
  the dialling of a connection and the registration of a service are arguments.
\<close>

section \<open>Requests and responses\<close>

type_synonym header = "string \<Rightarrow> string list"

definition header_Get :: "header \<Rightarrow> string \<Rightarrow> string" where
  "header_Get h k = (case h k of [] \<Rightarrow> [] | v # _ \<Rightarrow> v)"

definition header_Set :: "string \<Rightarrow> string \<Rightarrow> header \<Rightarrow> header" where
  "header_Set k v h = h(k := [v])"

definition header_Add :: "string \<Rightarrow> string \<Rightarrow> header \<Rightarrow> header" where
  "header_Add k v h = h(k := h k @ [v])"

record request =
  req_Method :: string
  req_Path :: string
  req_Header :: header

record response =
  res_Header :: header
  res_Status :: "int option"
  res_Body :: string

type_synonym http_handler = "request \<Rightarrow> response \<Rightarrow> response"

definition fresh_response :: response where
  "fresh_response = \<lparr>res_Header = (\<lambda>_. []), res_Status = None, res_Body = []\<rparr>"

section \<open>Operational endpoints\<close>

definition writePlain :: "int \<Rightarrow> string \<Rightarrow> response \<Rightarrow> response" where
  "writePlain status body w =
     w\<lparr>res_Header := header_Set ''Content-Type'' ''text/plain; charset=utf-8'' (res_Header w),
       res_Status := (case res_Status w of None \<Rightarrow> Some status | Some s \<Rightarrow> Some s), res_Body := res_Body w @ body\<rparr>"

type_synonym check = "goerr option"

text \<open>
  The readiness checks in the order in which Go's map is iterated, which may differ between requests, each with
  what it returns.
\<close>

fun readyz :: "(string \<times> check) list \<Rightarrow> http_handler" where
  "readyz [] r w = writePlain 200 ''ok'' w"
| "readyz ((name, c) # cs) r w =
     (if c \<noteq> None then writePlain 503 (''not ready: '' @ name) w else readyz cs r w)"

definition healthz :: http_handler where
  "healthz r w = writePlain 200 ''ok'' w"

record OpsConfig =
  ops_Registry :: "registry option"
  ops_Readiness :: "(string \<times> check) list"
  EnablePprof :: bool

text \<open>
  The patterns registered with the mux, each with its method. The profiling handlers of \<^verbatim>\<open>net/http/pprof\<close> are an
  argument, by name, and so is \<^verbatim>\<open>promhttp.HandlerFor\<close>.
\<close>

definition Ops ::
  "(string \<Rightarrow> http_handler) \<Rightarrow> (registry \<Rightarrow> HandlerOpts \<Rightarrow> http_handler) \<Rightarrow> OpsConfig \<Rightarrow> (string \<times> http_handler) list" where
  "Ops pprof HandlerFor cfg =
     [(''GET /healthz'', healthz), (''GET /readyz'', readyz (ops_Readiness cfg))] @
     (case ops_Registry cfg of None \<Rightarrow> [] | Some reg \<Rightarrow> [(''GET /metrics'', MetricsHandler HandlerFor reg)]) @
     (if EnablePprof cfg then
        [(''GET /debug/pprof/'', pprof ''index''), (''GET /debug/pprof/cmdline'', pprof ''cmdline''),
         (''GET /debug/pprof/profile'', pprof ''profile''), (''GET /debug/pprof/symbol'', pprof ''symbol''),
         (''GET /debug/pprof/trace'', pprof ''trace'')]
      else [])"

text \<open>
  \<^verbatim>\<open>http.ServeMux\<close> for patterns of a method and a path: \<^verbatim>\<open>GET\<close> stands for \<^verbatim>\<open>HEAD\<close> as well, a path that ends in a
  slash for the whole subtree, and the longest path wins. A path that is not in its clean form, or that lacks only
  the slash of a subtree, is redirected, with a status that differs between releases of Go: the argument
  \<open>redirect\<close>. A path that is known for other methods only is answered with 405.
\<close>

definition pattern_method :: "string \<Rightarrow> string" where
  "pattern_method p = takeWhile (\<lambda>c. c \<noteq> CHR '' '') p"

definition pattern_path :: "string \<Rightarrow> string" where
  "pattern_path p = drop 1 (dropWhile (\<lambda>c. c \<noteq> CHR '' '') p)"

definition path_matches :: "string \<Rightarrow> string \<Rightarrow> bool" where
  "path_matches pat path \<longleftrightarrow>
     path = pat \<or> pat \<noteq> [] \<and> last pat = CHR ''/'' \<and> take (length pat) path = pat"

definition method_matches :: "string \<Rightarrow> string \<Rightarrow> bool" where
  "method_matches m meth \<longleftrightarrow> meth = m \<or> m = ''GET'' \<and> meth = ''HEAD''"

definition clean_path :: "string \<Rightarrow> bool" where
  "clean_path p \<longleftrightarrow>
     (case split_on CHR ''/'' p of
        root # segments \<Rightarrow> root = [] \<and> segments \<noteq> [] \<and> [] \<notin> set (butlast segments) \<and>
          ''.'' \<notin> set segments \<and> ''..'' \<notin> set segments
      | [] \<Rightarrow> False)"

fun longest :: "(string \<times> http_handler) list \<Rightarrow> (string \<times> http_handler) option" where
  "longest [] = None"
| "longest (p # ps) =
     (case longest ps of
        None \<Rightarrow> Some p
      | Some q \<Rightarrow> if length (pattern_path (fst p)) < length (pattern_path (fst q)) then Some q else Some p)"

definition http_Error :: "int \<Rightarrow> string \<Rightarrow> response \<Rightarrow> response" where
  "http_Error status msg w =
     (let w1 = writePlain status (msg @ [CHR 0x0A]) w in
      w1\<lparr>res_Header := header_Set ''X-Content-Type-Options'' ''nosniff'' (res_Header w1)\<rparr>)"

definition mux_ServeHTTP :: "http_handler \<Rightarrow> (string \<times> http_handler) list \<Rightarrow> http_handler" where
  "mux_ServeHTTP redirect routes r w =
     (let path = req_Path r;
          known = filter (\<lambda>(p, _). path_matches (pattern_path p) path) routes in
      if \<not> clean_path path then redirect r w
      else case longest (filter (\<lambda>(p, _). method_matches (pattern_method p) (req_Method r)) known) of
        Some (_, h) \<Rightarrow> h r w
      | None \<Rightarrow>
          if \<exists>(p, _) \<in> set routes. pattern_path p = path @ ''/'' \<and> method_matches (pattern_method p) (req_Method r)
          then redirect r w
          else if known \<noteq> [] then http_Error 405 ''Method Not Allowed'' w
          else http_Error 404 ''404 page not found'' w)"

record Ready =
  ready :: bool

definition NewReady :: Ready where "NewReady = \<lparr>ready = False\<rparr>"

definition Ready_Set :: "bool \<Rightarrow> Ready \<Rightarrow> Ready" where "Ready_Set b r = r\<lparr>ready := b\<rparr>"

definition Ready_Check :: "Ready \<Rightarrow> check" where
  "Ready_Check r = (if ready r then None else Some (Sentinel ErrNotReady))"

lemma readyz_result:
  "readyz cs r w =
     (case find (\<lambda>(n, c). c \<noteq> None) cs of
        None \<Rightarrow> writePlain 200 ''ok'' w
      | Some (name, _) \<Rightarrow> writePlain 503 (''not ready: '' @ name) w)"
  by (induction cs) (auto split: option.splits)

lemma readyz_status: "res_Status (readyz cs r fresh_response) = Some (if \<forall>(n, c) \<in> set cs. c = None then 200 else 503)"
  by (induction cs) (auto simp: writePlain_def fresh_response_def)

section \<open>Cross-origin requests\<close>

definition preflightMaxAge :: duration where "preflightMaxAge = 12 * hour"

definition cors_headers :: "string \<Rightarrow> header \<Rightarrow> header" where
  "cors_headers origin h =
     header_Set ''Access-Control-Expose-Headers'' request_id_key
       (header_Add ''Vary'' ''Origin''
         (header_Set ''Access-Control-Allow-Credentials'' ''true''
           (header_Set ''Access-Control-Allow-Origin'' origin h)))"

definition preflight_headers :: "header \<Rightarrow> header" where
  "preflight_headers h =
     header_Set ''Access-Control-Max-Age'' (itoa (preflightMaxAge div second))
       (header_Set ''Access-Control-Allow-Headers'' (''Authorization, Content-Type, '' @ request_id_key)
         (header_Set ''Access-Control-Allow-Methods'' ''GET, POST, PATCH, PUT, DELETE, OPTIONS'' h))"

definition WithCORS :: "http_handler \<Rightarrow> string list \<Rightarrow> http_handler" where
  "WithCORS next_h allowedOrigins r w =
     (let origin = header_Get (req_Header r) ''Origin'' in
      if origin \<in> set (map trim_space allowedOrigins) then
        let w1 = w\<lparr>res_Header := cors_headers origin (res_Header w)\<rparr> in
        if req_Method r = ''OPTIONS'' then
          w1\<lparr>res_Header := preflight_headers (res_Header w1),
             res_Status := (case res_Status w1 of None \<Rightarrow> Some 204 | Some s \<Rightarrow> Some s)\<rparr>
        else next_h r w1
      else next_h r w)"

section \<open>Headers and metadata\<close>

definition incomingHeaderMatcher :: "(string \<Rightarrow> string option) \<Rightarrow> string \<Rightarrow> string option" where
  "incomingHeaderMatcher default_matcher key =
     (let k = to_lower key in
      if k = ''authorization'' \<or> k = request_id_key then Some k
      else if k = ''user-agent'' then Some ''x-client-user-agent''
      else default_matcher key)"

definition outgoingHeaderMatcher :: "(string \<Rightarrow> string option) \<Rightarrow> string \<Rightarrow> string option" where
  "outgoingHeaderMatcher default_matcher key =
     (if equal_fold key request_id_key then Some request_id_key else default_matcher key)"

section \<open>The gateway\<close>

definition dialTarget :: "string \<Rightarrow> string" where
  "dialTarget target = (if take 1 target = '':'' then ''localhost'' @ target else target)"

record gateway_Config =
  gw_Address :: string
  gw_Enabled :: bool
  gw_AllowedOrigins :: "string list"
  gw_DialTimeout :: duration

definition gateway_withDefaults :: "gateway_Config \<Rightarrow> gateway_Config" where
  "gateway_withDefaults c = c\<lparr>gw_DialTimeout := (if gw_DialTimeout c = 0 then 5 * second else gw_DialTimeout c)\<rparr>"

text \<open>
  The mux of the library \<^verbatim>\<open>grpc-gateway\<close>, a state \<open>'m\<close>: how it is made from a marshaler and two header matchers, and
  how it serves. \<^verbatim>\<open>DefaultHeaderMatcher\<close> is a function of the library, too.
\<close>

record JSONPb =
  UseProtoNames :: bool
  EmitUnpopulated :: bool
  DiscardUnknown :: bool

record 'm gateway_lib =
  NewServeMux :: "JSONPb \<Rightarrow> (string \<Rightarrow> string option) \<Rightarrow> (string \<Rightarrow> string option) \<Rightarrow> 'm"
  mux_handler :: "'m \<Rightarrow> http_handler"
  DefaultHeaderMatcher :: "string \<Rightarrow> string option"

definition marshaler :: JSONPb where
  "marshaler = \<lparr>UseProtoNames = False, EmitUnpopulated = True, DiscardUnknown = False\<rparr>"

text \<open>An upstream with its registrations: each adds handlers for a connection to the mux, or fails.\<close>

record 'm upstream =
  up_Name :: string
  up_Target :: string
  up_Register :: "('m \<Rightarrow> string \<Rightarrow> goerr option \<times> 'm) list"

fun register_all :: "('m \<Rightarrow> string \<Rightarrow> goerr option \<times> 'm) list \<Rightarrow> string \<Rightarrow> 'm \<Rightarrow> goerr option \<times> 'm" where
  "register_all [] conn mux = (None, mux)"
| "register_all (reg # regs) conn mux =
     (case reg mux conn of
        (Some e, mux') \<Rightarrow> (Some e, mux')
      | (None, mux') \<Rightarrow> register_all regs conn mux')"

text \<open>The connections that are open, by target; \<open>dial\<close> is what \<^verbatim>\<open>grpc.NewClient\<close> says of a target.\<close>

fun connect_upstreams ::
  "(string \<Rightarrow> goerr option) \<Rightarrow> 'm upstream list \<Rightarrow> 'm \<Rightarrow> string list \<Rightarrow> 'm result \<times> string list" where
  "connect_upstreams dial [] mux conns = (Inr mux, conns)"
| "connect_upstreams dial (u # us) mux conns =
     (if up_Target u = [] then
        (Inl (ErrorString (''grpcgateway: upstream '' @ quote_text (up_Name u) @ '' has no target'')), conns)
      else case dial (dialTarget (up_Target u)) of
        Some e \<Rightarrow> (Inl (errorf (''grpcgateway: dial '' @ up_Target u @ '': '') e), conns)
      | None \<Rightarrow>
          (case register_all (up_Register u) (dialTarget (up_Target u)) mux of
             (Some e, _) \<Rightarrow> (Inl (errorf (''grpcgateway: register '' @ up_Name u @ '': '') e), conns)
           | (None, mux') \<Rightarrow> connect_upstreams dial us mux' (conns @ [dialTarget (up_Target u)])))"

definition gateway_New ::
  "'m gateway_lib \<Rightarrow> (string \<Rightarrow> goerr option) \<Rightarrow> gateway_Config \<Rightarrow> 'm upstream list \<Rightarrow> http_handler result \<times> string list" where
  "gateway_New lib dial cfg0 upstreams =
     (let cfg = gateway_withDefaults cfg0 in
      if gw_Address cfg = [] then
        (Inl (ErrorString ''grpcgateway: HTTP_API_ADDRESS is required when the gateway is enabled''), [])
      else if upstreams = [] then (Inl (ErrorString ''grpcgateway: at least one upstream is required''), [])
      else
        let mux = NewServeMux lib marshaler (incomingHeaderMatcher (DefaultHeaderMatcher lib))
                    (outgoingHeaderMatcher (DefaultHeaderMatcher lib)) in
        case connect_upstreams dial upstreams mux [] of
          (Inl e, conns) \<Rightarrow> (Inl e, conns)
        | (Inr mux', conns) \<Rightarrow>
            (Inr (if gw_AllowedOrigins cfg \<noteq> [] then WithCORS (mux_handler lib mux') (gw_AllowedOrigins cfg)
                  else mux_handler lib mux'), conns))"

section \<open>The health check command\<close>

text \<open>
  \<^verbatim>\<open>cmd/healthcheck\<close>: the exit code for the arguments of the process; \<open>get\<close> is the status that a request to an
  address is answered with, or an error.
\<close>

definition healthcheck_main :: "(string \<Rightarrow> int result) \<Rightarrow> string list \<Rightarrow> int" where
  "healthcheck_main get args =
     (if length args < 2 then 2
      else case get (args ! 1) of Inl _ \<Rightarrow> 1 | Inr status \<Rightarrow> if status \<noteq> 200 then 1 else 0)"

text \<open>A service is healthy for the command exactly when its readiness endpoint finds every check passed.\<close>

lemma healthcheck_of_readyz:
  "healthcheck_main (\<lambda>_. Inr (the (res_Status (readyz cs r fresh_response)))) [prog, url] = 0 \<longleftrightarrow> (\<forall>(n, c) \<in> set cs. c = None)"
  by (simp add: healthcheck_main_def readyz_status)

section \<open>Properties\<close>

text \<open>
  C36. A page of another origin is given access exactly when its origin is one of the allowed ones: then the response
  names that origin, not a wildcard, and a preflight request is answered without reaching the service; otherwise the
  request is passed on as it is and the gateway adds no header that grants access.
\<close>

theorem cors_grants_only_allowed_origins:
  "if header_Get (req_Header r) ''Origin'' \<in> set (map trim_space allowed) then
     (if req_Method r = ''OPTIONS'' then
        res_Status (WithCORS h allowed r fresh_response) = Some 204 \<and>
        header_Get (res_Header (WithCORS h allowed r fresh_response)) ''Access-Control-Allow-Origin'' =
          header_Get (req_Header r) ''Origin''
      else \<exists>w. WithCORS h allowed r fresh_response = h r w \<and>
        header_Get (res_Header w) ''Access-Control-Allow-Origin'' = header_Get (req_Header r) ''Origin'' \<and>
        ''Origin'' \<in> set (res_Header w ''Vary''))
   else WithCORS h allowed r fresh_response = h r fresh_response"
  by (auto simp: WithCORS_def Let_def fresh_response_def cors_headers_def preflight_headers_def header_Set_def header_Add_def
      header_Get_def)

lemma connect_grows: "connect_upstreams dial us mux conns = (res, conns') \<Longrightarrow> \<exists>more. conns' = conns @ more"
proof (induction us arbitrary: mux conns)
  case (Cons u us)
  then show ?case by (auto split: if_splits option.splits prod.splits) (metis append.assoc)
qed simp

text \<open>When a later upstream cannot be registered, the connections of the earlier ones stay open, and nobody holds them.\<close>

lemma failed_gateway_leaves_connections:
  assumes "gateway_New lib dial cfg (u # v # us) = (Inl e, conns)" "gw_Address cfg \<noteq> []"
    and "up_Target u \<noteq> []" "dial (dialTarget (up_Target u)) = None"
    and "\<And>m. fst (register_all (up_Register u) (dialTarget (up_Target u)) m) = None"
  shows "dialTarget (up_Target u) \<in> set conns"
proof -
  obtain m where "connect_upstreams dial (u # v # us) m [] = (Inl e, conns)"
    using assms(1,2)
    by (auto simp: gateway_New_def gateway_withDefaults_def Let_def simp del: connect_upstreams.simps split: prod.splits sum.splits)
  then obtain m' where "connect_upstreams dial (v # us) m' [dialTarget (up_Target u)] = (Inl e, conns)"
    using assms(3,4) assms(5) [of m] by (auto simp del: connect_upstreams.simps simp: connect_upstreams.simps(2) [of _ u] split: prod.splits)
  from connect_grows [OF this] show ?thesis by auto
qed

section \<open>What the operational endpoints answer\<close>

lemmas mux_eval = mux_ServeHTTP_def clean_path_def path_matches_def method_matches_def pattern_method_def pattern_path_def

text \<open>The handler of a path, as a table.\<close>

definition pprof_root :: string where "pprof_root = ''/debug/pprof/''"

definition pprof_pages :: "string list" where "pprof_pages = [''cmdline'', ''profile'', ''symbol'', ''trace'']"

definition ops_page ::
  "(string \<Rightarrow> http_handler) \<Rightarrow> (registry \<Rightarrow> HandlerOpts \<Rightarrow> http_handler) \<Rightarrow> OpsConfig \<Rightarrow> string \<Rightarrow> http_handler option" where
  "ops_page pprof HandlerFor cfg path =
     (if path = ''/healthz'' then Some healthz
      else if path = ''/readyz'' then Some (readyz (ops_Readiness cfg))
      else if path = ''/metrics'' then map_option (MetricsHandler HandlerFor) (ops_Registry cfg)
      else if EnablePprof cfg \<and> take (length pprof_root) path = pprof_root then
        let page = drop (length pprof_root) path in Some (pprof (if page \<in> set pprof_pages then page else ''index''))
      else None)"

text \<open>The routes without their method, which is the same for all.\<close>

definition get_pattern :: "string \<Rightarrow> string" where "get_pattern p = ''GET '' @ p"

definition ops_routes ::
  "(string \<Rightarrow> http_handler) \<Rightarrow> (registry \<Rightarrow> HandlerOpts \<Rightarrow> http_handler) \<Rightarrow> OpsConfig \<Rightarrow> (string \<times> http_handler) list" where
  "ops_routes pprof HandlerFor cfg =
     [(''/healthz'', healthz), (''/readyz'', readyz (ops_Readiness cfg))] @
     (case ops_Registry cfg of None \<Rightarrow> [] | Some reg \<Rightarrow> [(''/metrics'', MetricsHandler HandlerFor reg)]) @
     (if EnablePprof cfg then (pprof_root, pprof ''index'') # map (\<lambda>n. (pprof_root @ n, pprof n)) pprof_pages else [])"

lemma Ops_routes: "Ops pprof HandlerFor cfg = map (apfst get_pattern) (ops_routes pprof HandlerFor cfg)"
  by (simp add: Ops_def ops_routes_def get_pattern_def pprof_root_def pprof_pages_def split: option.splits)

lemma get_pattern_parts [simp]: "pattern_method (get_pattern p) = ''GET''" "pattern_path (get_pattern p) = p"
  by (simp_all add: pattern_method_def pattern_path_def get_pattern_def)

definition is_get :: "request \<Rightarrow> bool" where
  "is_get r \<longleftrightarrow> req_Method r = ''GET'' \<or> req_Method r = ''HEAD''"

lemma get_matches: "method_matches ''GET'' (req_Method r) = is_get r"
  by (simp add: method_matches_def is_get_def)

lemma mux_get:
  assumes "clean_path (req_Path r)"
  shows "mux_ServeHTTP redirect (map (apfst get_pattern) routes) r w =
    (let known = filter (\<lambda>(p, _). path_matches p (req_Path r)) routes in
     if is_get r then
       (case longest (map (apfst get_pattern) known) of
          Some (_, h) \<Rightarrow> h r w
        | None \<Rightarrow> if req_Path r @ ''/'' \<in> fst ` set routes then redirect r w else http_Error 404 ''404 page not found'' w)
     else if known \<noteq> [] then http_Error 405 ''Method Not Allowed'' w else http_Error 404 ''404 page not found'' w)"
proof -
  let ?all = "map (apfst get_pattern) routes"
  have known: "filter (\<lambda>(p, _). path_matches (pattern_path p) x) ?all =
      map (apfst get_pattern) (filter (\<lambda>(p, _). path_matches p x) routes)" for x
    by (induction routes) (simp_all add: split_beta)
  have meth: "filter (\<lambda>(p, _). method_matches (pattern_method p) (req_Method r)) (map (apfst get_pattern) ps) =
      (if is_get r then map (apfst get_pattern) ps else [])" for ps :: "(string \<times> http_handler) list"
    by (induction ps) (simp_all add: get_matches split_beta)
  have slash: "(\<exists>(p, _) \<in> set ?all. pattern_path p = x \<and> method_matches (pattern_method p) (req_Method r)) \<longleftrightarrow>
      is_get r \<and> x \<in> fst ` set routes" for x
    by (induction routes) (auto simp: get_matches)
  have none: "longest ps = None \<longleftrightarrow> ps = []" for ps by (induction ps) (auto split: option.splits)
  show ?thesis unfolding mux_ServeHTTP_def Let_def known meth slash using assms by (simp add: none split: option.splits)
qed

lemma plain_path: "last p \<noteq> CHR ''/'' \<Longrightarrow> path_matches p path \<longleftrightarrow> path = p"
  by (auto simp: path_matches_def)

lemma subtree_path: "path_matches pprof_root path \<longleftrightarrow> take (length pprof_root) path = pprof_root"
  by (auto simp: path_matches_def pprof_root_def)

lemma page_path: "n \<in> set pprof_pages \<Longrightarrow> path_matches (pprof_root @ n) path \<longleftrightarrow> path = pprof_root @ n"
  by (rule plain_path) (auto simp: pprof_pages_def)

lemma distinct_pages: "distinct pprof_pages = True"
  by (simp add: pprof_pages_def)

lemma known_pages:
  "filter (\<lambda>(p, _). path_matches p path) (map (\<lambda>n. (pprof_root @ n, pprof n)) pprof_pages) =
     (if path \<in> (\<lambda>n. pprof_root @ n) ` set pprof_pages then [(path, pprof (drop (length pprof_root) path))] else [])"
proof -
  have "filter (\<lambda>(p, _). path_matches p path) (map (\<lambda>n. (pprof_root @ n, pprof n)) ns) =
      (if path \<in> (\<lambda>n. pprof_root @ n) ` set ns then [(path, pprof (drop (length pprof_root) path))] else [])"
    if "set ns \<subseteq> set pprof_pages" "distinct ns" for ns
    using that by (induction ns) (auto simp: page_path)
  from this [OF subset_refl] show ?thesis by (simp only: distinct_pages)
qed

lemma known_ops:
  "filter (\<lambda>(p, _). path_matches p path) (ops_routes pprof HandlerFor cfg) =
     (if path = ''/healthz'' then [(path, healthz)] else []) @
     (if path = ''/readyz'' then [(path, readyz (ops_Readiness cfg))] else []) @
     (case ops_Registry cfg of Some reg \<Rightarrow> if path = ''/metrics'' then [(path, MetricsHandler HandlerFor reg)] else [] | None \<Rightarrow> []) @
     (if EnablePprof cfg then
        (if take (length pprof_root) path = pprof_root then [(pprof_root, pprof ''index'')] else []) @
        (if path \<in> (\<lambda>n. pprof_root @ n) ` set pprof_pages then [(path, pprof (drop (length pprof_root) path))] else [])
      else [])"
  by (simp add: ops_routes_def plain_path subtree_path known_pages split: option.splits)

lemma route_paths:
  "fst ` set (ops_routes pprof HandlerFor cfg) =
     {''/healthz'', ''/readyz''} \<union> (if ops_Registry cfg = None then {} else {''/metrics''}) \<union>
     (if EnablePprof cfg then insert pprof_root ((@) pprof_root ` set pprof_pages) else {})"
proof -
  have "map fst (ops_routes pprof HandlerFor cfg) = [''/healthz'', ''/readyz''] @ (if ops_Registry cfg = None then [] else [''/metrics'']) @
      (if EnablePprof cfg then pprof_root # map ((@) pprof_root) pprof_pages else [])"
    by (cases "ops_Registry cfg") (simp_all add: ops_routes_def comp_def)
  from arg_cong [OF this, of set] show ?thesis by auto
qed

lemma slash_routes: "path @ ''/'' \<in> fst ` set (ops_routes pprof HandlerFor cfg) \<longleftrightarrow> EnablePprof cfg \<and> path = ''/debug/pprof''"
proof -
  have other: "path @ ''/'' \<noteq> p" if "last p \<noteq> CHR ''/''" for p using that by auto
  have "last (pprof_root @ n) \<noteq> CHR ''/''" if "n \<in> set pprof_pages" for n
    using that by (auto simp: pprof_pages_def)
  then have "path @ ''/'' \<notin> (@) pprof_root ` set pprof_pages" using other by blast
  moreover have "path @ ''/'' = pprof_root \<longleftrightarrow> path = ''/debug/pprof''"
    using append_same_eq [of path "''/''" "''/debug/pprof''"] by (simp add: pprof_root_def)
  moreover have "path @ ''/'' \<noteq> ''/healthz''" "path @ ''/'' \<noteq> ''/readyz''" "path @ ''/'' \<noteq> ''/metrics''"
    by (rule other, simp)+
  ultimately show ?thesis unfolding route_paths by simp
qed

lemma ops_table:
  assumes "clean_path (req_Path r)"
  shows "mux_ServeHTTP redirect (Ops pprof HandlerFor cfg) r w =
    (case ops_page pprof HandlerFor cfg (req_Path r) of
       Some h \<Rightarrow> if is_get r then h r w else http_Error 405 ''Method Not Allowed'' w
     | None \<Rightarrow> if EnablePprof cfg \<and> is_get r \<and> req_Path r = ''/debug/pprof'' then redirect r w
               else http_Error 404 ''404 page not found'' w)"
proof -
  let ?p = "req_Path r"
  note mux = mux_get [OF assms, of redirect "ops_routes pprof HandlerFor cfg" w, folded Ops_routes, unfolded slash_routes Let_def]
  consider (fixed) "?p \<in> {''/healthz'', ''/readyz'', ''/metrics''}"
    | (page) n where "?p = pprof_root @ n" "?p \<notin> {''/healthz'', ''/readyz'', ''/metrics''}"
    | (none) "?p \<notin> {''/healthz'', ''/readyz'', ''/metrics''}" "take (length pprof_root) ?p \<noteq> pprof_root"
    by (metis append_take_drop_id)
  then show ?thesis
  proof cases
    case fixed
    then have out: "take (length pprof_root) ?p \<noteq> pprof_root" "?p \<noteq> ''/debug/pprof''" by (auto simp: pprof_root_def)
    then have "?p \<notin> (@) pprof_root ` set pprof_pages" by auto
    with out fixed have "filter (\<lambda>(p, _). path_matches p ?p) (ops_routes pprof HandlerFor cfg) =
        (case ops_page pprof HandlerFor cfg ?p of None \<Rightarrow> [] | Some h \<Rightarrow> [(?p, h)])"
      unfolding known_ops by (cases "ops_Registry cfg") (auto simp: ops_page_def)
    with out show ?thesis unfolding mux by (simp split: option.splits)
  next
    case page
    then have out: "?p \<noteq> ''/debug/pprof''" by (auto simp: pprof_root_def)
    have ne: "n \<in> set pprof_pages \<Longrightarrow> n \<noteq> []" by (auto simp: pprof_pages_def)
    have mem: "?p \<in> (@) pprof_root ` set pprof_pages \<longleftrightarrow> n \<in> set pprof_pages" using page(1) by auto
    have known: "filter (\<lambda>(p, _). path_matches p ?p) (ops_routes pprof HandlerFor cfg) =
        (if EnablePprof cfg then (pprof_root, pprof ''index'') # (if n \<in> set pprof_pages then [(pprof_root @ n, pprof n)] else [])
         else [])"
      unfolding known_ops mem using page by (cases "ops_Registry cfg") simp_all
    have "ops_page pprof HandlerFor cfg ?p =
        (if EnablePprof cfg then Some (pprof (if n \<in> set pprof_pages then n else ''index'')) else None)"
      using page by (simp add: ops_page_def)
    then show ?thesis unfolding mux known using out ne by simp
  next
    case none
    then have "?p \<notin> (@) pprof_root ` set pprof_pages" by auto
    with none have "filter (\<lambda>(p, _). path_matches p ?p) (ops_routes pprof HandlerFor cfg) = []" "ops_page pprof HandlerFor cfg ?p = None"
      unfolding known_ops by (cases "ops_Registry cfg"; simp add: ops_page_def)+
    then show ?thesis unfolding mux by auto
  qed
qed

end
