(* ===== verification/Go_Encoding.thy ===== *)
theory Go_Encoding
  imports Go_Text
begin

text \<open>
  The encodings of the standard library that the packages print and read: decimal numbers,
  \<^verbatim>\<open>encoding/base64\<close> without padding, \<^verbatim>\<open>encoding/hex\<close>, and the integer verbs of \<^verbatim>\<open>fmt.Sscanf\<close>.
\<close>

section \<open>Decimal numbers\<close>

definition digit :: "char \<Rightarrow> bool" where "digit c \<longleftrightarrow> 48 \<le> byte c \<and> byte c \<le> 57"

definition number :: "string \<Rightarrow> nat" where
  "number s = foldl (\<lambda>n c. n * 10 + (byte c - 48)) 0 s"

lemma number_append: "number (s @ [c]) = number s * 10 + (byte c - 48)"
  by (simp add: number_def)

lemma digit_char: "(n :: nat) < 10 \<Longrightarrow> byte (char_of (48 + n)) = 48 + n"
  by simp

lemma digits_number: "number (digits n) = n"
proof (induction n rule: digits.induct)
  case (1 n)
  show ?case
  proof (cases "n < 10")
    case True
    then show ?thesis by (subst digits.simps) (simp add: number_def digit_char)
  next
    case False
    then show ?thesis using 1 [OF False]
      by (subst digits.simps) (simp add: number_append digit_char div_mult_mod_eq)
  qed
qed

lemma digit_of: "(n :: nat) < 10 \<Longrightarrow> digit (char_of (48 + n))"
  by (simp add: digit_def digit_char)

lemma digits_digit: "list_all digit (digits n)"
proof (induction n rule: digits.induct)
  case (1 n)
  then show ?case by (subst digits.simps) (simp add: digit_of)
qed

lemma digits_nonempty [simp]: "digits n \<noteq> []"
  by (subst digits.simps) simp

lemma digits_head: "n \<noteq> 0 \<Longrightarrow> byte (hd (digits n)) \<noteq> 48"
proof (induction n rule: digits.induct)
  case (1 n)
  show ?case
  proof (cases "n < 10")
    case True
    then show ?thesis using 1(2) by (subst digits.simps) (simp add: digit_char)
  next
    case False
    then have "n div 10 \<noteq> 0" by simp
    with False 1(1) [OF False] show ?thesis by (subst digits.simps) simp
  qed
qed

lemma digits_zero: "digits 0 = [char_of (48 :: nat)]"
  by (subst digits.simps) simp

lemma digits_no: "\<not> digit c \<Longrightarrow> c \<notin> set (digits n)"
  using digits_digit [of n] by (auto simp: list_all_iff)

section \<open>Base64\<close>

text \<open>Bytes as groups of six bits; the last group is filled up with zero bits.\<close>

fun sextets :: "nat list \<Rightarrow> nat list" where
  "sextets [] = []"
| "sextets [a] = [a div 4, a mod 4 * 16]"
| "sextets [a, b] = [a div 4, a mod 4 * 16 + b div 16, b mod 16 * 4]"
| "sextets (a # b # c # r) =
     a div 4 # (a mod 4 * 16 + b div 16) # (b mod 16 * 4 + c div 64) # c mod 64 # sextets r"

text \<open>The strict decoder refuses a last group whose filling is not zero.\<close>

fun octets :: "nat list \<Rightarrow> nat list option" where
  "octets [] = Some []"
| "octets [x] = None"
| "octets [x, y] = (if y mod 16 = 0 then Some [x * 4 + y div 16] else None)"
| "octets [x, y, z] = (if z mod 4 = 0 then Some [x * 4 + y div 16, y mod 16 * 16 + z div 4] else None)"
| "octets (x # y # z # w # r) =
     map_option (\<lambda>bs. (x * 4 + y div 16) # (y mod 16 * 16 + z div 4) # (z mod 4 * 64 + w) # bs) (octets r)"

definition std_alphabet :: string where
  "std_alphabet = ''ABCDEFGHIJKLMNOPQRSTUVWXYZabcdefghijklmnopqrstuvwxyz0123456789+/''"

definition url_alphabet :: string where
  "url_alphabet = ''ABCDEFGHIJKLMNOPQRSTUVWXYZabcdefghijklmnopqrstuvwxyz0123456789-_''"

definition base64_encode :: "string \<Rightarrow> string \<Rightarrow> string" where
  "base64_encode alphabet s = map (\<lambda>n. alphabet ! n) (sextets (map byte s))"

definition base64_value :: "string \<Rightarrow> char \<Rightarrow> nat option" where
  "base64_value alphabet c =
     (let i = length (takeWhile (\<lambda>x. x \<noteq> c) alphabet) in if i < length alphabet then Some i else None)"

text \<open>Line breaks in the input are skipped.\<close>

definition no_breaks :: "string \<Rightarrow> string" where
  "no_breaks s = filter (\<lambda>c. byte c \<noteq> 10 \<and> byte c \<noteq> 13) s"

definition base64_decode :: "string \<Rightarrow> string \<Rightarrow> string option" where
  "base64_decode alphabet s =
     (let vs = map (base64_value alphabet) (no_breaks s) in
      if None \<in> set vs then None else map_option (map char_of) (octets (map the vs)))"

definition hex_encode :: "string \<Rightarrow> string" where
  "hex_encode s = concat (map (\<lambda>c. [hex_digit (byte c div 16), hex_digit (byte c mod 16)]) s)"

lemma octets_sextets: "\<forall>b \<in> set bs. b < 256 \<Longrightarrow> octets (sextets bs) = Some bs"
proof (induction bs rule: sextets.induct)
  case (4 a b c r)
  then have "a < 256" "b < 256" "c < 256" "octets (sextets r) = Some r" by auto
  then show ?case by (simp add: div_less_iff_less_mult)
qed (auto simp: div_less_iff_less_mult)

lemma sextets_small: "\<forall>b \<in> set bs. b < 256 \<Longrightarrow> \<forall>x \<in> set (sextets bs). x < 64"
proof (induction bs rule: sextets.induct)
  case (4 a b c r)
  then have "a div 4 < 64" "b div 16 < 16" "c div 64 < 4" "\<forall>x \<in> set (sextets r). x < 64"
    by (auto simp: div_less_iff_less_mult)
  moreover have "a mod 4 < 4" "b mod 16 < 16" "c mod 64 < 64" by auto
  ultimately show ?case by auto
next
  case (3 a b)
  then have "a div 4 < 64" "b div 16 < 16" by (auto simp: div_less_iff_less_mult)
  moreover have "a mod 4 < 4" "b mod 16 < 16" by auto
  ultimately show ?case by auto
next
  case (2 a)
  then have "a div 4 < 64" by (auto simp: div_less_iff_less_mult)
  moreover have "a mod 4 < 4" by auto
  ultimately show ?case by auto
qed simp

lemma sextets_octets: "octets xs = Some bs \<Longrightarrow> \<forall>x \<in> set xs. x < 64 \<Longrightarrow> sextets bs = xs \<and> (\<forall>b \<in> set bs. b < 256)"
proof (induction xs arbitrary: bs rule: octets.induct)
  case (5 x y z w r)
  then obtain rs where rs: "octets r = Some rs" "bs = (x * 4 + y div 16) # (y mod 16 * 16 + z div 4) # (z mod 4 * 64 + w) # rs"
    by auto
  have small: "x < 64" "y < 64" "z < 64" "w < 64" using 5(3) by auto
  then have "y div 16 < 4" "z div 4 < 16" by (auto simp: div_less_iff_less_mult)
  moreover have "y mod 16 < 16" "z mod 4 < 4" by auto
  ultimately show ?case using rs 5(1) [OF rs(1)] 5(3) small by auto
next
  case (4 x y z)
  then have "x < 64" "y < 64" "z < 64" and "z mod 4 = 0" and bs: "bs = [x * 4 + y div 16, y mod 16 * 16 + z div 4]"
    by (auto split: if_splits)
  moreover from this have "y div 16 < 4" "z div 4 < 16" by (auto simp: div_less_iff_less_mult)
  moreover have "y mod 16 < 16" by auto
  ultimately show ?case by auto
next
  case (3 x y)
  then have "x < 64" "y < 64" "y mod 16 = 0" "bs = [x * 4 + y div 16]" by (auto split: if_splits)
  moreover from this have "y div 16 < 4" by (auto simp: div_less_iff_less_mult)
  ultimately show ?case by auto
qed auto

text \<open>What an alphabet has to be, and what the encoding then promises.\<close>

locale base64_alphabet =
  fixes alphabet :: string
  assumes size_64: "length alphabet = 64" and letters_distinct: "distinct alphabet"
    and letters_no_breaks: "\<forall>c \<in> set alphabet. byte c \<noteq> 10 \<and> byte c \<noteq> 13"
begin

lemma value_of_letter: "n < 64 \<Longrightarrow> base64_value alphabet (alphabet ! n) = Some n"
proof -
  assume n: "n < 64"
  have "takeWhile (\<lambda>x. x \<noteq> alphabet ! n) alphabet = take n alphabet"
    using n letters_distinct size_64
    by (intro takeWhile_eq_take_P_nth) (auto simp: nth_eq_iff_index_eq)
  then show ?thesis using n size_64 by (simp add: base64_value_def)
qed

lemma letter_of_value: "base64_value alphabet c = Some n \<Longrightarrow> n < 64 \<and> alphabet ! n = c"
  using nth_length_takeWhile [of "\<lambda>x. x \<noteq> c" alphabet] size_64
  by (auto simp: base64_value_def Let_def split: if_splits)

lemma sextets_letters: "set (base64_encode alphabet s) \<subseteq> set alphabet"
proof -
  have "\<forall>x \<in> set (sextets (map byte s)). x < 64" by (rule sextets_small) auto
  then show ?thesis using size_64 by (auto simp: base64_encode_def)
qed

lemma base64_decode_of_encode: "base64_decode alphabet (base64_encode alphabet s) = Some s"
proof -
  let ?xs = "sextets (map byte s)"
  have small: "\<forall>x \<in> set ?xs. x < 64" by (rule sextets_small) auto
  have "no_breaks (base64_encode alphabet s) = base64_encode alphabet s"
    using sextets_letters [of s] letters_no_breaks by (auto simp: no_breaks_def filter_id_conv)
  moreover have "map (base64_value alphabet) (base64_encode alphabet s) = map Some ?xs"
    using small value_of_letter by (simp add: base64_encode_def)
  moreover have "octets ?xs = Some (map byte s)" by (rule octets_sextets) auto
  ultimately show ?thesis by (simp add: base64_decode_def comp_def)
qed

lemma base64_encode_of_decode: "base64_decode alphabet s = Some t \<Longrightarrow> base64_encode alphabet t = no_breaks s"
proof -
  assume "base64_decode alphabet s = Some t"
  then obtain bs where none: "None \<notin> set (map (base64_value alphabet) (no_breaks s))"
    and bs: "octets (map the (map (base64_value alphabet) (no_breaks s))) = Some bs" and t: "t = map char_of bs"
    by (auto simp: base64_decode_def Let_def split: if_splits)
  let ?xs = "map the (map (base64_value alphabet) (no_breaks s))"
  have letters: "\<forall>c \<in> set (no_breaks s). \<exists>n < 64. base64_value alphabet c = Some n \<and> alphabet ! n = c"
  proof
    fix c assume "c \<in> set (no_breaks s)"
    with none obtain n where "base64_value alphabet c = Some n" by (metis image_eqI not_None_eq set_map)
    then show "\<exists>n < 64. base64_value alphabet c = Some n \<and> alphabet ! n = c" using letter_of_value by blast
  qed
  then have "\<forall>x \<in> set ?xs. x < 64" by auto
  with sextets_octets [OF bs] have sx: "sextets bs = ?xs" and b: "\<forall>b \<in> set bs. b < 256" by auto
  have "map byte t = bs" using b t by (simp add: comp_def map_idI)
  with sx have "base64_encode alphabet t = map (\<lambda>n. alphabet ! n) ?xs" by (simp add: base64_encode_def)
  also have "\<dots> = no_breaks s" unfolding map_map comp_def using letters by (intro map_idI) auto
  finally show ?thesis .
qed

end

interpretation std_base64: base64_alphabet std_alphabet
  by unfold_locales (simp_all add: std_alphabet_def)

interpretation url_base64: base64_alphabet url_alphabet
  by unfold_locales (simp_all add: url_alphabet_def)

section \<open>Scanning integers\<close>

text \<open>
  \<^verbatim>\<open>fmt.Sscanf\<close> on a format of literals and \<^verbatim>\<open>%d\<close>: a literal has to match; before a number white space
  is skipped, but a line feed is an error; a number that does not fit its width is an error. Input after
  the last verb is left unread.
\<close>

definition scan_literal :: "string \<Rightarrow> string \<Rightarrow> string option" where
  "scan_literal lit s = (if take (length lit) s = lit then Some (drop (length lit) s) else None)"

definition line_feed :: char where "line_feed = CHR 0x0A"

definition skip_space :: "string \<Rightarrow> string option" where
  "skip_space s =
     (let t = strip_front (filter (\<lambda>p. p \<noteq> [line_feed]) space_encodings) s in
      if t \<noteq> [] \<and> hd t = line_feed then None else Some t)"

definition scan_uint :: "nat \<Rightarrow> string \<Rightarrow> (nat \<times> string) option" where
  "scan_uint w s =
     (case skip_space s of
        None \<Rightarrow> None
      | Some t \<Rightarrow>
          let ds = takeWhile digit t in
          if ds = [] \<or> number ds \<ge> 2 ^ w then None else Some (number ds, dropWhile digit t))"

definition scan_int :: "string \<Rightarrow> (int \<times> string) option" where
  "scan_int s =
     (case skip_space s of
        None \<Rightarrow> None
      | Some t \<Rightarrow>
          let signed = t \<noteq> [] \<and> hd t \<in> {CHR ''+'', CHR ''-''}; u = (if signed then tl t else t);
              ds = takeWhile digit u;
              n = (if signed \<and> hd t = CHR ''-'' then - int (number ds) else int (number ds)) in
          if ds = [] \<or> \<not> int64 n then None else Some (n, dropWhile digit u))"

lemma digits_Cons: "\<exists>c cs. digits n = c # cs \<and> digit c"
  using digits_digit [of n] by (cases "digits n") auto

lemma strip_front_digit:
  assumes "digit c" and "\<forall>p \<in> set ps. p \<noteq> [] \<and> \<not> digit (hd p)"
  shows "strip_front ps (c # cs) = c # cs"
proof -
  have "\<not> (take (length p) (c # cs) = p \<and> p \<noteq> [])" if "p \<in> set ps" for p
    using assms that by (cases p) auto
  then have "strip_one ps (c # cs) = None" by (auto simp: strip_one_def find_None_iff)
  then show ?thesis by (rule strip_front_None)
qed

lemma space_no_digit: "p \<in> set space_encodings \<Longrightarrow> p \<noteq> [] \<and> \<not> digit (hd p)"
  by (auto simp: space_encodings_def digit_def)

lemma skip_space_digits: "skip_space (digits n @ s) = Some (digits n @ s)"
proof -
  obtain c cs where c: "digits n = c # cs" "digit c" using digits_Cons by blast
  then have "strip_front (filter (\<lambda>p. p \<noteq> [line_feed]) space_encodings) (c # cs @ s) = c # cs @ s"
    using space_no_digit by (intro strip_front_digit) auto
  moreover have "c \<noteq> line_feed" using c(2) by (auto simp: digit_def line_feed_def)
  ultimately show ?thesis using c(1) by (simp add: skip_space_def)
qed

lemma takeWhile_digits: "s = [] \<or> \<not> digit (hd s) \<Longrightarrow> takeWhile digit (digits n @ s) = digits n \<and> dropWhile digit (digits n @ s) = s"
  using digits_digit [of n] by (cases s) (auto simp: list_all_iff takeWhile_append2 dropWhile_append2)

lemma scan_uint_digits: "n < 2 ^ w \<Longrightarrow> s = [] \<or> \<not> digit (hd s) \<Longrightarrow> scan_uint w (digits n @ s) = Some (n, s)"
  using takeWhile_digits [of s n] by (simp add: scan_uint_def skip_space_digits digits_number)

lemma scan_int_digits: "n < 2 ^ 63 \<Longrightarrow> s = [] \<or> \<not> digit (hd s) \<Longrightarrow> scan_int (digits n @ s) = Some (int n, s)"
proof -
  assume n: "n < 2 ^ 63" and s: "s = [] \<or> \<not> digit (hd s)"
  obtain c cs where c: "digits n = c # cs" "digit c" using digits_Cons by blast
  then have "hd (digits n @ s) \<notin> {CHR ''+'', CHR ''-''}" by (auto simp: digit_def)
  then show ?thesis using takeWhile_digits [OF s, of n] n
    by (auto simp: scan_int_def skip_space_digits digits_number fits_def Let_def)
qed

lemma scan_literal_append: "scan_literal lit (lit @ s) = Some s"
  by (simp add: scan_literal_def)

end
