(* ===== verification/Net_Address.thy ===== *)
theory Net_Address
  imports Apperr Go_Encoding
begin

text \<open>
  What the packages use of \<^verbatim>\<open>net/netip\<close> and \<^verbatim>\<open>net\<close>: addresses with their parser and printer,
  prefixes, and the splitting and joining of host and port. An IPv6 address is the list of its eight
  16-bit groups with its zone; an IPv4 address is its 32-bit value.
\<close>

section \<open>Addresses\<close>

datatype addr = V4 nat | V6 "nat list" string

fun addr_ok :: "addr \<Rightarrow> bool" where
  "addr_ok (V4 n) \<longleftrightarrow> n < 2 ^ 32"
| "addr_ok (V6 hs z) \<longleftrightarrow> length hs = 8 \<and> (\<forall>h \<in> set hs. h < 65536)"

fun bit_len :: "addr \<Rightarrow> nat" where
  "bit_len (V4 _) = 32"
| "bit_len (V6 _ _) = 128"

fun addr_value :: "addr \<Rightarrow> nat" where
  "addr_value (V4 n) = n"
| "addr_value (V6 hs _) = foldl (\<lambda>v h. v * 65536 + h) 0 hs"

fun has_zone :: "addr \<Rightarrow> bool" where
  "has_zone (V4 _) = False"
| "has_zone (V6 _ z) = (z \<noteq> [])"

fun without_zone :: "addr \<Rightarrow> addr" where
  "without_zone (V4 n) = V4 n"
| "without_zone (V6 hs _) = V6 hs []"

fun is4in6 :: "addr \<Rightarrow> bool" where
  "is4in6 (V6 hs _) = (take 6 hs = [0, 0, 0, 0, 0, 65535])"
| "is4in6 (V4 _) = False"

fun unmap :: "addr \<Rightarrow> addr" where
  "unmap (V4 n) = V4 n"
| "unmap (V6 hs z) = (if is4in6 (V6 hs z) then V4 (hs ! 6 * 65536 + hs ! 7) else V6 hs z)"

lemma unmap_idem [simp]: "unmap (unmap a) = unmap a"
  by (cases a) auto

section \<open>Parsing\<close>

definition parse_octet :: "string \<Rightarrow> nat option" where
  "parse_octet s =
     (if s = [] \<or> \<not> list_all digit s \<or> (length s > 1 \<and> hd s = CHR ''0'') \<or> number s > 255 then None
      else Some (number s))"

definition parse_v4 :: "string \<Rightarrow> nat option" where
  "parse_v4 s =
     (case map parse_octet (split_on CHR ''.'' s) of
        [Some a, Some b, Some c, Some d] \<Rightarrow> Some (((a * 256 + b) * 256 + c) * 256 + d)
      | _ \<Rightarrow> None)"

definition hex_value :: "char \<Rightarrow> nat option" where
  "hex_value c =
     (let b = byte c in
      if 48 \<le> b \<and> b \<le> 57 then Some (b - 48)
      else if 97 \<le> b \<and> b \<le> 102 then Some (b - 87)
      else if 65 \<le> b \<and> b \<le> 70 then Some (b - 55)
      else None)"

definition hex_number :: "string \<Rightarrow> nat" where
  "hex_number s = foldl (\<lambda>n c. n * 16 + the (hex_value c)) 0 s"

text \<open>The groups of an IPv6 address: those read so far, where an ellipsis was, the rest.\<close>

function v6_groups :: "nat list \<Rightarrow> nat option \<Rightarrow> string \<Rightarrow> (nat list \<times> nat option \<times> string) option" where
  "v6_groups hs ell s =
     (if length hs \<ge> 8 then Some (hs, ell, s)
      else
        let ds = takeWhile (\<lambda>c. hex_value c \<noteq> None) s; rest = dropWhile (\<lambda>c. hex_value c \<noteq> None) s;
            hs' = hs @ [hex_number ds] in
        if ds = [] \<or> length ds > 4 then None
        else case rest of
          [] \<Rightarrow> Some (hs', ell, [])
        | c # r \<Rightarrow>
            if c = CHR ''.'' then
              (if ell = None \<and> length hs \<noteq> 6 \<or> length hs > 6 then None
               else case parse_v4 s of
                 None \<Rightarrow> None
               | Some n \<Rightarrow> Some (hs @ [n div 65536, n mod 65536], ell, []))
            else if c \<noteq> CHR '':'' \<or> r = [] then None
            else if hd r = CHR '':'' then
              (if ell \<noteq> None then None
               else if tl r = [] then Some (hs', Some (length hs'), [])
               else v6_groups hs' (Some (length hs')) (tl r))
            else v6_groups hs' ell r)"
  by pat_completeness auto
termination
  by (relation "measure (\<lambda>(hs, ell, s). 8 - length hs)") auto

definition parse_v6 :: "string \<Rightarrow> addr option" where
  "parse_v6 input =
     (let s = takeWhile (\<lambda>c. c \<noteq> CHR ''%'') input; zone = drop (Suc (length s)) input in
      if CHR ''%'' \<in> set input \<and> zone = [] then None
      else
        let start = (if take 2 s = ''::'' then Some 0 else None); body = (if take 2 s = ''::'' then drop 2 s else s) in
        if start = Some 0 \<and> body = [] then Some (V6 (replicate 8 0) zone)
        else case v6_groups [] start body of
          None \<Rightarrow> None
        | Some (hs, ell, rest) \<Rightarrow>
            if rest \<noteq> [] then None
            else if length hs < 8 then
              (case ell of
                 None \<Rightarrow> None
               | Some k \<Rightarrow> Some (V6 (take k hs @ replicate (8 - length hs) 0 @ drop k hs) zone))
            else if ell \<noteq> None then None
            else Some (V6 hs zone))"

text \<open>\<^verbatim>\<open>netip.ParseAddr\<close>: the first of dot, colon and percent sign decides.\<close>

definition parse_addr :: "string \<Rightarrow> addr option" where
  "parse_addr s =
     (case find (\<lambda>c. c \<in> {CHR ''.'', CHR '':'', CHR ''%''}) s of
        Some c \<Rightarrow>
          if c = CHR ''.'' then map_option V4 (parse_v4 s)
          else if c = CHR '':'' then parse_v6 s
          else None
      | None \<Rightarrow> None)"

section \<open>Printing\<close>

fun join_with :: "string \<Rightarrow> string list \<Rightarrow> string" where
  "join_with sep [] = []"
| "join_with sep [x] = x"
| "join_with sep (x # y # zs) = x @ sep @ join_with sep (y # zs)"

definition v4_string :: "nat \<Rightarrow> string" where
  "v4_string n =
     join_with ''.'' (map digits [n div 16777216, n div 65536 mod 256, n div 256 mod 256, n mod 256])"

fun hex_digits :: "nat \<Rightarrow> string" where
  "hex_digits n = (if n < 16 then [hex_digit n] else hex_digits (n div 16) @ [hex_digit (n mod 16)])"

declare hex_digits.simps [simp del]

text \<open>The first longest run of at least two zero groups.\<close>

definition zeros_from :: "nat list \<Rightarrow> nat \<Rightarrow> nat" where
  "zeros_from hs i = length (takeWhile (\<lambda>h. h = 0) (drop i hs))"

definition zero_run :: "nat list \<Rightarrow> (nat \<times> nat) option" where
  "zero_run hs =
     foldl (\<lambda>best i.
        let l = zeros_from hs i in
        if l \<ge> 2 \<and> (case best of None \<Rightarrow> True | Some (s, e) \<Rightarrow> l > e - s) then Some (i, i + l) else best)
       None [0..<8]"

definition v6_string :: "nat list \<Rightarrow> string" where
  "v6_string hs =
     (case zero_run hs of
        None \<Rightarrow> join_with '':'' (map hex_digits hs)
      | Some (s, e) \<Rightarrow>
          join_with '':'' (map hex_digits (take s hs)) @ ''::'' @ join_with '':'' (map hex_digits (drop e hs)))"

definition addr_string :: "addr \<Rightarrow> string" where
  "addr_string a =
     (case a of
        V4 n \<Rightarrow> v4_string n
      | V6 hs z \<Rightarrow>
          (if is4in6 a then ''::ffff:'' @ v4_string (hs ! 6 * 65536 + hs ! 7) else v6_string hs) @
          (if z = [] then [] else ''%'' @ z))"

section \<open>Prefixes\<close>

record prefix =
  prefix_addr :: addr
  prefix_bits :: nat

definition prefix_from :: "addr \<Rightarrow> nat \<Rightarrow> prefix" where
  "prefix_from a n = \<lparr>prefix_addr = without_zone a, prefix_bits = n\<rparr>"

text \<open>\<^verbatim>\<open>netip.ParsePrefix\<close>: the part after the last slash is a number without sign or leading zeros.\<close>

definition parse_prefix :: "string \<Rightarrow> prefix option" where
  "parse_prefix s =
     (if CHR ''/'' \<notin> set s then None
      else
        let bits = rev (takeWhile (\<lambda>c. c \<noteq> CHR ''/'') (rev s)); front = take (length s - Suc (length bits)) s in
        case parse_addr front of
          None \<Rightarrow> None
        | Some a \<Rightarrow>
            if has_zone a \<or> bits = [] \<or> \<not> list_all digit bits \<or> (length bits > 1 \<and> hd bits = CHR ''0'') \<or>
               number bits > bit_len a then None
            else Some (prefix_from a (number bits)))"

definition contains :: "prefix \<Rightarrow> addr \<Rightarrow> bool" where
  "contains p a \<longleftrightarrow>
     \<not> has_zone a \<and> bit_len (prefix_addr p) = bit_len a \<and>
     addr_value (prefix_addr p) div 2 ^ (bit_len a - prefix_bits p) = addr_value a div 2 ^ (bit_len a - prefix_bits p)"

section \<open>Host and port\<close>

definition after_last_colon :: "string \<Rightarrow> string" where
  "after_last_colon s = rev (takeWhile (\<lambda>c. c \<noteq> CHR '':'') (rev s))"

text \<open>\<^verbatim>\<open>net.SplitHostPort\<close>; \<^const>\<open>None\<close> is an error.\<close>

definition split_host_port :: "string \<Rightarrow> (string \<times> string) option" where
  "split_host_port s =
     (if CHR '':'' \<notin> set s then None
      else
        let port = after_last_colon s; i = length s - Suc (length port) in
        if hd s = CHR ''['' then
          (let host = takeWhile (\<lambda>c. c \<noteq> CHR '']'') (tl s); e = Suc (length host) in
           if CHR '']'' \<notin> set s \<or> Suc e \<noteq> i \<or> CHR ''['' \<in> set (tl s) \<or> CHR '']'' \<in> set (drop (Suc e) s) then None
           else Some (host, port))
        else
          (let host = take i s in
           if CHR '':'' \<in> set host \<or> CHR ''['' \<in> set s \<or> CHR '']'' \<in> set s then None
           else Some (host, port)))"

definition join_host_port :: "string \<Rightarrow> string \<Rightarrow> string" where
  "join_host_port host port =
     (if CHR '':'' \<in> set host then ''['' @ host @ '']:'' @ port else host @ '':'' @ port)"

section \<open>IPv4 addresses are printed and read back\<close>

lemma parse_octet_digits: "n < 256 \<Longrightarrow> parse_octet (digits n) = Some n"
proof -
  assume n: "n < 256"
  have "\<not> (length (digits n) > 1 \<and> hd (digits n) = CHR ''0'')"
    using digits_head [of n] by (cases "n = 0") (auto simp: digits_zero)
  with n show ?thesis by (simp add: parse_octet_def digits_number digits_digit)
qed

lemma parse_v4_string:
  assumes "n < 2 ^ 32"
  shows "parse_v4 (v4_string n) = Some n"
proof -
  let ?a = "n div 16777216" and ?b = "n div 65536 mod 256" and ?c = "n div 256 mod 256" and ?d = "n mod 256"
  have "?a < 256" using assms by (simp add: div_less_iff_less_mult)
  have dot: "CHR ''.'' \<notin> set (digits k)" for k by (rule digits_no) (simp add: digit_def)
  have "split_on CHR ''.'' (v4_string n) = [digits ?a, digits ?b, digits ?c, digits ?d]"
    using split_on_sep [OF dot, of ?a] split_on_sep [OF dot, of ?b] split_on_sep [OF dot, of ?c]
      split_on_no_sep [OF dot, of ?d] by (simp add: v4_string_def)
  then have "parse_v4 (v4_string n) = Some (((?a * 256 + ?b) * 256 + ?c) * 256 + ?d)"
    using \<open>?a < 256\<close> by (simp add: parse_v4_def parse_octet_digits)
  also have "((?a * 256 + ?b) * 256 + ?c) * 256 + ?d = n"
  proof -
    have "?a = n div 256 div 256 div 256" "n div 65536 = n div 256 div 256" by (simp_all add: div_mult2_eq [symmetric])
    then show ?thesis using div_mult_mod_eq [of "n div 256 div 256" 256] div_mult_mod_eq [of "n div 256" 256]
      div_mult_mod_eq [of n 256] by simp
  qed
  finally show ?thesis .
qed

lemma find_append: "find P (xs @ ys) = (case find P xs of None \<Rightarrow> find P ys | Some x \<Rightarrow> Some x)"
  by (induction xs) auto

lemma parse_addr_v4:
  assumes "n < 2 ^ 32"
  shows "parse_addr (addr_string (V4 n)) = Some (V4 n)"
proof -
  let ?p = "\<lambda>c. c \<in> {CHR ''.'', CHR '':'', CHR ''%''}"
  have none: "find ?p (digits k) = None" for k
    using digits_no [of "CHR ''.''" k] digits_no [of "CHR '':''" k] digits_no [of "CHR ''%''" k]
    by (auto simp: find_None_iff digit_def)
  have "find ?p (v4_string n) = Some CHR ''.''"
    unfolding v4_string_def by (simp only: list.map join_with.simps find_append none option.case) simp
  then show ?thesis using parse_v4_string [OF assms] by (simp add: parse_addr_def addr_string_def)
qed

section \<open>What is parsed is an address\<close>

lemma unmap_ok: "addr_ok a \<Longrightarrow> addr_ok (unmap a)"
proof (cases a)
  case (V6 hs z)
  assume "addr_ok a"
  with V6 have b: "hs ! 6 < 65536" "hs ! 7 < 65536" by auto
  have "x < 65536 \<Longrightarrow> y < 65536 \<Longrightarrow> x * 65536 + y < 4294967296" for x y :: nat by simp
  from this [OF b] show ?thesis using \<open>addr_ok a\<close> V6 by auto
qed simp

lemma parse_octet_bound: "parse_octet s = Some n \<Longrightarrow> n < 256"
  by (auto simp: parse_octet_def split: if_splits)

lemma parse_v4_bound:
  assumes "parse_v4 s = Some n"
  shows "n < 2 ^ 32"
proof -
  obtain a b c d where o: "map parse_octet (split_on CHR ''.'' s) = [Some a, Some b, Some c, Some d]"
    and n: "n = ((a * 256 + b) * 256 + c) * 256 + d"
    using assms by (auto simp: parse_v4_def split: list.splits option.splits)
  have "a < 256 \<and> b < 256 \<and> c < 256 \<and> d < 256" using o by (auto dest: parse_octet_bound simp: map_eq_Cons_conv)
  then show ?thesis using n by simp
qed

lemma hex_value_bound: "hex_value c = Some v \<Longrightarrow> v < 16"
  by (auto simp: hex_value_def Let_def split: if_splits)

lemma hex_number_snoc: "hex_number (s @ [c]) = hex_number s * 16 + the (hex_value c)"
  by (simp add: hex_number_def)

lemma hex_number_bound: "\<forall>c \<in> set s. hex_value c \<noteq> None \<Longrightarrow> hex_number s < 16 ^ length s"
proof (induction s rule: rev_induct)
  case (snoc c s)
  then obtain v where "hex_value c = Some v" "v < 16" by (auto dest: hex_value_bound)
  moreover have "hex_number s < 16 ^ length s" using snoc by simp
  ultimately show ?case by (simp add: hex_number_snoc)
qed (simp add: hex_number_def)

definition groups_ok :: "nat list \<Rightarrow> nat option \<Rightarrow> bool" where
  "groups_ok hs ell \<longleftrightarrow>
     length hs \<le> 8 \<and> (\<forall>h \<in> set hs. h < 65536) \<and> (case ell of None \<Rightarrow> True | Some k \<Rightarrow> k \<le> length hs)"

lemma hex_group_bound:
  assumes "length (takeWhile (\<lambda>c. hex_value c \<noteq> None) s) \<le> 4"
  shows "hex_number (takeWhile (\<lambda>c. hex_value c \<noteq> None) s) < 65536"
proof -
  let ?ds = "takeWhile (\<lambda>c. hex_value c \<noteq> None) s"
  have "hex_number ?ds < 16 ^ length ?ds" by (rule hex_number_bound) (auto dest: set_takeWhileD)
  also have "\<dots> \<le> 16 ^ 4" using assms by (intro power_increasing) auto
  finally show ?thesis by simp
qed

declare v6_groups.simps [simp del]

lemma v6_groups_ok:
  "v6_groups hs ell s = Some (hs', ell', r) \<Longrightarrow> groups_ok hs ell \<Longrightarrow> groups_ok hs' ell'"
proof (induction hs ell s rule: v6_groups.induct)
  case (1 hs ell s)
  let ?ds = "takeWhile (\<lambda>c. hex_value c \<noteq> None) s" and ?rest = "dropWhile (\<lambda>c. hex_value c \<noteq> None) s"
  let ?hs = "hs @ [hex_number ?ds]"
  show ?case
  proof (cases "length hs \<ge> 8")
    case True
    then show ?thesis using 1(3,4) by (subst (asm) v6_groups.simps) simp
  next
    case False
    have four: "?ds \<noteq> [] \<and> length ?ds \<le> 4"
      using 1(3) False by (subst (asm) v6_groups.simps) (auto simp: Let_def split: if_splits)
    then have g: "groups_ok ?hs ell" "groups_ok ?hs (Some (length ?hs))"
      using 1(4) False hex_group_bound [of s] by (auto simp: groups_ok_def split: option.splits)
    show ?thesis
    proof (cases ?rest)
      case Nil
      have "Some (?hs, ell, []) = Some (hs', ell', r)"
        using 1(3) [unfolded v6_groups.simps [of hs ell s] Let_def Nil list.case] False four by (simp split: if_splits)
      then show ?thesis using g by simp
    next
      case (Cons c r0)
      note step = 1(3) [unfolded v6_groups.simps [of hs ell s] Let_def Cons list.case]
      consider "c = CHR ''.''" | "c = CHR '':''" "r0 \<noteq> []" "hd r0 = CHR '':''" | "c = CHR '':''" "r0 \<noteq> []" "hd r0 \<noteq> CHR '':''"
        using step False four by (auto split: if_splits)
      then show ?thesis
      proof cases
        case 1
        then obtain n where "parse_v4 s = Some n" "length hs \<le> 6" "hs' = hs @ [n div 65536, n mod 65536]" "ell' = ell"
          using step False four by (auto split: if_splits option.splits)
        then show ?thesis using \<open>groups_ok hs ell\<close> parse_v4_bound [of s n]
          by (auto simp: groups_ok_def div_less_iff_less_mult split: option.splits)
      next
        case 2
        then show ?thesis using step False four g 1(1) [OF False refl refl refl _ Cons] by (auto split: if_splits)
      next
        case 3
        then show ?thesis using step False four g 1(2) [OF False refl refl refl _ Cons] by (auto split: if_splits)
      qed
    qed
  qed
qed

lemma parse_v6_ok:
  assumes "parse_v6 input = Some a"
  shows "addr_ok a"
proof -
  consider z where "a = V6 (replicate 8 0) z"
  | start body hs ell z where "v6_groups [] start body = Some (hs, ell, [])" "start \<in> {None, Some 0}"
      "length hs < 8 \<and> (\<exists>k. ell = Some k \<and> a = V6 (take k hs @ replicate (8 - length hs) 0 @ drop k hs) z) \<or>
       length hs \<ge> 8 \<and> a = V6 hs z"
    using assms unfolding parse_v6_def Let_def
    by (auto split: if_splits option.splits prod.splits simp: not_less)
  then show ?thesis
  proof cases
    case 2
    have "groups_ok hs ell" using v6_groups_ok [OF 2(1)] 2(2) by (auto simp: groups_ok_def)
    then show ?thesis using 2(3) set_take_subset [of _ hs] set_drop_subset [of _ hs] by (fastforce simp: groups_ok_def)
  qed simp
qed

lemma parse_addr_ok: "parse_addr s = Some a \<Longrightarrow> addr_ok a"
  using parse_v4_bound parse_v6_ok by (auto simp: parse_addr_def split: option.splits if_splits)

lemma addr_string_nonempty:
  assumes "addr_ok a"
  shows "addr_string a \<noteq> []"
proof (cases a)
  case (V4 n)
  then show ?thesis by (simp add: addr_string_def v4_string_def)
next
  case (V6 hs z)
  with assms obtain h hs' where "hs = h # hs'" by (cases hs) auto
  then have "join_with '':'' (map hex_digits hs) \<noteq> []" by (cases hs') (auto simp: hex_digits.simps [of h])
  then show ?thesis using V6 by (auto simp: addr_string_def v6_string_def split: option.splits)
qed

end
