(* ===== verification/Client_IP.thy ===== *)
theory Client_IP
  imports Grpc_Server Net_Address
begin

text \<open>
  Where a request comes from, and how many a client may send: \<^verbatim>\<open>clientip.go\<close>, \<^verbatim>\<open>loopback.go\<close>
  and \<^verbatim>\<open>ratelimit.go\<close> of the package \<^verbatim>\<open>grpcserver\<close>. The client's address is the peer's unless
  the peer is a trusted proxy; then it is the rightmost hop of \<^verbatim>\<open>x-forwarded-for\<close> that is
  not itself trusted.
\<close>

section \<open>Trusted proxies\<close>

type_synonym TrustedProxies = "prefix list"

text \<open>\<open>addr_error\<close> is the error \<^verbatim>\<open>netip.ParseAddr\<close> returns for a text that it refuses.\<close>

fun ParseTrustedProxies :: "(string \<Rightarrow> goerr) \<Rightarrow> string list \<Rightarrow> TrustedProxies result" where
  "ParseTrustedProxies addr_error [] = Inr []"
| "ParseTrustedProxies addr_error (v # vs) =
     (let value = trim_space v;
          prepend = (\<lambda>p. case ParseTrustedProxies addr_error vs of Inl e \<Rightarrow> Inl e | Inr ps \<Rightarrow> Inr (p # ps)) in
      if value = [] then ParseTrustedProxies addr_error vs
      else case parse_prefix value of
        Some p \<Rightarrow> prepend p
      | None \<Rightarrow>
          (case parse_addr value of
             None \<Rightarrow> Inl (errorf (''grpcserver: trusted proxy '' @ quote_text value @ '' is neither address nor CIDR: '')
                      (addr_error value))
           | Some a \<Rightarrow> prepend (prefix_from a (bit_len a))))"

definition Trust :: "TrustedProxies \<Rightarrow> addr \<Rightarrow> bool" where
  "Trust t a = list_ex (\<lambda>p. contains p (unmap a)) t"

section \<open>The client's address\<close>

definition forwarded_key :: string where "forwarded_key = ''x-forwarded-for''"

definition peerAddr :: "ctx \<Rightarrow> addr option" where
  "peerAddr c =
     (case ctx_peer c of
        None \<Rightarrow> None
      | Some raw \<Rightarrow>
          map_option unmap (parse_addr (case split_host_port raw of Some (host, _) \<Rightarrow> host | None \<Rightarrow> raw)))"

text \<open>The loop over the hops from the last to the first: the first that is an address and not trusted.\<close>

fun first_untrusted :: "TrustedProxies \<Rightarrow> string list \<Rightarrow> addr option" where
  "first_untrusted t [] = None"
| "first_untrusted t (part # parts) =
     (case parse_addr (trim_space part) of
        None \<Rightarrow> first_untrusted t parts
      | Some hop \<Rightarrow> if Trust t hop then first_untrusted t parts else Some hop)"

definition ClientIP :: "ctx \<Rightarrow> TrustedProxies \<Rightarrow> string" where
  "ClientIP c t =
     (case peerAddr c of
        None \<Rightarrow> []
      | Some a \<Rightarrow>
          if \<not> Trust t a then addr_string a
          else case ctx_incoming c of
            None \<Rightarrow> addr_string a
          | Some md \<Rightarrow>
              let forwarded = metadataValue md forwarded_key in
              if forwarded = [] then addr_string a
              else case first_untrusted t (rev (split_on CHR '','' forwarded)) of
                Some hop \<Rightarrow> addr_string (unmap hop)
              | None \<Rightarrow> addr_string a)"

definition ClientAddr :: "ctx \<Rightarrow> TrustedProxies \<Rightarrow> addr option" where
  "ClientAddr c t =
     (let raw = ClientIP c t in
      if raw = [] then None else map_option unmap (parse_addr raw))"

definition LoopbackTarget :: "string \<Rightarrow> string" where
  "LoopbackTarget listen =
     (case split_host_port listen of
        None \<Rightarrow> join_host_port ''localhost'' listen
      | Some (host, port) \<Rightarrow>
          join_host_port (if host \<in> {[], ''0.0.0.0'', ''::'', ''[::]''} then ''localhost'' else host) port)"

section \<open>Limiting the rate of requests\<close>

text \<open>
  The limiter is an interface: for a key it answers whether the request is allowed and
  when to try again, or fails; it may change the application's state. The waiting time is
  sent in seconds, rounded to the nearest: the program adds a half to a \<^verbatim>\<open>float64\<close> and cuts
  the fraction off, which is the sum below as long as the time has less than 2^22 seconds,
  48 days, for which a \<^verbatim>\<open>float64\<close> tells nanoseconds apart.
\<close>

type_synonym 'x RateLimiter = "ctx \<Rightarrow> string \<Rightarrow> 'x \<Rightarrow> (bool \<times> duration) result \<times> 'x"

record 'x RateLimitConfig =
  rl_Limiter :: "'x RateLimiter option"
  rl_Methods :: "string list"
  rl_TrustedProxies :: TrustedProxies
  rl_Logger :: "slogger option"

definition retry_after_seconds :: "duration \<Rightarrow> int" where
  "retry_after_seconds d = (d + 500000000) div 1000000000"

definition RateLimitUnaryInterceptor :: "'x RateLimitConfig \<Rightarrow> ('q, 'a, 'x) interceptor" where
  "RateLimitUnaryInterceptor cfg meth h c q s =
     (case rl_Limiter cfg of
        None \<Rightarrow> h c q s
      | Some limiter \<Rightarrow>
          let key = ClientIP c (rl_TrustedProxies cfg) in
          if (meth \<notin> set (rl_Methods cfg) \<and> rl_Methods cfg \<noteq> []) \<or> key = [] then h c q s
          else
            (case limiter c key (app s) of
               (Inl e, x) \<Rightarrow>
                 h c q (write_log (orDefaultLogger (rl_Logger cfg)) c LevelWarn ''rate limiter unavailable''
                          [(''error'', error_text e), (''method'', meth)] (s\<lparr>app := x\<rparr>))
             | (Inr (True, _), x) \<Rightarrow> h c q (s\<lparr>app := x\<rparr>)
             | (Inr (False, retryAfter), x) \<Rightarrow>
                 let s1 = write_log (logger_From c) c LevelWarn ''rate limit exceeded''
                            [(''method'', meth), (''retry_after'', duration_string retryAfter)] (s\<lparr>app := x\<rparr>) in
                 (Returned None (Some (status_Error codes_ResourceExhausted ''too many requests'')),
                  if retryAfter > 0 then SetHeader ''retry-after'' (itoa (retry_after_seconds retryAfter)) s1 else s1)))"

section \<open>What the hops say\<close>

lemma first_untrusted_Some:
  "first_untrusted t parts = Some hop \<Longrightarrow>
     \<not> Trust t hop \<and> (\<exists>part \<in> set parts. parse_addr (trim_space part) = Some hop)"
  by (induction parts) (auto split: option.splits if_splits)

lemma first_untrusted_append:
  "first_untrusted t (ps @ qs) =
     (case first_untrusted t ps of Some hop \<Rightarrow> Some hop | None \<Rightarrow> first_untrusted t qs)"
  by (induction ps) (auto split: option.splits)

lemma first_untrusted_skip:
  "\<forall>p \<in> set ps. case parse_addr (trim_space p) of None \<Rightarrow> True | Some a \<Rightarrow> Trust t a \<Longrightarrow>
     first_untrusted t ps = None"
  by (induction ps) (auto split: option.splits)

lemma peerAddr_ok: "peerAddr c = Some a \<Longrightarrow> addr_ok a"
  by (auto simp: peerAddr_def parse_addr_ok unmap_ok split: option.splits)

text \<open>The address is unknown only when the peer's is.\<close>

lemma ClientIP_unknown: "ClientIP c t = [] \<longleftrightarrow> peerAddr c = None"
proof (cases "peerAddr c")
  case (Some a)
  have "addr_string (unmap hop) \<noteq> []" if "first_untrusted t ps = Some hop" for ps hop
    using first_untrusted_Some [OF that] addr_string_nonempty unmap_ok parse_addr_ok by blast
  with Some addr_string_nonempty [OF peerAddr_ok [OF Some]] show ?thesis
    by (auto simp: ClientIP_def Let_def split: option.splits)
qed (simp add: ClientIP_def)

text \<open>The client is the peer, or a hop that no trusted prefix covers.\<close>

lemma ClientIP_origin:
  assumes "peerAddr c = Some a"
  shows "ClientIP c t = addr_string a \<or>
    Trust t a \<and> (\<exists>hop. ClientIP c t = addr_string (unmap hop) \<and> \<not> Trust t hop)"
  using assms first_untrusted_Some [of t] by (auto simp: ClientIP_def Let_def split: option.splits)

lemma parse_trusted_member:
  "ParseTrustedProxies err vs = Inr ps \<Longrightarrow> p \<in> set ps \<Longrightarrow>
     \<exists>v \<in> set vs. parse_prefix (trim_space v) = Some p \<or>
       (\<exists>a. parse_addr (trim_space v) = Some a \<and> p = prefix_from a (bit_len a))"
proof (induction vs arbitrary: ps)
  case (Cons v vs)
  from Cons.prems Cons.IH show ?case
    by (fastforce simp: Let_def split: if_splits option.splits sum.splits)
qed simp

section \<open>Properties\<close>

text \<open>
  C16. The address of a client cannot be forged. A peer that is not a trusted proxy is the client,
  whatever metadata it sends. Behind trusted proxies the client is the hop in front of them: what
  stands before it in the (first value of the) header, which the client may have written itself, has no influence.
\<close>

theorem client_ip_cannot_be_forged:
  assumes "peerAddr c = Some a"
    and "split_on CHR '','' (metadataValue md forwarded_key) = forged @ real # proxies"
    and "parse_addr (trim_space real) = Some hop" and "\<not> Trust t hop"
    and "\<forall>p \<in> set proxies. case parse_addr (trim_space p) of None \<Rightarrow> True | Some x \<Rightarrow> Trust t x"
  shows "ClientIP (c\<lparr>ctx_incoming := Some md\<rparr>) t = (if Trust t a then addr_string (unmap hop) else addr_string a)"
proof -
  have peer: "peerAddr (c\<lparr>ctx_incoming := Some md\<rparr>) = Some a" using assms(1) by (simp add: peerAddr_def)
  have "first_untrusted t (rev (forged @ real # proxies)) = Some hop"
    using assms(3,4) first_untrusted_skip [of "rev proxies" t] assms(5)
    by (simp add: first_untrusted_append)
  moreover have "metadataValue md forwarded_key \<noteq> []"
  proof
    assume "metadataValue md forwarded_key = []"
    then have "forged @ real # proxies = [[]]" using assms(2) by simp
    then have "real = []" by (cases forged) auto
    then show False using assms(3) by (simp add: trim_eval parse_addr_def)
  qed
  ultimately show ?thesis using peer assms(2) by (simp add: ClientIP_def Let_def)
qed

text \<open>A trusted network, a proxy of it, and a client that claims another address.\<close>

definition sample_net :: TrustedProxies where
  "sample_net = [\<lparr>prefix_addr = V4 167772160, prefix_bits = 8\<rparr>]"

definition sample_md :: MD where
  "sample_md = md_empty(forwarded_key := [''1.2.3.4,203.0.113.7, 10.0.0.2''])"

definition sample_ctx :: ctx where
  "sample_ctx = \<lparr>ctx_claims = None, ctx_request_id = None, ctx_logger = None, ctx_log_attrs = [], ctx_token = None,
     ctx_incoming = None, ctx_outgoing = None, ctx_peer = Some ''10.0.0.1:4000'', ctx_deadline = None\<rparr>"

lemmas addr_eval = parse_addr_def parse_v4_def parse_octet_def number_def digit_def split_host_port_def
  after_last_colon_def Trust_def contains_def sample_net_def trim_eval

lemma sample_peer: "peerAddr sample_ctx = Some (V4 167772161)"
  by (simp add: peerAddr_def sample_ctx_def addr_eval)

lemma sample_header: "split_on CHR '','' (metadataValue sample_md forwarded_key) =
    [''1.2.3.4''] @ ''203.0.113.7'' # ['' 10.0.0.2'']"
  by (simp add: sample_md_def metadataValue_def)

lemma sample_hops:
  "parse_addr (trim_space ''203.0.113.7'') = Some (V4 3405803783)"
  "parse_addr (trim_space '' 10.0.0.2'') = Some (V4 167772162)"
  by (simp_all add: addr_eval)

lemma sample_trust: "Trust sample_net (V4 167772161)" "Trust sample_net (V4 167772162)" "\<not> Trust sample_net (V4 3405803783)"
  by (simp_all add: addr_eval)

theorem client_ip_cannot_be_forged_witness:
  "ClientIP (sample_ctx\<lparr>ctx_incoming := Some sample_md\<rparr>) sample_net = addr_string (V4 3405803783)"
  using client_ip_cannot_be_forged [OF sample_peer sample_header sample_hops(1) sample_trust(3)]
    sample_hops(2) sample_trust by simp

text \<open>
  A proxy listed by its IPv4-mapped IPv6 address is accepted and then never trusted: the
  addresses that are checked are unmapped first, and an IPv6 prefix contains no IPv4 address.
\<close>

lemma mapped_proxy_is_never_trusted:
  "\<exists>t. ParseTrustedProxies err [''::ffff:10.0.0.1''] = Inr t \<and> \<not> Trust t (V4 167772161) \<and>
     \<not> Trust t (V6 [0, 0, 0, 0, 0, 65535, 2560, 1] z)"
proof -
  have "v6_groups [] (Some 0) ''ffff:10.0.0.1'' = Some ([65535, 2560, 1], Some 0, [])"
    by (simp add: v6_groups.simps [of "[]" "Some 0"] v6_groups.simps [of "[65535]" "Some 0"] hex_value_def hex_number_def
        parse_v4_def parse_octet_def number_def digit_def)
  moreover have "replicate 5 (0 :: nat) = [0, 0, 0, 0, 0]" by (simp add: numeral_eq_Suc)
  ultimately have "parse_addr ''::ffff:10.0.0.1'' = Some (V6 [0, 0, 0, 0, 0, 65535, 2560, 1] [])"
    by (simp add: parse_addr_def parse_v6_def)
  then have "ParseTrustedProxies err [''::ffff:10.0.0.1''] = Inr [prefix_from (V6 [0, 0, 0, 0, 0, 65535, 2560, 1] []) 128]"
    by (simp add: trim_eval parse_prefix_def)
  then show ?thesis by (simp add: Trust_def contains_def prefix_from_def)
qed

text \<open>
  The rate limiter stands in front of the handler in one of two ways. Either the handler runs once,
  in the same context, with no header added; so also when the limiter fails or the peer is unknown. Or the
  limiter, asked about the client's address, has refused; then the handler does not run, the answer is
  \<^verbatim>\<open>ResourceExhausted\<close>, and the time to wait, when there is one, is sent as the header \<^verbatim>\<open>retry-after\<close>.
\<close>

lemma rate_limit_refuses_only_on_demand:
  fixes s :: "'x server"
  shows "(\<exists>s'. (\<forall>h. RateLimitUnaryInterceptor cfg meth h c q s = h c q s') \<and> response_headers s' = response_headers s) \<or>
    (\<exists>limiter d x s'. rl_Limiter cfg = Some limiter \<and>
       limiter c (ClientIP c (rl_TrustedProxies cfg)) (app s) = (Inr (False, d), x) \<and>
       (\<forall>h. RateLimitUnaryInterceptor cfg meth h c q s =
          (Returned None (Some (StatusError codes_ResourceExhausted ''too many requests'' [])), s')) \<and>
       app s' = x \<and>
       response_headers s' = response_headers s @
         (if d > 0 then [(''retry-after'', itoa (retry_after_seconds d))] else []))"
proof -
  let ?ic = "RateLimitUnaryInterceptor cfg meth" and ?key = "ClientIP c (rl_TrustedProxies cfg)"
  have log: "response_headers (write_log l c lv m as t) = response_headers t" "app (write_log l c lv m as t) = app t"
    for l lv m as and t :: "'x server" by (simp_all add: write_log_def split: option.splits)
  consider (unlimited) "rl_Limiter cfg = None \<or> meth \<notin> set (rl_Methods cfg) \<and> rl_Methods cfg \<noteq> [] \<or> ?key = []"
    | (asked) limiter r x where "rl_Limiter cfg = Some limiter" "meth \<in> set (rl_Methods cfg) \<or> rl_Methods cfg = []"
        "?key \<noteq> []" "limiter c ?key (app s) = (r, x)"
    by (cases "rl_Limiter cfg") (auto, metis surj_pair)
  then show ?thesis
  proof cases
    case unlimited
    then have "\<forall>h. ?ic h c q s = h c q s"
      by (auto simp: RateLimitUnaryInterceptor_def Let_def split: option.splits)
    then show ?thesis by blast
  next
    case asked
    consider e where "r = Inl e" | d where "r = Inr (True, d)" | d where "r = Inr (False, d)"
      by (cases r) (metis, metis (full_types) surj_pair)
    then show ?thesis
      using asked by cases (auto simp: RateLimitUnaryInterceptor_def Let_def SetHeader_def status_Error_def log)
  qed
qed

end
