(* ===== verification/Gateway_Server.thy ===== *)
theory Gateway_Server
  imports Http_Api Client_IP
begin

text \<open>
  The gateway in front of a gRPC server: which headers of an HTTP request the server's interceptors get to see as
  metadata, and what they make of them. The gateway's library takes the metadata's keys from the header matchers and
  stores them in lower case; a key may have several values.
\<close>

section \<open>Headers that the library passes\<close>

definition metadata_prefix :: string where "metadata_prefix = ''Grpc-Metadata-''"

text \<open>
  As documented, \<^verbatim>\<open>runtime.DefaultHeaderMatcher\<close> passes a header whose name starts with \<^verbatim>\<open>Grpc-Metadata-\<close> under the
  rest of its name.
\<close>

definition matcher_documented :: "(string \<Rightarrow> string option) \<Rightarrow> bool" where
  "matcher_documented d \<longleftrightarrow> (\<forall>name. d (metadata_prefix @ name) = Some name)"

definition sample_matcher :: "string \<Rightarrow> string option" where
  "sample_matcher key =
     (if take (length metadata_prefix) key = metadata_prefix then Some (drop (length metadata_prefix) key) else None)"

lemma sample_matcher_documented: "matcher_documented sample_matcher"
  by (simp add: matcher_documented_def sample_matcher_def)

lemma matcher_keys:
  "to_lower key = authorization_key \<Longrightarrow> incomingHeaderMatcher d key = Some authorization_key"
  "to_lower key = request_id_key \<Longrightarrow> incomingHeaderMatcher d key = Some request_id_key"
  by (simp_all add: incomingHeaderMatcher_def Let_def authorization_key_def)

lemma matcher_prefixed:
  assumes "matcher_documented d"
  shows "incomingHeaderMatcher d (metadata_prefix @ name) = Some name"
proof -
  have "to_lower metadata_prefix = ''grpc-metadata-''" by code_simp
  then have "to_lower (metadata_prefix @ name) = ''grpc-metadata-'' @ to_lower name" by (simp add: to_lower_def)
  then show ?thesis
    using assms by (simp add: incomingHeaderMatcher_def Let_def request_id_key_def matcher_documented_def)
qed

section \<open>Who is calling\<close>

text \<open>
  C21. The identity of a call crosses the gateway: the \<^verbatim>\<open>Authorization\<close> and \<^verbatim>\<open>X-Request-Id\<close> headers of a request, however
  they are capitalised, become the metadata keys that the server's interceptors read; the token is the one that the
  authentication gets, the id is the one that the handlers and the log see and the one that goes back as a response
  header, which the gateway passes under the same name and lets a page of an allowed origin read.
\<close>

theorem gateway_passes_identity:
  assumes "to_lower auth = authorization_key" and "to_lower idh = request_id_key"
    and "incomingHeaderMatcher d auth = Some ka" and "incomingHeaderMatcher d idh = Some ki"
    and "md (to_lower ka) = v # vs" and "strip_bearer v = Some raw" and "raw \<noteq> []"
    and "md (to_lower ki) = i # is" and "i \<noteq> []"
  shows "BearerToken (c\<lparr>ctx_incoming := Some md\<rparr>) = Inr raw \<and>
    requestid_Get (enter_ctx cfg env meth (c\<lparr>ctx_incoming := Some md\<rparr>)) = i \<and>
    (''request_id'', i) \<in> set (ctx_log_attrs (enter_ctx cfg env meth (c\<lparr>ctx_incoming := Some md\<rparr>))) \<and>
    response_headers (enter_state cfg env meth (c\<lparr>ctx_incoming := Some md\<rparr>) s) = response_headers s @ [(request_id_key, i)] \<and>
    outgoingHeaderMatcher d request_id_key = Some request_id_key \<and>
    header_Get (cors_headers origin h) ''Access-Control-Expose-Headers'' = request_id_key"
proof -
  have low: "to_lower authorization_key = authorization_key" "to_lower request_id_key = request_id_key" by code_simp+
  have keys: "md authorization_key = v # vs" "md request_id_key = i # is"
    using assms(3-5,8) matcher_keys(1) [OF assms(1)] matcher_keys(2) [OF assms(2)] low by auto
  have "v \<noteq> []" using assms(6) by (auto simp: strip_bearer_def bearer_prefix_def)
  with keys assms(6,7) have "BearerToken (c\<lparr>ctx_incoming := Some md\<rparr>) = Inr raw"
    by (simp add: BearerToken_def metadataValue_def Let_def)
  moreover have id: "withRequestID f (c\<lparr>ctx_incoming := Some md\<rparr>) =
      (logger_Attrs (requestid_NewContext (c\<lparr>ctx_incoming := Some md\<rparr>) i) [(''request_id'', i)], i)" for f
    using keys(2) assms(9) by (simp add: withRequestID_def metadataValue_def Let_def)
  ultimately show ?thesis
    by (simp add: enter_ctx_def enter_state_def Let_def requestid_Get_def logger_Attrs_def logger_Into_def requestid_NewContext_def
      SetHeader_def add_in_flight_def outgoingHeaderMatcher_def equal_fold_def cors_headers_def header_Get_def header_Set_def)
qed

definition sample_request_md :: MD where
  "sample_request_md = md_empty(authorization_key := [''Bearer abc''], request_id_key := [''r7''])"

theorem gateway_passes_identity_witness:
  "BearerToken (empty_ctx\<lparr>ctx_incoming := Some sample_request_md\<rparr>) = Inr ''abc'' \<and>
   requestid_Get (enter_ctx sample_grpc_Config sample_env ''/svc/M'' (empty_ctx\<lparr>ctx_incoming := Some sample_request_md\<rparr>)) = ''r7''"
proof -
  have a: "to_lower ''Authorization'' = authorization_key" and i: "to_lower ''X-Request-Id'' = request_id_key" by code_simp+
  note ka = matcher_keys(1) [OF a, of sample_matcher] and ki = matcher_keys(2) [OF i, of sample_matcher]
  have ma: "sample_request_md (to_lower authorization_key) = ''Bearer abc'' # []" by code_simp
  have mi: "sample_request_md (to_lower request_id_key) = ''r7'' # []" by code_simp
  have st: "strip_bearer ''Bearer abc'' = Some ''abc''" by code_simp
  have ne: "''abc'' \<noteq> []" "''r7'' \<noteq> []" by simp_all
  note got = gateway_passes_identity [OF a i ka ki ma st ne(1) mi ne(2), of empty_ctx sample_grpc_Config sample_env "''/svc/M''"]
  show ?thesis by (intro conjI) (rule conjunct1 [OF got], rule conjunct1 [OF conjunct2 [OF got]])
qed



end
