(* ===== verification/Rate_Limiter.thy ===== *)
theory Rate_Limiter
  imports Apperr
begin

text \<open>
  The package \<^verbatim>\<open>ratelimit\<close>: a counter in Redis that limits the calls made under a key. The server is an
  argument: what a transaction of commands does to its state, and what its keyspace then holds. The contract
  \<open>redis_documented\<close> is the documented meaning of the four commands that the package sends. Times are those of
  the server's clock, in milliseconds.
\<close>

section \<open>Redis\<close>

type_synonym msec = int

datatype redis_cmd = INCR string | EXPIRE_NX string duration | PTTL string | DEL string

datatype reply = IntReply int | BoolReply bool | DurationReply duration

type_synonym keyspace = "string \<Rightarrow> (int \<times> msec option) option"

record 's redis =
  rd_Exec :: "msec \<Rightarrow> redis_cmd list \<Rightarrow> 's \<Rightarrow> reply list result \<times> 's"
  rd_view :: "msec \<Rightarrow> 's \<Rightarrow> keyspace"

text \<open>Each command on the keyspace of live keys; a key has an integer and perhaps a deadline.\<close>

fun redis_step :: "msec \<Rightarrow> redis_cmd \<Rightarrow> keyspace \<Rightarrow> reply \<times> keyspace" where
  "redis_step now (INCR k) ks =
     (case ks k of
        None \<Rightarrow> (IntReply 1, ks(k \<mapsto> (1, None)))
      | Some (n, d) \<Rightarrow> (IntReply (n + 1), ks(k \<mapsto> (n + 1, d))))"
| "redis_step now (EXPIRE_NX k w) ks =
     (case ks k of
        Some (n, None) \<Rightarrow> (BoolReply True, ks(k \<mapsto> (n, Some (now + w div 1000000))))
      | _ \<Rightarrow> (BoolReply False, ks))"
| "redis_step now (PTTL k) ks =
     (DurationReply (case ks k of None \<Rightarrow> - 2 | Some (n, None) \<Rightarrow> - 1 | Some (n, Some d) \<Rightarrow> (d - now) * 1000000), ks)"
| "redis_step now (DEL k) ks = (IntReply (if ks k = None then 0 else 1), ks(k := None))"

fun redis_steps :: "msec \<Rightarrow> redis_cmd list \<Rightarrow> keyspace \<Rightarrow> reply list \<times> keyspace" where
  "redis_steps now [] ks = ([], ks)"
| "redis_steps now (c # cs) ks =
     (let (r, ks1) = redis_step now c ks; (rs, ks2) = redis_steps now cs ks1 in (r # rs, ks2))"

text \<open>A key lives up to its deadline.\<close>

definition expire :: "msec \<Rightarrow> keyspace \<Rightarrow> keyspace" where
  "expire now ks = (\<lambda>k. case ks k of Some (n, Some d) \<Rightarrow> if now \<le> d then ks k else None | v \<Rightarrow> v)"

text \<open>
  The client sends a time to live in whole seconds; the contract speaks of such times only. Of a transaction
  that failed nothing is known, it may have run.
\<close>

definition whole_seconds :: "redis_cmd list \<Rightarrow> bool" where
  "whole_seconds cmds \<longleftrightarrow> (\<forall>k w. EXPIRE_NX k w \<in> set cmds \<longrightarrow> 0 < w \<and> w mod second = 0)"

definition redis_documented :: "'s redis \<Rightarrow> bool" where
  "redis_documented rd \<longleftrightarrow>
     (\<forall>now cmds s rs s'. whole_seconds cmds \<longrightarrow> rd_Exec rd now cmds s = (Inr rs, s') \<longrightarrow>
        redis_steps now cmds (rd_view rd now s) = (rs, rd_view rd now s')) \<and>
     (\<forall>now now' s. now \<le> now' \<longrightarrow> rd_view rd now' s = expire now' (rd_view rd now s))"

section \<open>The limiter\<close>

record limiter_Config =
  Limit :: int
  Window :: duration

record limit_Result =
  Allowed :: bool
  Count :: int
  RetryAfter :: duration

record Limiter =
  lim_prefix :: string
  lim_cfg :: limiter_Config

definition limiter_New :: "string \<Rightarrow> limiter_Config \<Rightarrow> Limiter" where
  "limiter_New prefix cfg =
     \<lparr>lim_prefix = prefix,
      lim_cfg = \<lparr>Limit = (if Limit cfg \<le> 0 then 20 else Limit cfg),
                 Window = (if Window cfg \<le> 0 then minute else Window cfg)\<rparr>\<rparr>"

definition limiter_key :: "Limiter \<Rightarrow> string \<Rightarrow> string" where
  "limiter_key l key = ''ratelimit:'' @ lim_prefix l @ '':'' @ key"

text \<open>\<^verbatim>\<open>Val\<close> of a command is zero when the reply is of another kind or missing.\<close>

definition int_val :: "reply list \<Rightarrow> nat \<Rightarrow> int" where
  "int_val rs i = (if i < length rs then (case rs ! i of IntReply n \<Rightarrow> n | _ \<Rightarrow> 0) else 0)"

definition duration_val :: "reply list \<Rightarrow> nat \<Rightarrow> duration" where
  "duration_val rs i = (if i < length rs then (case rs ! i of DurationReply d \<Rightarrow> d | _ \<Rightarrow> 0) else 0)"

definition limiter_Allow :: "'s redis \<Rightarrow> msec \<Rightarrow> Limiter \<Rightarrow> string \<Rightarrow> 's \<Rightarrow> limit_Result result \<times> 's" where
  "limiter_Allow rd now l key s =
     (let k = limiter_key l key; w = Window (lim_cfg l) in
      case rd_Exec rd now [INCR k, EXPIRE_NX k w, PTTL k] s of
        (Inl e, s') \<Rightarrow> (Inl (errorf (''ratelimit: incr '' @ k @ '': '') e), s')
      | (Inr rs, s') \<Rightarrow>
          let count = int_val rs 0; ttl = duration_val rs 2; ok = count \<le> Limit (lim_cfg l) in
          (Inr \<lparr>Allowed = ok, Count = count, RetryAfter = (if ok then 0 else if ttl > 0 then ttl else w)\<rparr>, s'))"

definition limiter_Reset :: "'s redis \<Rightarrow> msec \<Rightarrow> Limiter \<Rightarrow> string \<Rightarrow> 's \<Rightarrow> goerr option \<times> 's" where
  "limiter_Reset rd now l key s =
     (let k = limiter_key l key in
      case rd_Exec rd now [DEL k] s of
        (Inl e, s') \<Rightarrow> (Some (errorf (''ratelimit: del '' @ k @ '': '') e), s')
      | (Inr _, s') \<Rightarrow> (None, s'))"

section \<open>The specification: a counter per fixed window\<close>

text \<open>
  A key has no window, or a window with the calls counted so far and its last millisecond. The first call after a
  window opens the next one.
\<close>

type_synonym window = "(int \<times> msec) option"

definition window_call :: "msec \<Rightarrow> msec \<Rightarrow> window \<Rightarrow> int \<times> msec" where
  "window_call w now win =
     (case win of
        Some (n, d) \<Rightarrow> if now \<le> d then (n + 1, d) else (1, now + w)
      | None \<Rightarrow> (1, now + w))"

text \<open>The window that the keyspace stores for a key; a stored counter has a deadline within a window's length.\<close>

definition key_window :: "'s redis \<Rightarrow> msec \<Rightarrow> string \<Rightarrow> 's \<Rightarrow> window" where
  "key_window rd now k s = (case rd_view rd now s k of Some (n, Some d) \<Rightarrow> Some (n, d) | _ \<Rightarrow> None)"

definition counter_ok :: "'s redis \<Rightarrow> msec \<Rightarrow> Limiter \<Rightarrow> string \<Rightarrow> 's \<Rightarrow> bool" where
  "counter_ok rd now l key s \<longleftrightarrow>
     (case rd_view rd now s (limiter_key l key) of
        None \<Rightarrow> True
      | Some (n, None) \<Rightarrow> False
      | Some (n, Some d) \<Rightarrow> 1 \<le> n \<and> now \<le> d \<and> d \<le> now + Window (lim_cfg l) div 1000000)"

definition limiter_ok :: "Limiter \<Rightarrow> bool" where
  "limiter_ok l \<longleftrightarrow> 0 < Limit (lim_cfg l) \<and> 0 < Window (lim_cfg l) \<and> Window (lim_cfg l) mod second = 0"

lemma limiter_New_ok: "Window cfg mod second = 0 \<Longrightarrow> limiter_ok (limiter_New prefix cfg)"
  by (auto simp: limiter_ok_def limiter_New_def minute_def second_def)

lemma limiter_key_inject: "limiter_key l key = limiter_key l key' \<longleftrightarrow> key = key'"
  by (simp add: limiter_key_def)

lemma whole_seconds_allow: "limiter_ok l \<Longrightarrow> whole_seconds [INCR k, EXPIRE_NX k (Window (lim_cfg l)), PTTL k]"
  by (simp add: whole_seconds_def limiter_ok_def)

lemma window_msec:
  assumes "limiter_ok l"
  shows "Window (lim_cfg l) div 1000000 * 1000000 = Window (lim_cfg l)" "1000 \<le> Window (lim_cfg l) div 1000000"
proof -
  obtain q where q: "Window (lim_cfg l) = second * q" using assms by (auto simp: limiter_ok_def)
  then have "0 < q" using assms by (auto simp: limiter_ok_def second_def zero_less_mult_iff)
  with q show "Window (lim_cfg l) div 1000000 * 1000000 = Window (lim_cfg l)" "1000 \<le> Window (lim_cfg l) div 1000000"
    by (auto simp: second_def)
qed

lemma Allow_cases:
  assumes doc: "redis_documented rd" and l: "limiter_ok l" and ok: "counter_ok rd now l key s"
    and run: "limiter_Allow rd now l key s = (Inr r, s')"
  shows "let (n, d) = window_call (Window (lim_cfg l) div 1000000) now (key_window rd now (limiter_key l key) s) in
    rd_view rd now s' = (rd_view rd now s)(limiter_key l key \<mapsto> (n, Some d)) \<and>
    Count r = n \<and> Allowed r = (n \<le> Limit (lim_cfg l)) \<and>
    RetryAfter r = (if n \<le> Limit (lim_cfg l) then 0 else if now < d then (d - now) * 1000000 else Window (lim_cfg l))"
proof -
  let ?k = "limiter_key l key" and ?w = "Window (lim_cfg l)"
  let ?cmds = "[INCR ?k, EXPIRE_NX ?k ?w, PTTL ?k]"
  obtain rs where exec: "rd_Exec rd now ?cmds s = (Inr rs, s')"
    and r: "r = \<lparr>Allowed = int_val rs 0 \<le> Limit (lim_cfg l), Count = int_val rs 0, RetryAfter =
      (if int_val rs 0 \<le> Limit (lim_cfg l) then 0 else if duration_val rs 2 > 0 then duration_val rs 2 else ?w)\<rparr>"
    using run by (auto simp: limiter_Allow_def Let_def split: prod.splits sum.splits)
  have steps: "redis_steps now ?cmds (rd_view rd now s) = (rs, rd_view rd now s')"
    using doc whole_seconds_allow [OF l, of ?k] exec unfolding redis_documented_def by blast
  show ?thesis
  proof (cases "rd_view rd now s ?k")
    case None
    then show ?thesis using steps r
      by (auto simp: window_call_def key_window_def int_val_def duration_val_def)
  next
    case (Some v)
    then obtain n d where v: "rd_view rd now s ?k = Some (n, Some d)" "now \<le> d"
      using ok by (cases v) (auto simp: counter_ok_def split: option.splits)
    then show ?thesis using steps r
      by (auto simp: window_call_def key_window_def int_val_def duration_val_def)
  qed
qed

lemma window_call_bounds:
  assumes "limiter_ok l" "counter_ok rd now l key s"
    and "window_call (Window (lim_cfg l) div 1000000) now (key_window rd now (limiter_key l key) s) = (n, d)"
  shows "1 \<le> n \<and> now \<le> d \<and> d \<le> now + Window (lim_cfg l) div 1000000"
  using assms(2,3) window_msec(2) [OF assms(1)]
  by (auto simp: window_call_def key_window_def counter_ok_def split: option.splits if_splits)

text \<open>Time alone keeps the invariant, and the call that follows sees the same window.\<close>

lemma view_later: "redis_documented rd \<Longrightarrow> now \<le> now' \<Longrightarrow> rd_view rd now' s = expire now' (rd_view rd now s)"
  by (simp add: redis_documented_def)

lemma counter_ok_later:
  "redis_documented rd \<Longrightarrow> now \<le> now' \<Longrightarrow> counter_ok rd now l key s \<Longrightarrow> counter_ok rd now' l key s"
  by (auto simp: counter_ok_def view_later expire_def split: option.splits)

lemma window_later:
  "redis_documented rd \<Longrightarrow> now \<le> now' \<Longrightarrow>
     window_call w now' (key_window rd now' k s) = window_call w now' (key_window rd now k s)"
  by (auto simp: window_call_def key_window_def view_later expire_def split: option.splits if_splits)

lemma Allow_refines:
  assumes "redis_documented rd" "limiter_ok l" "counter_ok rd now l key s" "limiter_Allow rd now l key s = (Inr r, s')"
    and "window_call (Window (lim_cfg l) div 1000000) now (key_window rd now (limiter_key l key) s) = (n, d)"
  shows "key_window rd now (limiter_key l key) s' = Some (n, d)" and "counter_ok rd now l key s'"
    and "Count r = n" and "Allowed r = (n \<le> Limit (lim_cfg l))"
    and "key' \<noteq> key \<Longrightarrow> key_window rd now (limiter_key l key') s' = key_window rd now (limiter_key l key') s"
    and "\<not> Allowed r \<Longrightarrow> 0 < RetryAfter r \<and> RetryAfter r \<le> Window (lim_cfg l) \<and> d \<le> now + RetryAfter r div 1000000"
proof -
  note c = Allow_cases [OF assms(1-4), unfolded assms(5) Let_def split]
  note b = window_call_bounds [OF assms(2,3,5)]
  show "key_window rd now (limiter_key l key) s' = Some (n, d)" "Count r = n" "Allowed r = (n \<le> Limit (lim_cfg l))"
    using c by (auto simp: key_window_def)
  show "counter_ok rd now l key s'" using b c by (simp add: counter_ok_def)
  show "key_window rd now (limiter_key l key') s' = key_window rd now (limiter_key l key') s" if "key' \<noteq> key"
    using c that by (simp add: key_window_def limiter_key_inject)
  show "0 < RetryAfter r \<and> RetryAfter r \<le> Window (lim_cfg l) \<and> d \<le> now + RetryAfter r div 1000000" if "\<not> Allowed r"
  proof -
    have "(d - now) * 1000000 \<le> Window (lim_cfg l) div 1000000 * 1000000" using b by (intro mult_right_mono) auto
    then show ?thesis using c that b window_msec [OF assms(2)] assms(2) by (auto simp: limiter_ok_def)
  qed
qed

section \<open>Properties\<close>

text \<open>
  C8. \<^verbatim>\<open>Allow\<close> is one step of a counter over fixed windows: it counts the call in the window of its key, opening a
  new one when the last has passed, and in no other; it allows the call exactly when the count is within the limit;
  and to a refused caller it names a positive time, no longer than a window, after which the window is over.
\<close>

theorem allow_refines_fixed_window:
  assumes "redis_documented rd" "limiter_ok l" "counter_ok rd now l key s"
    and "limiter_Allow rd now l key s = (Inr r, s')"
  shows "\<exists>n d. (n, d) = window_call (Window (lim_cfg l) div 1000000) now (key_window rd now (limiter_key l key) s) \<and>
    key_window rd now (limiter_key l key) s' = Some (n, d) \<and> counter_ok rd now l key s' \<and>
    Count r = n \<and> (Allowed r \<longleftrightarrow> n \<le> Limit (lim_cfg l)) \<and>
    (\<forall>key'. key' \<noteq> key \<longrightarrow> key_window rd now (limiter_key l key') s' = key_window rd now (limiter_key l key') s) \<and>
    (Allowed r \<or> 0 < RetryAfter r \<and> RetryAfter r \<le> Window (lim_cfg l) \<and> d \<le> now + RetryAfter r div 1000000)"
proof -
  obtain n d where w: "window_call (Window (lim_cfg l) div 1000000) now (key_window rd now (limiter_key l key) s) = (n, d)"
    by fastforce
  show ?thesis
    using Allow_refines [OF assms w] w by (intro exI [of _ n] exI [of _ d]) auto
qed

text \<open>A server that keeps the keyspace itself, and drops dead keys when it is asked.\<close>

definition plain_redis :: "keyspace redis" where
  "plain_redis =
     \<lparr>rd_Exec = (\<lambda>now cmds ks. let (rs, ks') = redis_steps now cmds (expire now ks) in (Inr rs, ks')),
      rd_view = expire\<rparr>"

definition sample_limiter :: Limiter where
  "sample_limiter = limiter_New ''login'' \<lparr>Limit = 2, Window = minute\<rparr>"

lemma sample_limiter_ok: "limiter_ok sample_limiter"
  unfolding sample_limiter_def by (rule limiter_New_ok) (simp add: minute_def second_def)

lemma expire_expire: "now \<le> now' \<Longrightarrow> expire now' (expire now ks) = expire now' ks"
  by (rule ext) (auto simp: expire_def split: option.splits)

lemma expire_live: "expire now ks = ks \<longleftrightarrow> (\<forall>k n d. ks k = Some (n, Some d) \<longrightarrow> now \<le> d)"
  by (auto simp: expire_def fun_eq_iff split: option.splits if_splits)

lemma redis_step_live:
  "expire now ks = ks \<Longrightarrow> whole_seconds [c] \<Longrightarrow> expire now (snd (redis_step now c ks)) = snd (redis_step now c ks)"
  by (cases c) (auto simp: expire_live whole_seconds_def split: option.splits if_splits)

lemma redis_steps_live:
  "expire now ks = ks \<Longrightarrow> whole_seconds cs \<Longrightarrow> expire now (snd (redis_steps now cs ks)) = snd (redis_steps now cs ks)"
proof (induction cs arbitrary: ks)
  case (Cons c cs)
  then have "whole_seconds [c]" "whole_seconds cs" by (auto simp: whole_seconds_def)
  with Cons redis_step_live [of now ks c] show ?case by (simp add: case_prod_beta Let_def)
qed simp

lemma plain_redis_documented: "redis_documented plain_redis"
  unfolding redis_documented_def
proof (intro conjI allI impI)
  fix now now' :: msec and ks
  show "rd_view plain_redis now' ks = expire now' (rd_view plain_redis now ks)" if "now \<le> now'"
    using that by (simp add: plain_redis_def expire_expire)
next
  fix now cmds ks rs ks'
  assume "whole_seconds cmds" and "rd_Exec plain_redis now cmds ks = (Inr rs, ks')"
  then have "redis_steps now cmds (expire now ks) = (rs, ks')" "expire now ks' = ks'"
    using redis_steps_live [of now "expire now ks" cmds] expire_expire [of now now ks]
    by (auto simp: plain_redis_def split: prod.splits)
  then show "redis_steps now cmds (rd_view plain_redis now ks) = (rs, rd_view plain_redis now ks')"
    by (simp add: plain_redis_def)
qed

lemmas limiter_eval = limiter_Allow_def plain_redis_def expire_def int_val_def duration_val_def sample_limiter_def
  limiter_New_def minute_def second_def

theorem allow_refines_fixed_window_witness:
  "\<exists>r s'. limiter_Allow plain_redis 1000 sample_limiter ''10.0.0.1'' Map.empty = (Inr r, s') \<and> Count r = 1 \<and>
     key_window plain_redis 1000 (limiter_key sample_limiter ''10.0.0.1'') s' = Some (1, 61000)"
proof -
  obtain r s' where run: "limiter_Allow plain_redis 1000 sample_limiter ''10.0.0.1'' Map.empty = (Inr r, s')"
    by (auto simp: limiter_eval)
  have ok: "counter_ok plain_redis 1000 sample_limiter ''10.0.0.1'' Map.empty"
    by (simp add: counter_ok_def plain_redis_def expire_def)
  have w: "window_call (Window (lim_cfg sample_limiter) div 1000000) 1000
      (key_window plain_redis 1000 (limiter_key sample_limiter ''10.0.0.1'') Map.empty) = (1, 61000)"
    by (simp add: window_call_def key_window_def plain_redis_def expire_def sample_limiter_def limiter_New_def minute_def second_def)
  show ?thesis
    using allow_refines_fixed_window [OF plain_redis_documented sample_limiter_ok ok run] run
    unfolding w by auto
qed

text \<open>Calls under one key at given times.\<close>

fun allow_at :: "'s redis \<Rightarrow> Limiter \<Rightarrow> string \<Rightarrow> msec list \<Rightarrow> 's \<Rightarrow> limit_Result result list \<times> 's" where
  "allow_at rd l key [] s = ([], s)"
| "allow_at rd l key (t # ts) s =
     (let (r, s1) = limiter_Allow rd t l key s; (rs, s2) = allow_at rd l key ts s1 in (r # rs, s2))"

fun admitted :: "limit_Result result \<Rightarrow> bool" where
  "admitted (Inr r) = Allowed r"
| "admitted (Inl e) = False"

lemma Allow_total:
  assumes "\<forall>now cmds s. \<exists>rs s'. rd_Exec rd now cmds s = (Inr rs, s')"
  shows "\<exists>r s'. limiter_Allow rd now l key s = (Inr r, s')"
proof -
  obtain rs s' where "rd_Exec rd now [INCR (limiter_key l key), EXPIRE_NX (limiter_key l key) (Window (lim_cfg l)),
      PTTL (limiter_key l key)] s = (Inr rs, s')" using assms by blast
  then show ?thesis by (simp add: limiter_Allow_def Let_def)
qed

lemma allow_within_window:
  assumes doc: "redis_documented rd" and l: "limiter_ok l" and up: "\<forall>now cmds s. \<exists>rs s'. rd_Exec rd now cmds s = (Inr rs, s')"
  shows "counter_ok rd t0 l key s \<Longrightarrow> key_window rd t0 (limiter_key l key) s = Some (n, d) \<Longrightarrow>
    sorted (t0 # ts) \<Longrightarrow> \<forall>t \<in> set ts. t \<le> d \<Longrightarrow>
    map admitted (fst (allow_at rd l key ts s)) = map (\<lambda>i. n + int i < Limit (lim_cfg l)) [0..<length ts]"
proof (induction ts arbitrary: t0 s n)
  case (Cons t ts)
  let ?k = "limiter_key l key" and ?w = "Window (lim_cfg l) div 1000000"
  obtain r s1 where run: "limiter_Allow rd t l key s = (Inr r, s1)" using Allow_total [OF up] by blast
  have ok: "counter_ok rd t l key s" using counter_ok_later [OF doc _ Cons.prems(1), of t] Cons.prems(3) by simp
  have w: "window_call ?w t (key_window rd t ?k s) = (n + 1, d)"
    using window_later [OF doc, of t0 t] Cons.prems(2-4) by (simp add: window_call_def)
  note a = Allow_refines [OF doc l ok run w]
  have "map admitted (fst (allow_at rd l key ts s1)) = map (\<lambda>i. n + 1 + int i < Limit (lim_cfg l)) [0..<length ts]"
    using Cons.IH [OF a(2,1)] Cons.prems(3,4) by simp
  moreover have "[0..<length (t # ts)] = 0 # map Suc [0..<length ts]" by (simp add: upt_conv_Cons map_Suc_upt del: upt_Suc)
  ultimately show ?case using run a(4) by (auto simp: case_prod_beta Let_def comp_def algebra_simps)
qed simp

text \<open>
  Of the calls that a key makes within a window, the first as many as the limit are allowed and every later one
  is refused, however many there are.
\<close>

lemma window_admits_exactly_limit:
  assumes "redis_documented rd" "limiter_ok l" "\<forall>now cmds s. \<exists>rs s'. rd_Exec rd now cmds s = (Inr rs, s')"
    and "rd_view rd t s (limiter_key l key) = None"
    and "sorted (t # ts)" "\<forall>t' \<in> set ts. t' \<le> t + Window (lim_cfg l) div 1000000"
  shows "map admitted (fst (allow_at rd l key (t # ts) s)) =
    map (\<lambda>i. int i < Limit (lim_cfg l)) [0..<Suc (length ts)]"
proof -
  let ?k = "limiter_key l key" and ?w = "Window (lim_cfg l) div 1000000"
  obtain r s1 where run: "limiter_Allow rd t l key s = (Inr r, s1)" using Allow_total [OF assms(3)] by blast
  have ok: "counter_ok rd t l key s" using assms(4) by (simp add: counter_ok_def)
  have w: "window_call ?w t (key_window rd t ?k s) = (1, t + ?w)"
    using assms(4) by (simp add: window_call_def key_window_def)
  note a = Allow_refines [OF assms(1,2) ok run w]
  have "map admitted (fst (allow_at rd l key ts s1)) = map (\<lambda>i. 1 + int i < Limit (lim_cfg l)) [0..<length ts]"
    by (rule allow_within_window [OF assms(1-3) a(2,1) assms(5,6)])
  moreover have "[0..<Suc (length ts)] = 0 # map Suc [0..<length ts]" by (simp add: upt_conv_Cons map_Suc_upt del: upt_Suc)
  ultimately show ?thesis using run a(4) by (auto simp: case_prod_beta Let_def comp_def algebra_simps)
qed

end
