(* ===== verification/Limited_Server.thy ===== *)
theory Limited_Server
  imports Client_IP Rate_Limiter
begin

text \<open>
  The rate-limit interceptor of \<^verbatim>\<open>grpcserver\<close> with the limiter of \<^verbatim>\<open>ratelimit\<close> behind it, over a sequence of requests of one
  client. A service joins the two by handing on what \<^verbatim>\<open>Allow\<close> returns.
\<close>

section \<open>Requests of one client\<close>

definition redis_limiter :: "'s redis \<Rightarrow> msec \<Rightarrow> Limiter \<Rightarrow> 's RateLimiter" where
  "redis_limiter rd now l c key s =
     (case limiter_Allow rd now l key s of
        (Inl e, s') \<Rightarrow> (Inl e, s')
      | (Inr r, s') \<Rightarrow> (Inr (Allowed r, RetryAfter r), s'))"

definition limited :: "'s redis \<Rightarrow> Limiter \<Rightarrow> 's RateLimitConfig \<Rightarrow> msec \<Rightarrow> ('q, 'a, 's) interceptor" where
  "limited rd l cfg now = RateLimitUnaryInterceptor (cfg\<lparr>rl_Limiter := Some (redis_limiter rd now l)\<rparr>)"

text \<open>The requests arrive one after the other at the given times, each with its context; the outcomes, in order.\<close>

fun serve_at ::
  "'s redis \<Rightarrow> Limiter \<Rightarrow> 's RateLimitConfig \<Rightarrow> string \<Rightarrow> ('q, 'a, 's) handler \<Rightarrow> (msec \<times> ctx \<times> 'q) list \<Rightarrow> 's server \<Rightarrow>
   'a outcome list \<times> 's server" where
  "serve_at rd l cfg meth h [] s = ([], s)"
| "serve_at rd l cfg meth h ((t, c, q) # rs) s =
     (let (o1, s1) = limited rd l cfg t meth h c q s; (os, s2) = serve_at rd l cfg meth h rs s1 in (o1 # os, s2))"

definition refusal :: "'a outcome" where
  "refusal = Returned None (Some (StatusError codes_ResourceExhausted ''too many requests'' []))"

fun answered :: "('q, 'a, 'x) handler \<Rightarrow> bool \<times> msec \<times> ctx \<times> 'q \<Rightarrow> 'a outcome \<Rightarrow> bool" where
  "answered h (ok, t, c, q) out \<longleftrightarrow> (if ok then \<exists>s'. out = fst (h c q s') else out = refusal)"

text \<open>What one request finds: the handler or the refusal, as the limiter decides.\<close>

lemma write_log_kept: "app (write_log l c lv m as t) = app t" "response_headers (write_log l c lv m as t) = response_headers t"
  by (simp_all add: write_log_def split: option.splits)

lemma limited_request:
  assumes key: "ClientIP c (rl_TrustedProxies cfg) = key" "key \<noteq> []" and meth: "rl_Methods cfg = [] \<or> meth \<in> set (rl_Methods cfg)"
    and call: "limiter_Allow rd t l key (app s) = (Inr r, x)"
    and keeps: "\<forall>c q s. app (snd (h c q s)) = app s"
  shows "app (snd (limited rd l cfg t meth h c q s)) = x"
    and "Allowed r \<Longrightarrow> \<exists>s'. limited rd l cfg t meth h c q s = h c q s'"
    and "\<not> Allowed r \<Longrightarrow> fst (limited rd l cfg t meth h c q s) = refusal"
    and "\<not> Allowed r \<Longrightarrow> RetryAfter r > 0 \<Longrightarrow>
      response_headers (snd (limited rd l cfg t meth h c q s)) =
        response_headers s @ [(''retry-after'', itoa (retry_after_seconds (RetryAfter r)))]"
proof -
  have eq: "limited rd l cfg t meth h c q s =
      (if Allowed r then h c q (s\<lparr>app := x\<rparr>)
       else let s1 = write_log (logger_From c) c LevelWarn ''rate limit exceeded''
                  [(''method'', meth), (''retry_after'', duration_string (RetryAfter r))] (s\<lparr>app := x\<rparr>) in
         (refusal, if RetryAfter r > 0 then SetHeader ''retry-after'' (itoa (retry_after_seconds (RetryAfter r))) s1 else s1))"
    using key meth call
    by (auto simp: limited_def RateLimitUnaryInterceptor_def redis_limiter_def Let_def refusal_def status_Error_def)
  show "app (snd (limited rd l cfg t meth h c q s)) = x"
    "Allowed r \<Longrightarrow> \<exists>s'. limited rd l cfg t meth h c q s = h c q s'"
    "\<not> Allowed r \<Longrightarrow> fst (limited rd l cfg t meth h c q s) = refusal"
    "\<not> Allowed r \<Longrightarrow> RetryAfter r > 0 \<Longrightarrow>
      response_headers (snd (limited rd l cfg t meth h c q s)) =
        response_headers s @ [(''retry-after'', itoa (retry_after_seconds (RetryAfter r)))]"
    unfolding eq by (auto simp: keeps Let_def SetHeader_def write_log_kept)
qed

text \<open>A sequence of requests of one client makes the calls of \<open>allow_at\<close>, and is answered accordingly.\<close>

lemma serve_follows_limiter:
  assumes up: "\<forall>now cmds s. \<exists>rs s'. rd_Exec rd now cmds s = (Inr rs, s')"
    and meth: "rl_Methods cfg = [] \<or> meth \<in> set (rl_Methods cfg)" and keeps: "\<forall>c q s. app (snd (h c q s)) = app s"
    and key: "key \<noteq> []"
  shows "\<forall>(t, c, q) \<in> set rs. ClientIP c (rl_TrustedProxies cfg) = key \<Longrightarrow>
    list_all2 (answered h)
      (zip (map admitted (fst (allow_at rd l key (map fst rs) (app s)))) rs)
      (fst (serve_at rd l cfg meth h rs s))"
proof (induction rs arbitrary: s)
  case (Cons request rs)
  obtain t c q where req: "request = (t, c, q)" by (cases request) auto
  obtain r x where call: "limiter_Allow rd t l key (app s) = (Inr r, x)" using Allow_total [OF up] by blast
  have k: "ClientIP c (rl_TrustedProxies cfg) = key" using Cons.prems req by auto
  note step = limited_request [OF k key meth call keeps, of q]
  have "if Allowed r then \<exists>s'. fst (limited rd l cfg t meth h c q s) = fst (h c q s')
      else fst (limited rd l cfg t meth h c q s) = refusal"
    using step(2,3) by (metis (full_types))
  moreover have "list_all2 (answered h)
      (zip (map admitted (fst (allow_at rd l key (map fst rs) x))) rs)
      (fst (serve_at rd l cfg meth h rs (snd (limited rd l cfg t meth h c q s))))"
    using Cons.IH [of "snd (limited rd l cfg t meth h c q s)"] Cons.prems step(1) by simp
  ultimately show ?case using call by (simp add: req case_prod_beta Let_def)
qed simp


text \<open>Two requests are allowed in a minute; the third of a client behind a proxy is refused.\<close>

definition echo :: "(unit, unit, keyspace) handler" where
  "echo c q s = (Returned (Some ()) None, s)"

definition sample_rate_limit :: "keyspace RateLimitConfig" where
  "sample_rate_limit = \<lparr>rl_Limiter = None, rl_Methods = [], rl_TrustedProxies = sample_net, rl_Logger = None\<rparr>"

definition quiet_server :: "keyspace server" where
  "quiet_server =
     \<lparr>requests_total = (\<lambda>_. 0), request_durations = [], in_flight = (\<lambda>_. 0), log_records = [], response_headers = [],
      app = Map.empty\<rparr>"


end
