(* ===== verification/Addr_Roundtrip.thy ===== *)
theory Addr_Roundtrip
  imports Client_IP
begin

text \<open>
  Addresses are printed and read back: what \<^verbatim>\<open>netip\<close> prints of an address of either family, with the longest run of zero
  groups left out, a mapped IPv4 address or a zone, parses to the same address. So \<^verbatim>\<open>ClientAddr\<close> gives the address that
  \<^verbatim>\<open>ClientIP\<close> prints.
\<close>

section \<open>Groups of hexadecimal digits\<close>

abbreviation is_hex :: "char \<Rightarrow> bool" where
  "is_hex c \<equiv> hex_value c \<noteq> None"

lemma hex_value_digit:
  assumes "n < 16"
  shows "hex_value (hex_digit n) = Some n"
  using assms by (auto simp: hex_value_def hex_digit_def Let_def byte_char_of)

lemma hex_digits_hex: "c \<in> set (hex_digits n) \<Longrightarrow> is_hex c"
proof (induction n rule: hex_digits.induct)
  case (1 n)
  then show ?case by (subst (asm) hex_digits.simps) (auto simp: hex_value_digit split: if_splits)
qed

lemma hex_digits_number: "hex_number (hex_digits n) = n"
proof (induction n rule: hex_digits.induct)
  case (1 n)
  show ?case
  proof (cases "n < 16")
    case True
    then show ?thesis by (simp add: hex_digits.simps [of n] hex_number_def hex_value_digit)
  next
    case False
    then show ?thesis using 1 by (simp add: hex_digits.simps [of n] hex_number_snoc hex_value_digit)
  qed
qed

lemma hex_digits_length: "n < 16 ^ Suc k \<Longrightarrow> length (hex_digits n) \<le> Suc k"
proof (induction k arbitrary: n)
  case (Suc k)
  show ?case
  proof (cases "n < 16")
    case False
    have "n div 16 < 16 ^ Suc k" using Suc.prems by (simp add: div_less_iff_less_mult)
    with Suc.IH [OF this] False show ?thesis by (simp add: hex_digits.simps [of n])
  qed (simp add: hex_digits.simps [of n])
next
  case 0
  then show ?case by (simp add: hex_digits.simps [of n])
qed

lemma hex_digits_nonempty [simp]: "hex_digits n \<noteq> []"
  by (simp add: hex_digits.simps [of n])

lemma hex_digits_group: "n < 65536 \<Longrightarrow> length (hex_digits n) \<le> 4"
  using hex_digits_length [of n 3] by simp

lemma separators_not_hex [simp]: "hex_value CHR '':'' = None" "hex_value CHR ''.'' = None" "hex_value CHR ''%'' = None"
  by code_simp+

lemma take_group:
  assumes "s = [] \<or> \<not> is_hex (hd s)"
  shows "takeWhile is_hex (hex_digits n @ s) = hex_digits n" and "dropWhile is_hex (hex_digits n @ s) = s"
proof -
  have all: "\<forall>c \<in> set (hex_digits n). is_hex c" using hex_digits_hex by blast
  have none: "takeWhile is_hex s = []" "dropWhile is_hex s = s" using assms by (cases s; auto)+
  show "takeWhile is_hex (hex_digits n @ s) = hex_digits n"
    using all none by (simp add: takeWhile_append2)
  show "dropWhile is_hex (hex_digits n @ s) = s"
    using all none by (simp add: dropWhile_append2)
qed

section \<open>Reading groups\<close>

lemma v6_groups_hex:
  assumes "length hs < 8" and "h < 65536" and "s = [] \<or> \<not> is_hex (hd s)"
  shows "v6_groups hs ell (hex_digits h @ s) =
    (case s of
       [] \<Rightarrow> Some (hs @ [h], ell, [])
     | c # r \<Rightarrow>
         if c = CHR ''.'' then
           (if ell = None \<and> length hs \<noteq> 6 \<or> length hs > 6 then None
            else case parse_v4 (hex_digits h @ s) of
              None \<Rightarrow> None
            | Some n \<Rightarrow> Some (hs @ [n div 65536, n mod 65536], ell, []))
         else if c \<noteq> CHR '':'' \<or> r = [] then None
         else if hd r = CHR '':'' then
           (if ell \<noteq> None then None
            else if tl r = [] then Some (hs @ [h], Some (length (hs @ [h])), [])
            else v6_groups (hs @ [h]) (Some (length (hs @ [h]))) (tl r))
         else v6_groups (hs @ [h]) ell r)"
proof -
  have "\<not> 8 \<le> length hs" "\<not> (hex_digits h = [] \<or> 4 < length (hex_digits h))"
    using assms(1) hex_digits_group [OF assms(2)] by auto
  then show ?thesis
    unfolding v6_groups.simps [of hs ell "hex_digits h @ s"] Let_def take_group [OF assms(3)] hex_digits_number by (simp only: if_False)
qed

lemma v6_groups_last:
  assumes "length hs < 8" and "h < 65536"
  shows "v6_groups hs ell (hex_digits h) = Some (hs @ [h], ell, [])"
  using v6_groups_hex [OF assms, of "[]"] by simp

lemma v6_groups_colon:
  assumes "length hs < 8" and "h < 65536" and "r \<noteq> []" and "hd r \<noteq> CHR '':''"
  shows "v6_groups hs ell (hex_digits h @ '':'' @ r) = v6_groups (hs @ [h]) ell r"
  using v6_groups_hex [OF assms(1,2), of "'':'' @ r"] assms(3,4) by simp

lemma v6_groups_ellipsis:
  assumes "length hs < 8" and "h < 65536"
  shows "v6_groups hs None (hex_digits h @ ''::'' @ r) =
    (if r = [] then Some (hs @ [h], Some (Suc (length hs)), []) else v6_groups (hs @ [h]) (Some (Suc (length hs))) r)"
  using v6_groups_hex [OF assms, of "''::'' @ r"] by simp

definition group_text :: "nat list \<Rightarrow> string" where
  "group_text gs = join_with '':'' (map hex_digits gs)"

lemma group_text_simps:
  "group_text [] = []" "group_text [g] = hex_digits g"
  "gs \<noteq> [] \<Longrightarrow> group_text (g # gs) = hex_digits g @ '':'' @ group_text gs"
  by (simp_all add: group_text_def neq_Nil_conv) auto

lemma group_text_hd:
  assumes "gs \<noteq> []"
  shows "group_text gs \<noteq> []" and "is_hex (hd (group_text gs))"
proof -
  obtain g gs' where "gs = g # gs'" using assms by (cases gs) auto
  then obtain r where r: "group_text gs = hex_digits g @ r" by (cases gs') (auto simp: group_text_def)
  then show "group_text gs \<noteq> []" by simp
  show "is_hex (hd (group_text gs))" unfolding r using hex_digits_hex [of "hd (hex_digits g)" g] by (simp add: hd_in_set)
qed

lemma group_text_chars: "c \<in> set (group_text gs) \<Longrightarrow> is_hex c \<or> c = CHR '':''"
proof (induction gs)
  case (Cons g gs)
  then show ?case by (cases "gs = []") (auto simp: group_text_simps dest: hex_digits_hex)
qed (simp add: group_text_simps)

lemma not_colon: "is_hex c \<Longrightarrow> c \<noteq> CHR '':''" by auto

lemma v6_groups_text:
  "gs \<noteq> [] \<Longrightarrow> length hs + length gs \<le> 8 \<Longrightarrow> \<forall>g \<in> set gs. g < 65536 \<Longrightarrow>
    v6_groups hs ell (group_text gs) = Some (hs @ gs, ell, [])"
proof (induction gs arbitrary: hs)
  case (Cons g gs)
  show ?case
  proof (cases "gs = []")
    case True
    with Cons.prems show ?thesis by (simp add: group_text_simps v6_groups_last)
  next
    case False
    have "v6_groups hs ell (group_text (g # gs)) = v6_groups (hs @ [g]) ell (group_text gs)"
      using Cons.prems group_text_hd [OF False] not_colon
      by (simp add: group_text_simps False v6_groups_colon [simplified])
    with Cons.IH [OF False, of "hs @ [g]"] Cons.prems show ?thesis by simp
  qed
qed simp

lemma v6_groups_text_ellipsis:
  "gs \<noteq> [] \<Longrightarrow> length hs + length gs + length ts < 8 \<Longrightarrow> \<forall>g \<in> set (gs @ ts). g < 65536 \<Longrightarrow>
    v6_groups hs None (group_text gs @ ''::'' @ group_text ts) = Some (hs @ gs @ ts, Some (length hs + length gs), [])"
proof (induction gs arbitrary: hs)
  case (Cons g gs)
  show ?case
  proof (cases "gs = []")
    case True
    have ell: "v6_groups hs None (group_text [g] @ ''::'' @ group_text ts) =
        (if group_text ts = [] then Some (hs @ [g], Some (Suc (length hs)), [])
         else v6_groups (hs @ [g]) (Some (Suc (length hs))) (group_text ts))"
      using v6_groups_ellipsis [of hs g "group_text ts"] Cons.prems by (simp add: group_text_simps)
    show ?thesis
    proof (cases "ts = []")
      case True
      with ell \<open>gs = []\<close> show ?thesis by (simp add: group_text_simps)
    next
      case False
      with ell \<open>gs = []\<close> group_text_hd(1) [OF False] v6_groups_text [OF False, of "hs @ [g]"] Cons.prems show ?thesis by simp
    qed
  next
    case False
    let ?r = "group_text gs @ ''::'' @ group_text ts"
    have r: "?r \<noteq> []" "hd ?r \<noteq> CHR '':''" using group_text_hd [OF False] not_colon by auto
    have "v6_groups hs None (group_text (g # gs) @ ''::'' @ group_text ts) = v6_groups (hs @ [g]) None ?r"
      using v6_groups_colon [OF _ _ r, of hs g None] Cons.prems by (simp add: group_text_simps False)
    with Cons.IH [OF False, of "hs @ [g]"] Cons.prems show ?thesis by simp
  qed
qed simp

section \<open>The run of zeros that is left out\<close>

definition zero_span :: "nat list \<Rightarrow> nat \<times> nat \<Rightarrow> bool" where
  "zero_span hs se \<longleftrightarrow> (case se of (s, e) \<Rightarrow> s + 2 \<le> e \<and> e \<le> length hs \<and> (\<forall>i. s \<le> i \<and> i < e \<longrightarrow> hs ! i = 0))"

lemma zeros_from_span:
  assumes "2 \<le> zeros_from hs i"
  shows "zero_span hs (i, i + zeros_from hs i)"
proof -
  let ?z = "takeWhile (\<lambda>h. h = 0) (drop i hs)"
  have len: "length ?z \<le> length hs - i" by (metis length_drop length_takeWhile_le)
  have "hs ! j = 0" if "i \<le> j" "j < i + length ?z" for j
  proof -
    have j: "j - i < length ?z" using that by simp
    then have "?z ! (j - i) = 0" using nth_mem set_takeWhileD by fastforce
    moreover have "?z ! (j - i) = drop i hs ! (j - i)" using j by (rule takeWhile_nth)
    ultimately show ?thesis using that len by simp
  qed
  then show ?thesis using assms len by (auto simp: zero_span_def zeros_from_def)
qed

lemma zero_run_span: "zero_run hs = Some se \<Longrightarrow> zero_span hs se"
proof -
  let ?f = "\<lambda>best i. let l = zeros_from hs i in
    if l \<ge> 2 \<and> (case best of None \<Rightarrow> True | Some (s, e) \<Rightarrow> l > e - s) then Some (i, i + l) else best"
  have "foldl ?f b is = Some se \<Longrightarrow> \<forall>x. b = Some x \<longrightarrow> zero_span hs x \<Longrightarrow> zero_span hs se" for b "is"
  proof (induction "is" arbitrary: b)
    case (Cons i "is")
    have "\<forall>x. ?f b i = Some x \<longrightarrow> zero_span hs x"
      using Cons.prems(2) zeros_from_span [of hs i] by (auto simp: Let_def)
    with Cons show ?case by simp
  qed simp
  then show "zero_run hs = Some se \<Longrightarrow> zero_span hs se" by (simp add: zero_run_def)
qed

lemma zero_span_split:
  assumes "zero_span hs (s, e)"
  shows "take s hs @ replicate (e - s) 0 @ drop e hs = hs"
proof -
  have "take (e - s) (drop s hs) = replicate (e - s) 0"
    using assms by (intro nth_equalityI) (auto simp: zero_span_def)
  moreover have "hs = take s hs @ take (e - s) (drop s hs) @ drop (e - s) (drop s hs)"
    by (metis append_take_drop_id)
  moreover have "drop (e - s) (drop s hs) = drop e hs" using assms by (simp add: zero_span_def)
  ultimately show ?thesis by metis
qed

section \<open>Printed addresses are read back\<close>

text \<open>The text of an address without its zone, and how it begins.\<close>

definition v6_text :: "nat list \<Rightarrow> string" where
  "v6_text hs = (if take 6 hs = [0, 0, 0, 0, 0, 65535] then ''::ffff:'' @ v4_string (hs ! 6 * 65536 + hs ! 7) else v6_string hs)"

lemma addr_string_v6: "addr_string (V6 hs z) = v6_text hs @ (if z = [] then [] else ''%'' @ z)"
  by (simp add: addr_string_def v6_text_def)

lemma digits_hex: "c \<in> set (digits n) \<Longrightarrow> is_hex c"
  using digits_digit [of n] by (auto simp: list_all_iff digit_def hex_value_def Let_def)

lemma digits_length: "n < 10 ^ Suc k \<Longrightarrow> length (digits n) \<le> Suc k"
proof (induction k arbitrary: n)
  case 0
  then show ?case by (simp add: digits.simps [of n])
next
  case (Suc k)
  have "n div 10 < 10 ^ Suc k" using Suc.prems by (simp add: div_less_iff_less_mult)
  from Suc.IH [OF this] show ?case by (simp add: digits.simps [of n])
qed

lemma v4_string_chars: "c \<in> set (v4_string n) \<Longrightarrow> is_hex c \<or> c = CHR ''.''"
  by (auto simp: v4_string_def dest: digits_hex)

lemma v6_text_chars: "c \<in> set (v6_text hs) \<Longrightarrow> c \<noteq> CHR ''%''"
  by (auto simp: v6_text_def v6_string_def group_text_def [symmetric] dest!: v4_string_chars group_text_chars
    split: if_splits option.splits prod.splits)

text \<open>The groups of the text, as \<^verbatim>\<open>parse_v6\<close> puts them together.\<close>

definition v6_of_text :: "string \<Rightarrow> nat list option" where
  "v6_of_text s =
     (let start = (if take 2 s = ''::'' then Some 0 else None); body = (if take 2 s = ''::'' then drop 2 s else s) in
      if start = Some 0 \<and> body = [] then Some (replicate 8 0)
      else case v6_groups [] start body of
        None \<Rightarrow> None
      | Some (hs, ell, rest) \<Rightarrow>
          if rest \<noteq> [] then None
          else if length hs < 8 then (case ell of None \<Rightarrow> None | Some k \<Rightarrow> Some (take k hs @ replicate (8 - length hs) 0 @ drop k hs))
          else if ell \<noteq> None then None
          else Some hs)"

lemma parse_v6_text:
  assumes "CHR ''%'' \<notin> set s"
  shows "parse_v6 (s @ (if z = [] then [] else ''%'' @ z)) = map_option (\<lambda>hs. V6 hs z) (v6_of_text s)"
proof -
  have all: "\<forall>c \<in> set s. c \<noteq> CHR ''%''" using assms by auto
  have tw: "takeWhile (\<lambda>c. c \<noteq> CHR ''%'') (s @ (if z = [] then [] else ''%'' @ z)) = s"
    using all by (simp add: takeWhile_append2)
  show ?thesis
    unfolding parse_v6_def Let_def tw v6_of_text_def
    using assms by (auto split: option.splits prod.splits)
qed

lemma v4_starts: "\<exists>h r. v4_string n = digits h @ CHR ''.'' # r \<and> h = n div 16777216"
  by (simp add: v4_string_def)

lemma v6_of_text_mapped:
  assumes "n < 2 ^ 32"
  shows "v6_of_text (''::ffff:'' @ v4_string n) = Some [0, 0, 0, 0, 0, 65535, n div 65536, n mod 65536]"
proof -
  have "hex_digit 15 = CHR ''f''" by code_simp
  then have ff: "hex_digits 65535 = ''ffff''"
    by (simp add: hex_digits.simps [of 65535] hex_digits.simps [of 4095] hex_digits.simps [of 255] hex_digits.simps [of 15])
  obtain r where v: "v4_string n = digits (n div 16777216) @ CHR ''.'' # r" using v4_starts [of n] by blast
  let ?d = "digits (n div 16777216)"
  have d: "?d \<noteq> []" "\<forall>c \<in> set ?d. is_hex c" using digits_hex by (auto simp: digits_nonempty)
  have first: "v4_string n \<noteq> []" "hd (v4_string n) \<noteq> CHR '':''"
    using d not_colon [of "hd ?d"] by (auto simp: v hd_in_set)
  have "n div 16777216 < 256" using assms by (simp add: div_less_iff_less_mult)
  then have len: "length ?d \<le> 4" using digits_length [of "n div 16777216" 2] by simp
  have tw: "takeWhile is_hex (v4_string n) = ?d" "dropWhile is_hex (v4_string n) = CHR ''.'' # r"
    using d(2) by (simp_all add: v takeWhile_append2 dropWhile_append2)
  have "v6_groups [65535] (Some 0) (v4_string n) = Some ([65535, n div 65536, n mod 65536], Some 0, [])"
    unfolding v6_groups.simps [of "[65535]" "Some 0" "v4_string n"] Let_def tw
    using d(1) len parse_v4_string [OF assms] by simp
  then have "v6_groups [] (Some 0) (''ffff:'' @ v4_string n) = Some ([65535, n div 65536, n mod 65536], Some 0, [])"
    using v6_groups_colon [of "[]" 65535 "v4_string n" "Some 0"] first unfolding ff by simp
  moreover have "replicate 5 (0 :: nat) = [0, 0, 0, 0, 0]" by (simp add: numeral_eq_Suc)
  ultimately show ?thesis by (simp add: v6_of_text_def)
qed

lemma group_text_no_ellipsis: "gs \<noteq> [] \<Longrightarrow> take 2 (group_text gs @ r) \<noteq> ''::''"
  using group_text_hd [of gs] not_colon by (cases "group_text gs") auto

lemma v6_of_text_groups:
  assumes "length hs = 8" and "\<forall>h \<in> set hs. h < 65536"
  shows "v6_of_text (v6_string hs) = Some hs"
proof (cases "zero_run hs")
  case None
  then have t: "v6_string hs = group_text hs" by (simp add: v6_string_def group_text_def)
  have ne: "hs \<noteq> []" using assms(1) by auto
  have "v6_groups [] None (group_text hs) = Some (hs, None, [])" using v6_groups_text [OF ne, of "[]"] assms by simp
  then show ?thesis using group_text_no_ellipsis [OF ne, of "[]"] assms(1) by (simp add: t v6_of_text_def)
next
  case (Some se)
  obtain s e where se: "se = (s, e)" by (cases se) auto
  have sp: "zero_span hs (s, e)" using zero_run_span [OF Some] se by simp
  then have b: "s + 2 \<le> e" "e \<le> 8" using assms(1) by (auto simp: zero_span_def)
  have t: "v6_string hs = group_text (take s hs) @ ''::'' @ group_text (drop e hs)"
    using Some se by (simp add: v6_string_def group_text_def)
  have small: "\<forall>g \<in> set (take s hs @ drop e hs). g < 65536"
    using assms(2) by (auto dest: in_set_takeD in_set_dropD)
  have whole: "take s hs @ replicate (e - s) 0 @ drop e hs = hs" using zero_span_split [OF sp] .
  have len: "8 - (s + (8 - e)) = e - s" "length (take s hs @ drop e hs) = s + (8 - e)" "length (take s hs) = s"
    using b assms(1) by auto
  show ?thesis
  proof (cases "s = 0")
    case True
    show ?thesis
    proof (cases "drop e hs = []")
      case True
      then have "e = 8" using assms(1) b by simp
      with whole \<open>s = 0\<close> True show ?thesis by (simp add: t v6_of_text_def group_text_simps)
    next
      case False
      have "v6_groups [] (Some 0) (group_text (drop e hs)) = Some (drop e hs, Some 0, [])"
        using v6_groups_text [OF False, of "[]" "Some 0"] small assms(1) by simp
      then show ?thesis
        using False group_text_hd(1) [OF False] whole \<open>s = 0\<close> b assms(1) by (simp add: t v6_of_text_def group_text_simps)
    qed
  next
    case False
    then have ne: "take s hs \<noteq> []" using b assms(1) by auto
    have "v6_groups [] None (v6_string hs) = Some (take s hs @ drop e hs, Some s, [])"
      using v6_groups_text_ellipsis [OF ne, of "[]" "drop e hs"] small len(3) b assms(1) by (simp add: t)
    moreover have "take 2 (v6_string hs) \<noteq> ''::''" unfolding t by (rule group_text_no_ellipsis [OF ne])
    ultimately show ?thesis using whole len b assms(1) by (simp add: v6_of_text_def)
  qed
qed

lemma mapped_groups:
  fixes hs :: "nat list"
  assumes "length hs = 8" and "\<forall>h \<in> set hs. h < 65536" and "take 6 hs = [0, 0, 0, 0, 0, 65535]"
  shows "[0, 0, 0, 0, 0, 65535, (hs ! 6 * 65536 + hs ! 7) div 65536, (hs ! 6 * 65536 + hs ! 7) mod 65536] = hs"
    and "hs ! 6 * 65536 + hs ! 7 < 2 ^ 32"
proof -
  have "length (drop 6 hs) = Suc (Suc 0)" using assms(1) by simp
  then obtain a b where "drop 6 hs = [a, b]" by (metis length_0_conv length_Suc_conv)
  then have hs: "hs = [0, 0, 0, 0, 0, 65535, a, b]"
    using assms(3) append_take_drop_id [of 6 hs] by simp
  with assms(2) show "[0, 0, 0, 0, 0, 65535, (hs ! 6 * 65536 + hs ! 7) div 65536, (hs ! 6 * 65536 + hs ! 7) mod 65536] = hs"
    "hs ! 6 * 65536 + hs ! 7 < 2 ^ 32" by auto
qed

lemma v6_of_text_v6_text:
  assumes "length hs = 8" and "\<forall>h \<in> set hs. h < 65536"
  shows "v6_of_text (v6_text hs) = Some hs"
proof (cases "take 6 hs = [0, 0, 0, 0, 0, 65535]")
  case True
  note m = mapped_groups [OF assms True]
  show ?thesis unfolding v6_text_def if_P [OF True] v6_of_text_mapped [OF m(2)] m(1) ..
next
  case False
  then show ?thesis using v6_of_text_groups [OF assms] by (simp add: v6_text_def)
qed

text \<open>A colon is the first of the characters that tell the families apart.\<close>

lemma v6_text_colon:
  assumes "length hs = 8"
  shows "find (\<lambda>c. c \<in> {CHR ''.'', CHR '':'', CHR ''%''}) (v6_text hs @ r) = Some CHR '':''"
proof -
  define p where "p = (\<lambda>c. c \<in> {CHR ''.'', CHR '':'', CHR ''%''})"
  have none: "find p (hex_digits g) = None" for g
    using hex_digits_hex [of _ g] by (fastforce simp: find_None_iff p_def)
  have colon: "p CHR '':''" by (simp add: p_def)
  have groups: "find p (group_text gs @ CHR '':'' # t) = Some CHR '':''" for gs t
  proof (cases gs)
    case (Cons g gs')
    then show ?thesis
      by (cases "gs' = []") (simp_all add: group_text_simps find_append none colon)
  qed (simp add: group_text_simps colon)
  show ?thesis
    unfolding p_def [symmetric]
  proof (cases "zero_run hs")
    case None
    obtain g gs where hs: "hs = g # gs" using assms by (cases hs) auto
    moreover from this have "gs \<noteq> []" using assms by auto
    moreover have "v6_string hs = group_text hs" using None by (simp add: v6_string_def group_text_def)
    ultimately have "v6_string hs = hex_digits g @ CHR '':'' # group_text gs" by (simp add: group_text_simps)
    then show "find p (v6_text hs @ r) = Some CHR '':''" by (simp add: v6_text_def find_append none colon)
  next
    case (Some se)
    then obtain s e where "v6_string hs = group_text (take s hs) @ CHR '':'' # CHR '':'' # group_text (drop e hs)"
      by (cases se) (simp add: v6_string_def group_text_def)
    then show "find p (v6_text hs @ r) = Some CHR '':''" using groups [of "take s hs"] colon by (simp add: v6_text_def)
  qed
qed

lemma parse_addr_string:
  assumes "addr_ok a"
  shows "parse_addr (addr_string a) = Some a"
proof (cases a)
  case (V4 n)
  then show ?thesis using assms parse_addr_v4 by simp
next
  case (V6 hs z)
  then have hs: "length hs = 8" "\<forall>h \<in> set hs. h < 65536" using assms by auto
  have "CHR ''%'' \<notin> set (v6_text hs)" using v6_text_chars by blast
  from parse_v6_text [OF this, of z] have "parse_v6 (addr_string a) = Some a"
    by (simp only: V6 addr_string_v6 v6_of_text_v6_text [OF hs] option.map)
  moreover have "parse_addr (addr_string a) = parse_v6 (addr_string a)"
    unfolding V6 addr_string_v6 parse_addr_def v6_text_colon [OF hs(1)] by simp
  ultimately show ?thesis by simp
qed

section \<open>Properties\<close>

text \<open>
  C39. \<^verbatim>\<open>ClientAddr\<close> agrees with \<^verbatim>\<open>ClientIP\<close>: it knows the client's address exactly when the peer's is known, whatever the
  metadata and whichever proxies are trusted; the address, of either family and with its zone, is the one whose text \<^verbatim>\<open>ClientIP\<close> gives, never a mapped
  IPv4 address, and two different addresses have different texts, so that limits by text are limits by address.
\<close>

theorem client_addr_roundtrip:
  "(ClientAddr c t = None \<longleftrightarrow> peerAddr c = None) \<and>
   (\<forall>a. ClientAddr c t = Some a \<longrightarrow> addr_string a = ClientIP c t \<and> unmap a = a \<and> addr_ok a) \<and>
   (\<forall>a c' a'. ClientAddr c t = Some a \<longrightarrow> ClientAddr c' t = Some a' \<longrightarrow> (ClientIP c t = ClientIP c' t \<longleftrightarrow> a = a'))"
proof -
  have from_peer: "\<exists>x. addr_ok x \<and> unmap x = x \<and> ClientIP c t = addr_string x" if "peerAddr c = Some a" for c a
  proof -
    have "unmap a = a" using that by (auto simp: peerAddr_def split: option.splits)
    moreover have "addr_ok (unmap hop)" if "first_untrusted t ps = Some hop" for ps hop
      using first_untrusted_Some [OF that] parse_addr_ok unmap_ok by blast
    ultimately show ?thesis
      using that peerAddr_ok [OF that] unmap_idem by (fastforce simp: ClientIP_def Let_def split: option.splits)
  qed
  have known: "\<exists>x. ClientAddr c t = Some x \<and> addr_ok x \<and> unmap x = x \<and> ClientIP c t = addr_string x" if "peerAddr c = Some a" for c a
    using from_peer [OF that] parse_addr_string addr_string_nonempty by (fastforce simp: ClientAddr_def Let_def)
  have unknown: "ClientAddr c t = None" if "peerAddr c = None" for c
    using that ClientIP_unknown [of c t] by (simp add: ClientAddr_def)
  have each: "addr_string a = ClientIP c t \<and> unmap a = a \<and> addr_ok a" if "ClientAddr c t = Some a" for c a
    using known [of c] unknown [of c] that by (cases "peerAddr c") fastforce+
  have "ClientAddr c t = None \<longleftrightarrow> peerAddr c = None" using known [of c] unknown [of c] by (cases "peerAddr c") auto
  moreover have "ClientIP c t = ClientIP c' t \<longleftrightarrow> a = a'" if "ClientAddr c t = Some a" "ClientAddr c' t = Some a'" for a c' a'
    using each [OF that(1)] each [OF that(2)] parse_addr_string by (metis option.inject)
  ultimately show ?thesis using each by blast
qed

theorem client_addr_roundtrip_witness:
  "\<exists>a. ClientAddr sample_ctx sample_net = Some a \<and> addr_string a = ClientIP sample_ctx sample_net"
  using client_addr_roundtrip [of sample_ctx sample_net] sample_peer by auto

end
