(* ===== verification/Password.thy ===== *)
theory Password
  imports Apperr Go_Encoding
begin

text \<open>
  The package \<^verbatim>\<open>password\<close>: hashing with Argon2id, the textual form of a hash, and its verification.
  The key derivation of \<^verbatim>\<open>golang.org/x/crypto/argon2\<close> is an argument, with \<open>argon2_documented\<close> as what
  is relied on; so is the semaphore of \<^verbatim>\<open>golang.org/x/sync\<close> that bounds the number of computations.
\<close>

section \<open>The libraries\<close>

record argon2 =
  a2_Version :: int
  a2_IDKey :: "string \<Rightarrow> string \<Rightarrow> nat \<Rightarrow> nat \<Rightarrow> nat \<Rightarrow> nat \<Rightarrow> string"

text \<open>A key has the length that was asked for; the version is a number that an \<^verbatim>\<open>int\<close> holds.\<close>

definition argon2_documented :: "argon2 \<Rightarrow> bool" where
  "argon2_documented lib \<longleftrightarrow>
     0 \<le> a2_Version lib \<and> a2_Version lib < 2 ^ 63 \<and>
     (\<forall>plain salt t m p n. length (a2_IDKey lib plain salt t m p n) = n)"

record 's semaphore =
  sem_Acquire :: "'s \<Rightarrow> goerr option \<times> 's"
  sem_Release :: "'s \<Rightarrow> 's"

text \<open>A failed acquisition takes nothing, and a release gives back what was acquired.\<close>

definition semaphore_documented :: "'s semaphore \<Rightarrow> bool" where
  "semaphore_documented sem \<longleftrightarrow>
     (\<forall>s s' e. sem_Acquire sem s = (Some e, s') \<longrightarrow> s' = s) \<and>
     (\<forall>s s'. sem_Acquire sem s = (None, s') \<longrightarrow> sem_Release sem s' = s)"

section \<open>Parameters\<close>

record Params =
  Memory :: nat
  Iterations :: nat
  Parallelism :: nat
  SaltLength :: nat
  KeyLength :: nat

definition params_fit :: "Params \<Rightarrow> bool" where
  "params_fit p \<longleftrightarrow> Memory p < 2 ^ 32 \<and> Iterations p < 2 ^ 32 \<and> Parallelism p < 2 ^ 8 \<and>
     SaltLength p < 2 ^ 32 \<and> KeyLength p < 2 ^ 32"

definition params_positive :: "Params \<Rightarrow> bool" where
  "params_positive p \<longleftrightarrow> Memory p > 0 \<and> Iterations p > 0 \<and> Parallelism p > 0 \<and> KeyLength p > 0"

text \<open>\<open>cpus\<close> is what \<^verbatim>\<open>runtime.NumCPU\<close> returns.\<close>

definition DefaultParams :: "int \<Rightarrow> Params" where
  "DefaultParams cpus =
     (let n = (if cpus > 4 then 4 else cpus); n = (if n < 1 then 1 else n) in
      \<lparr>Memory = 64 * 1024, Iterations = 3, Parallelism = nat n, SaltLength = 16, KeyLength = 32\<rparr>)"

record Hasher =
  hs_params :: Params
  hs_slots :: int

definition WithMaxConcurrent :: "int \<Rightarrow> Hasher \<Rightarrow> Hasher" where
  "WithMaxConcurrent n h = (if n > 0 then h\<lparr>hs_slots := n\<rparr> else h)"

definition fill_params :: "Params \<Rightarrow> Params \<Rightarrow> Params" where
  "fill_params d p =
     \<lparr>Memory = (if Memory p = 0 then Memory d else Memory p),
      Iterations = (if Iterations p = 0 then Iterations d else Iterations p),
      Parallelism = (if Parallelism p = 0 then Parallelism d else Parallelism p),
      SaltLength = (if SaltLength p = 0 then SaltLength d else SaltLength p),
      KeyLength = (if KeyLength p = 0 then KeyLength d else KeyLength p)\<rparr>"

text \<open>\<open>procs\<close> is what \<^verbatim>\<open>runtime.GOMAXPROCS(0)\<close> returns.\<close>

definition NewHasher :: "int \<Rightarrow> int \<Rightarrow> Params \<Rightarrow> (Hasher \<Rightarrow> Hasher) list \<Rightarrow> Hasher" where
  "NewHasher cpus procs p opts =
     fold (\<lambda>opt h. opt h) opts \<lparr>hs_params = fill_params (DefaultParams cpus) p, hs_slots = max procs 1\<rparr>"

section \<open>Hashing and verifying\<close>

definition acquire :: "'s semaphore \<Rightarrow> 's \<Rightarrow> goerr option \<times> 's" where
  "acquire sem s =
     (case sem_Acquire sem s of
        (Some e, s') \<Rightarrow> (Some (errorf2 (Sentinel ErrBusy) e), s')
      | (None, s') \<Rightarrow> (None, s'))"

definition encode_hash :: "argon2 \<Rightarrow> Params \<Rightarrow> string \<Rightarrow> string \<Rightarrow> string" where
  "encode_hash lib p salt key =
     ''$argon2id$v='' @ itoa (a2_Version lib) @ ''$m='' @ digits (Memory p) @ '',t='' @ digits (Iterations p) @
     '',p='' @ digits (Parallelism p) @ ''$'' @ base64_encode std_alphabet salt @ ''$'' @ base64_encode std_alphabet key"

text \<open>\<open>random\<close> is what \<^verbatim>\<open>rand.Read\<close> does with a buffer of the given length.\<close>

definition hasher_Hash ::
  "argon2 \<Rightarrow> 's semaphore \<Rightarrow> (nat \<Rightarrow> string result) \<Rightarrow> Hasher \<Rightarrow> string \<Rightarrow> 's \<Rightarrow> string result \<times> 's" where
  "hasher_Hash lib sem random h plain s =
     (case acquire sem s of
        (Some e, s') \<Rightarrow> (Inl e, s')
      | (None, s') \<Rightarrow>
          (let p = hs_params h in
           case random (SaltLength p) of
             Inl e \<Rightarrow> Inl (errorf ''password: generate salt: '' e)
           | Inr salt \<Rightarrow>
               Inr (encode_hash lib p salt
                      (a2_IDKey lib plain salt (Iterations p) (Memory p) (Parallelism p) (KeyLength p))),
           sem_Release sem s'))"

definition scan_params :: "string \<Rightarrow> (nat \<times> nat \<times> nat) option" where
  "scan_params s =
     Option.bind (scan_literal ''m='' s) (\<lambda>s.
     Option.bind (scan_uint 32 s) (\<lambda>(m, s).
     Option.bind (scan_literal '',t='' s) (\<lambda>s.
     Option.bind (scan_uint 32 s) (\<lambda>(t, s).
     Option.bind (scan_literal '',p='' s) (\<lambda>s.
     Option.bind (scan_uint 8 s) (\<lambda>(p, s). Some (m, t, p)))))))"

abbreviation invalid_hash :: "'a result" where "invalid_hash \<equiv> Inl (Sentinel ErrInvalidHash)"

definition decode :: "argon2 \<Rightarrow> string \<Rightarrow> (Params \<times> string \<times> string) result" where
  "decode lib encoded =
     (case split_on CHR ''$'' encoded of
        [p0, p1, p2, p3, p4, p5] \<Rightarrow>
          if p0 \<noteq> [] \<or> p1 \<noteq> ''argon2id'' then invalid_hash
          else (case Option.bind (scan_literal ''v='' p2) scan_int of
             None \<Rightarrow> invalid_hash
           | Some (version, _) \<Rightarrow>
               if version \<noteq> a2_Version lib then Inl (Sentinel ErrUnsupportedVersion)
               else (case scan_params p3 of
                  None \<Rightarrow> invalid_hash
                | Some (m, t, p) \<Rightarrow>
                    (case (base64_decode std_alphabet p4, base64_decode std_alphabet p5) of
                       (Some salt, Some key) \<Rightarrow>
                         let ps = \<lparr>Memory = m, Iterations = t, Parallelism = p,
                                   SaltLength = length salt mod 2 ^ 32, KeyLength = length key mod 2 ^ 32\<rparr> in
                         if m = 0 \<or> t = 0 \<or> p = 0 \<or> KeyLength ps = 0 then invalid_hash else Inr (ps, salt, key)
                     | _ \<Rightarrow> invalid_hash)))
      | _ \<Rightarrow> invalid_hash)"

definition password_Verify :: "argon2 \<Rightarrow> string \<Rightarrow> string \<Rightarrow> goerr option" where
  "password_Verify lib plain encoded =
     (case decode lib encoded of
        Inl e \<Rightarrow> Some e
      | Inr (p, salt, want) \<Rightarrow>
          if a2_IDKey lib plain salt (Iterations p) (Memory p) (Parallelism p) (KeyLength p) \<noteq> want
          then Some (Sentinel ErrMismatch) else None)"

definition hasher_Verify :: "argon2 \<Rightarrow> 's semaphore \<Rightarrow> string \<Rightarrow> string \<Rightarrow> 's \<Rightarrow> goerr option \<times> 's" where
  "hasher_Verify lib sem plain encoded s =
     (case acquire sem s of
        (Some e, s') \<Rightarrow> (Some e, s')
      | (None, s') \<Rightarrow> (password_Verify lib plain encoded, sem_Release sem s'))"

definition NeedsRehash :: "argon2 \<Rightarrow> Hasher \<Rightarrow> string \<Rightarrow> bool result" where
  "NeedsRehash lib h encoded =
     (case decode lib encoded of
        Inl e \<Rightarrow> Inl e
      | Inr (p, _, _) \<Rightarrow>
          Inr (Memory p < Memory (hs_params h) \<or> Iterations p < Iterations (hs_params h) \<or>
               KeyLength p < KeyLength (hs_params h)))"

text \<open>The function of the package makes a hasher of its own, with a semaphore of its own.\<close>

definition password_Hash ::
  "argon2 \<Rightarrow> 's semaphore \<Rightarrow> (nat \<Rightarrow> string result) \<Rightarrow> int \<Rightarrow> int \<Rightarrow> 's \<Rightarrow> string \<Rightarrow> string result" where
  "password_Hash lib sem random cpus procs fresh plain =
     fst (hasher_Hash lib sem random (NewHasher cpus procs (DefaultParams cpus) []) plain fresh)"

section \<open>Hashers are usable\<close>

lemma DefaultParams_ok: "params_fit (DefaultParams cpus) \<and> params_positive (DefaultParams cpus)"
  by (auto simp: params_fit_def params_positive_def DefaultParams_def Let_def)

definition keeps_params :: "(Hasher \<Rightarrow> Hasher) list \<Rightarrow> bool" where
  "keeps_params opts \<longleftrightarrow> (\<forall>opt \<in> set opts. \<forall>h. hs_params (opt h) = hs_params h)"

lemma WithMaxConcurrent_keeps: "keeps_params (map WithMaxConcurrent ns)"
  by (auto simp: keeps_params_def WithMaxConcurrent_def)

lemma NewHasher_params:
  assumes "keeps_params opts"
  shows "hs_params (NewHasher cpus procs p opts) = fill_params (DefaultParams cpus) p"
proof -
  have "hs_params (fold (\<lambda>opt h. opt h) opts h) = hs_params h" for h
    using assms by (induction opts arbitrary: h) (auto simp: keeps_params_def)
  then show ?thesis by (simp add: NewHasher_def)
qed

lemma NewHasher_ok:
  "params_fit p \<Longrightarrow> keeps_params opts \<Longrightarrow>
    params_fit (hs_params (NewHasher cpus procs p opts)) \<and> params_positive (hs_params (NewHasher cpus procs p opts))"
  using DefaultParams_ok [of cpus] by (auto simp: NewHasher_params params_fit_def params_positive_def fill_params_def)

section \<open>Hashes are read back\<close>

lemma scan_params_encoded:
  assumes "params_fit p"
  shows "scan_params (''m='' @ digits (Memory p) @ '',t='' @ digits (Iterations p) @ '',p='' @ digits (Parallelism p)) =
    Some (Memory p, Iterations p, Parallelism p)"
proof -
  have comma: "'',t='' @ s = [] \<or> \<not> digit (hd ('',t='' @ s))" "'',p='' @ s = [] \<or> \<not> digit (hd ('',p='' @ s))" for s
    by (auto simp: digit_def)
  have "Memory p < 2 ^ 32" "Iterations p < 2 ^ 32" "Parallelism p < 2 ^ 8" using assms by (auto simp: params_fit_def)
  then show ?thesis
    using scan_uint_digits [OF _ comma(1), of "Memory p" 32] scan_uint_digits [OF _ comma(2), of "Iterations p" 32]
      scan_uint_digits [of "Parallelism p" 8 "[]"]
    by (simp add: scan_params_def scan_literal_append del: append.simps)
qed

lemma no_dollar: "CHR ''$'' \<notin> set (digits n)" "CHR ''$'' \<notin> set (base64_encode std_alphabet s)"
  "0 \<le> v \<Longrightarrow> CHR ''$'' \<notin> set (itoa v)"
proof -
  show "CHR ''$'' \<notin> set (digits n)" for n by (rule digits_no) (simp add: digit_def)
  then show "0 \<le> v \<Longrightarrow> CHR ''$'' \<notin> set (itoa v)" by (simp add: itoa_def)
  show "CHR ''$'' \<notin> set (base64_encode std_alphabet s)"
    using std_base64.sextets_letters [of s] by (auto simp: std_alphabet_def)
qed

lemma decode_encode_hash:
  assumes lib: "argon2_documented lib" and p: "params_fit p" "params_positive p"
    and len: "length key = KeyLength p" "length salt < 2 ^ 32"
  shows "decode lib (encode_hash lib p salt key) = Inr (p\<lparr>SaltLength := length salt\<rparr>, salt, key)"
proof -
  let ?v = "a2_Version lib"
  have v: "0 \<le> ?v" "nat ?v < 2 ^ 63" using lib by (auto simp: argon2_documented_def nat_less_iff)
  let ?ver = "''v='' @ itoa ?v" and ?salt = "base64_encode std_alphabet salt" and ?key = "base64_encode std_alphabet key"
  let ?par = "''m='' @ digits (Memory p) @ '',t='' @ digits (Iterations p) @ '',p='' @ digits (Parallelism p)"
  have "encode_hash lib p salt key = [] @ CHR ''$'' # ''argon2id'' @ CHR ''$'' # ?ver @ CHR ''$'' # ?par @
      CHR ''$'' # ?salt @ CHR ''$'' # ?key" by (simp add: encode_hash_def)
  moreover have "CHR ''$'' \<notin> set []" "CHR ''$'' \<notin> set ''argon2id''" "CHR ''$'' \<notin> set ?ver" "CHR ''$'' \<notin> set ?par"
    "CHR ''$'' \<notin> set ?salt" "CHR ''$'' \<notin> set ?key" using no_dollar v(1) by auto
  ultimately have split: "split_on CHR ''$'' (encode_hash lib p salt key) = [[], ''argon2id'', ?ver, ?par, ?salt, ?key]"
    by (simp only: split_on_sep split_on_no_sep not_False_eq_True)
  have version: "Option.bind (scan_literal ''v='' (''v='' @ itoa ?v)) scan_int = Some (?v, [])"
    using scan_int_digits [OF v(2), of "[]"] v(1) by (simp add: scan_literal_def itoa_def)
  show ?thesis
    using p len by (simp only: decode_def split list.case version)
      (simp add: scan_params_encoded [OF p(1), simplified] std_base64.base64_decode_of_encode params_fit_def params_positive_def)
qed

lemma scan_uint_bound: "scan_uint w s = Some (n, r) \<Longrightarrow> n < 2 ^ w"
  by (auto simp: scan_uint_def Let_def split: option.splits if_splits)

lemma scan_params_bound: "scan_params s = Some (m, t, p) \<Longrightarrow> m < 2 ^ 32 \<and> t < 2 ^ 32 \<and> p < 2 ^ 8"
  by (auto simp: scan_params_def bind_eq_Some_conv dest!: scan_uint_bound)

lemma hasher_Hash_success:
  assumes "argon2_documented lib" "semaphore_documented sem" "sem_Acquire sem s = (None, s1)"
    and "random (SaltLength (hs_params h)) = Inr salt"
  shows "hasher_Hash lib sem random h plain s =
    (Inr (encode_hash lib (hs_params h) salt (a2_IDKey lib plain salt (Iterations (hs_params h)) (Memory (hs_params h))
       (Parallelism (hs_params h)) (KeyLength (hs_params h)))), s)"
  using assms by (simp add: hasher_Hash_def acquire_def semaphore_documented_def Let_def)

section \<open>Properties\<close>

text \<open>
  C7. What a hasher has hashed is verified: the password is accepted, and any other is refused as a mismatch
  unless the key derivation gives the same key for it; the hasher sees no need to hash it again; and the
  slot it took for the computation is free again.
\<close>

theorem hash_verify_roundtrip:
  assumes "argon2_documented lib" "semaphore_documented sem" "params_fit p" "keeps_params opts"
    and "h = NewHasher cpus procs p opts"
    and "sem_Acquire sem s = (None, s1)" "random (SaltLength (hs_params h)) = Inr salt" "length salt < 2 ^ 32"
  shows "\<exists>encoded. hasher_Hash lib sem random h plain s = (Inr encoded, s) \<and>
    password_Verify lib plain encoded = None \<and>
    (\<forall>other. password_Verify lib other encoded =
       (if a2_IDKey lib other salt (Iterations (hs_params h)) (Memory (hs_params h)) (Parallelism (hs_params h)) (KeyLength (hs_params h)) =
           a2_IDKey lib plain salt (Iterations (hs_params h)) (Memory (hs_params h)) (Parallelism (hs_params h)) (KeyLength (hs_params h))
        then None else Some (Sentinel ErrMismatch))) \<and>
    NeedsRehash lib h encoded = Inr False"
proof -
  let ?p = "hs_params h"
  let ?key = "a2_IDKey lib plain salt (Iterations ?p) (Memory ?p) (Parallelism ?p) (KeyLength ?p)"
  have ok: "params_fit ?p" "params_positive ?p" using NewHasher_ok assms(3,4,5) by auto
  have "length ?key = KeyLength ?p" using assms(1) by (simp add: argon2_documented_def)
  then have "decode lib (encode_hash lib ?p salt ?key) = Inr (?p\<lparr>SaltLength := length salt\<rparr>, salt, ?key)"
    by (rule decode_encode_hash [OF assms(1) ok _ assms(8)])
  then show ?thesis using hasher_Hash_success [where random = random and h = h and salt = salt, OF assms(1,2,6,7), of plain]
    by (simp add: password_Verify_def NeedsRehash_def)
qed

text \<open>A key derivation for evaluation, and a semaphore that counts the slots in use.\<close>

definition sample_argon2 :: argon2 where
  "sample_argon2 = \<lparr>a2_Version = 19, a2_IDKey = (\<lambda>plain salt t m p n. take n (plain @ salt @ replicate n CHR ''0''))\<rparr>"

definition two_slots :: "nat semaphore" where
  "two_slots = \<lparr>sem_Acquire = (\<lambda>s. if s < 2 then (None, Suc s) else (Some (Sentinel ContextCanceled), s)),
                sem_Release = (\<lambda>s. s - 1)\<rparr>"

lemma sample_libraries: "argon2_documented sample_argon2" "semaphore_documented two_slots"
  by (auto simp: argon2_documented_def sample_argon2_def semaphore_documented_def two_slots_def split: if_splits)

definition fast_params :: Params where
  "fast_params = \<lparr>Memory = 8192, Iterations = 1, Parallelism = 1, SaltLength = 4, KeyLength = 8\<rparr>"

theorem hash_verify_roundtrip_witness:
  "\<exists>encoded. hasher_Hash sample_argon2 two_slots (\<lambda>n. Inr ''salt'') (NewHasher 8 8 fast_params [WithMaxConcurrent 2]) ''pw'' 0 =
     (Inr encoded, 0) \<and>
   password_Verify sample_argon2 ''pw'' encoded = None \<and>
   password_Verify sample_argon2 ''px'' encoded = Some (Sentinel ErrMismatch)"
proof -
  have fit: "params_fit fast_params" by (simp add: params_fit_def fast_params_def)
  have keep: "keeps_params [WithMaxConcurrent 2]" using WithMaxConcurrent_keeps [of "[2]"] by simp
  have acq: "sem_Acquire two_slots 0 = (None, 1)" by (simp add: two_slots_def)
  have p: "hs_params (NewHasher 8 8 fast_params [WithMaxConcurrent 2]) = fast_params"
    by (simp add: NewHasher_params [OF keep] fill_params_def fast_params_def)
  show ?thesis
    using hash_verify_roundtrip [OF sample_libraries fit keep refl acq, where random = "\<lambda>n. Inr ''salt''" and salt = "''salt''"
        and cpus = 8 and procs = 8 and plain = "''pw''"]
    by (auto simp: p) (auto simp: fast_params_def sample_argon2_def)
qed



end
