(* ===== verification/Secret.thy ===== *)
theory Secret
  imports Apperr Go_Encoding
begin

text \<open>
  The package \<^verbatim>\<open>secret\<close>: random tokens, their hashes, numeric codes. Random bytes and the SHA-256 digest are
  arguments: \<open>random n\<close> is what \<^verbatim>\<open>rand.Read\<close> does with a buffer of length \<open>n\<close>, \<open>rand_int i\<close> what the \<open>i\<close>-th
  call of \<^verbatim>\<open>rand.Int\<close> returns.
\<close>

definition DefaultTokenBytes :: int where "DefaultTokenBytes = 32"

definition secret_Token :: "(nat \<Rightarrow> string result) \<Rightarrow> int \<Rightarrow> string result" where
  "secret_Token random len =
     (let n = (if len \<le> 0 then DefaultTokenBytes else len) in
      case random (nat n) of
        Inl e \<Rightarrow> Inl (errorf ''secret: read random: '' e)
      | Inr buf \<Rightarrow> Inr (base64_encode url_alphabet buf))"

text \<open>\<^verbatim>\<open>MustToken\<close> panics with the error; \<^const>\<open>Inl\<close> is the panic.\<close>

definition MustToken :: "(nat \<Rightarrow> string result) \<Rightarrow> int \<Rightarrow> string result" where
  "MustToken random len = secret_Token random len"

definition secret_Hash :: "(string \<Rightarrow> string) \<Rightarrow> string \<Rightarrow> string" where
  "secret_Hash sha256 token = hex_encode (sha256 token)"

definition secret_Equal :: "string \<Rightarrow> string \<Rightarrow> bool" where
  "secret_Equal a b \<longleftrightarrow> a = b"

definition Matches :: "(string \<Rightarrow> string) \<Rightarrow> string \<Rightarrow> string \<Rightarrow> bool" where
  "Matches sha256 token hash = secret_Equal (secret_Hash sha256 token) hash"

definition code_digits :: string where "code_digits = ''0123456789''"

fun code_loop :: "(nat \<Rightarrow> nat result) \<Rightarrow> nat \<Rightarrow> nat \<Rightarrow> string result" where
  "code_loop rand_int i 0 = Inr []"
| "code_loop rand_int i (Suc n) =
     (case rand_int i of
        Inl e \<Rightarrow> Inl (errorf ''secret: read random: '' e)
      | Inr k \<Rightarrow> (case code_loop rand_int (Suc i) n of Inl e \<Rightarrow> Inl e | Inr cs \<Rightarrow> Inr (code_digits ! k # cs)))"

definition NumericCode :: "(nat \<Rightarrow> nat result) \<Rightarrow> int \<Rightarrow> string result" where
  "NumericCode rand_int len =
     (if len \<le> 0 then Inl (ErrorString (''secret: code length must be positive, got '' @ itoa len))
      else code_loop rand_int 0 (nat len))"

section \<open>Tokens and codes\<close>

text \<open>Distinct random bytes give distinct tokens, and all of them are recovered from the token.\<close>

lemma token_injective: "base64_encode url_alphabet a = base64_encode url_alphabet b \<Longrightarrow> a = b"
  by (metis url_base64.base64_decode_of_encode option.inject)

lemma hex_digit_inject: "a < 16 \<Longrightarrow> b < 16 \<Longrightarrow> hex_digit a = hex_digit b \<Longrightarrow> a = b"
proof -
  have byte: "byte (hex_digit n) = (if n < 10 then 48 + n else 87 + n)" if "n < 16" for n
    using that by (simp add: hex_digit_def)
  assume ab: "a < 16" "b < 16" and "hex_digit a = hex_digit b"
  then have "(if a < 10 then 48 + a else 87 + a) = (if b < 10 then 48 + b else 87 + b)" by (metis byte)
  then show "a = b" by (simp split: if_splits)
qed

lemma hex_encode_inject: "hex_encode a = hex_encode b \<Longrightarrow> a = b"
proof (induction a arbitrary: b)
  case Nil
  then show ?case by (cases b) (auto simp: hex_encode_def)
next
  case (Cons x a)
  then obtain y b' where b: "b = y # b'" by (cases b) (auto simp: hex_encode_def)
  have small: "byte x div 16 < 16" "byte y div 16 < 16" "byte x mod 16 < 16" "byte y mod 16 < 16"
    by (auto simp: div_less_iff_less_mult)
  have "hex_digit (byte x div 16) = hex_digit (byte y div 16)" "hex_digit (byte x mod 16) = hex_digit (byte y mod 16)"
    and rest: "hex_encode a = hex_encode b'" using Cons.prems b by (auto simp: hex_encode_def)
  then have "byte x div 16 = byte y div 16" "byte x mod 16 = byte y mod 16" using small hex_digit_inject by metis+
  then have "byte x = byte y" by (metis div_mult_mod_eq)
  then have "x = y" by simp
  then show ?case using b Cons.IH [OF rest] by simp
qed

text \<open>A token matches a stored hash exactly when it has the digest of the token the hash was made of.\<close>

lemma matches_iff_same_digest:
  "Matches sha256 token (secret_Hash sha256 stored) \<longleftrightarrow> sha256 token = sha256 stored"
  by (auto simp: Matches_def secret_Equal_def secret_Hash_def dest: hex_encode_inject)

lemma code_loop_digits:
  assumes "\<forall>j k. rand_int j = Inr k \<longrightarrow> k < 10"
  shows "code_loop rand_int i n = Inr cs \<Longrightarrow> length cs = n \<and> list_all digit cs"
proof (induction n arbitrary: i cs)
  case (Suc n)
  then obtain k ds where k: "rand_int i = Inr k" and ds: "code_loop rand_int (Suc i) n = Inr ds" "cs = code_digits ! k # ds"
    by (auto split: sum.splits)
  have "\<forall>c \<in> set code_digits. digit c" by (simp add: code_digits_def digit_def)
  moreover have "length code_digits = 10" by (simp add: code_digits_def)
  moreover have "k < 10" using assms k by blast
  ultimately have "digit (code_digits ! k)" by (metis nth_mem)
  with Suc.IH [OF ds(1)] ds(2) show ?case by simp
qed simp

lemma numeric_code_digits:
  "\<forall>j k. rand_int j = Inr k \<longrightarrow> k < 10 \<Longrightarrow> NumericCode rand_int n = Inr code \<Longrightarrow>
     length code = nat n \<and> 0 < n \<and> list_all digit code"
  using code_loop_digits [of rand_int 0 "nat n" code] by (auto simp: NumericCode_def split: if_splits)

text \<open>
  A token matches a stored hash exactly when it has the digest of the token the hash was made of, and two
  tokens are equal exactly when the random bytes behind them are: nothing of a secret is lost by its encoding.
\<close>

lemma secrets_keep_their_entropy:
  "(Matches sha256 token (secret_Hash sha256 stored) \<longleftrightarrow> sha256 token = sha256 stored) \<and>
   (secret_Token (\<lambda>n. Inr (f n)) len = secret_Token (\<lambda>n. Inr (g n)) len \<longleftrightarrow>
      f (nat (if len \<le> 0 then DefaultTokenBytes else len)) = g (nat (if len \<le> 0 then DefaultTokenBytes else len)))"
  using matches_iff_same_digest token_injective by (auto simp: secret_Token_def Let_def)

end
