(* ===== verification/Image_Upload.thy ===== *)
theory Image_Upload
  imports Apperr
begin

text \<open>
  \<^verbatim>\<open>filestorage/image.go\<close>: an uploaded picture is read, checked, scaled down and encoded anew. The codecs and
  the scaler are arguments, with \<open>codec_documented\<close> as what is relied on; the dimensions are computed here.
\<close>

section \<open>Reading\<close>

text \<open>A reader delivers bytes and then ends, or fails.\<close>

type_synonym reader = "string \<times> goerr option"

definition read_all :: "reader \<Rightarrow> string result" where
  "read_all r = (case snd r of None \<Rightarrow> Inr (fst r) | Some e \<Rightarrow> Inl e)"

text \<open>\<^verbatim>\<open>io.LimitReader\<close>: no more than \<open>n\<close> bytes, then the end; none for a limit that is not positive.\<close>

definition limit_reader :: "reader \<Rightarrow> int \<Rightarrow> reader" where
  "limit_reader r n = (if n \<le> int (length (fst r)) then (take (nat n) (fst r), None) else r)"

section \<open>Normalizing\<close>

definition JPEGContentType :: string where "JPEGContentType = ''image/jpeg''"
definition defaultMaxSide :: int where "defaultMaxSide = 512"
definition defaultQuality :: int where "defaultQuality = 85"
definition maxPixelsLimit :: int where "maxPixelsLimit = 50000000"

record ImageOptions =
  MaxBytes :: int
  MaxSide :: int
  Quality :: int

record 'i codec =
  img_DecodeConfig :: "string \<Rightarrow> (int \<times> int) option"
  img_Decode :: "string \<Rightarrow> 'i option"
  img_Size :: "'i \<Rightarrow> int \<times> int"
  img_Scale :: "int \<times> int \<Rightarrow> 'i \<Rightarrow> 'i"
  jpeg_Encode :: "int \<Rightarrow> 'i \<Rightarrow> string result"

text \<open>
  The decoded picture has the dimensions that its header announces, they are positive and fit 31 bits; a picture
  scaled to given dimensions has them.
\<close>

definition codec_documented :: "'i codec \<Rightarrow> bool" where
  "codec_documented c \<longleftrightarrow>
     (\<forall>raw w h i. img_DecodeConfig c raw = Some (w, h) \<longrightarrow> img_Decode c raw = Some i \<longrightarrow>
        img_Size c i = (w, h) \<and> 0 < w \<and> 0 < h \<and> w < 2 ^ 31 \<and> h < 2 ^ 31) \<and>
     (\<forall>w h i. 0 \<le> w \<longrightarrow> 0 \<le> h \<longrightarrow> img_Size c (img_Scale c (w, h) i) = (w, h))"

definition fit_size :: "int \<Rightarrow> int \<times> int \<Rightarrow> int \<times> int" where
  "fit_size maxSide d =
     (let (width, height) = d in
      if width > height then (maxSide, wrap64 (height * maxSide) sdiv width)
      else (wrap64 (width * maxSide) sdiv height, maxSide))"

definition fit :: "'i codec \<Rightarrow> 'i \<Rightarrow> int \<Rightarrow> 'i" where
  "fit c source maxSide =
     (let (width, height) = img_Size c source in
      if width \<le> maxSide \<and> height \<le> maxSide then source
      else img_Scale c (fit_size maxSide (width, height)) source)"

definition NormalizeImage :: "'i codec \<Rightarrow> reader \<Rightarrow> ImageOptions \<Rightarrow> string result" where
  "NormalizeImage c r opts =
     (let side = (if MaxSide opts \<le> 0 then defaultMaxSide else MaxSide opts);
          quality = (if Quality opts \<le> 0 then defaultQuality else Quality opts);
          source = (if MaxBytes opts > 0 then limit_reader r (wrap64 (MaxBytes opts + 1)) else r) in
      case read_all source of
        Inl e \<Rightarrow> Inl (errorf ''filestorage: read image: '' e)
      | Inr raw \<Rightarrow>
          if MaxBytes opts > 0 \<and> int (length raw) > MaxBytes opts then Inl (Sentinel ErrTooLarge)
          else case img_DecodeConfig c raw of
            None \<Rightarrow> Inl (Sentinel ErrNotAnImage)
          | Some (width, height) \<Rightarrow>
              if wrap64 (width * height) > maxPixelsLimit then Inl (Sentinel ErrTooManyPix)
              else (case img_Decode c raw of
                 None \<Rightarrow> Inl (Sentinel ErrNotAnImage)
               | Some decoded \<Rightarrow>
                   (case jpeg_Encode c quality (fit c decoded side) of
                      Inl e \<Rightarrow> Inl (errorf ''filestorage: encode image: '' e)
                    | Inr out \<Rightarrow> Inr out)))"

section \<open>The new dimensions\<close>

lemma sdiv_nonneg: "0 \<le> a \<Longrightarrow> 0 < b \<Longrightarrow> a sdiv b = a div (b :: int)"
  by (simp add: signed_divide_int_def sgn_if)

lemma product_fits: "0 < w \<Longrightarrow> w < 2 ^ 31 \<Longrightarrow> 0 < m \<Longrightarrow> m < 2 ^ 32 \<Longrightarrow> wrap64 (w * m) = w * (m :: int)"
proof -
  assume "0 < w" "w < 2 ^ 31" "0 < m" "m < 2 ^ 32"
  then have "0 \<le> w * m" "w * m < 2 ^ 31 * 2 ^ 32" using mult_strict_mono [of w "2 ^ 31" m "2 ^ 32"] by auto
  then show ?thesis by (intro wrap64_id) auto
qed

text \<open>
  The longer side becomes the maximum, the shorter one is cut in the same proportion, rounded down; neither is
  longer than before.
\<close>

lemma fit_size_bounds:
  assumes "0 < w" "0 < h" "w < 2 ^ 31" "h < 2 ^ 31" "0 < m" "m < 2 ^ 32" "w > m \<or> h > m" "fit_size m (w, h) = (w', h')"
  shows "0 \<le> w' \<and> 0 \<le> h' \<and> w' \<le> min m w \<and> h' \<le> min m h \<and>
    w' = (if w > h then m else w * m div h) \<and> h' = (if w > h then h * m div w else m)"
proof -
  have short: "a * m div b \<le> m \<and> a * m div b \<le> a \<and> 0 \<le> a * m div b" if "0 < a" "a \<le> b" "m < b" for a b
  proof -
    have "a * m div b \<le> b * m div b" using that assms(5) by (intro zdiv_mono1) auto
    moreover have "a * m div b \<le> a * b div b" using that assms(5) by (intro zdiv_mono1) auto
    ultimately show ?thesis using that assms(5) by (simp add: pos_imp_zdiv_nonneg_iff)
  qed
  show ?thesis
  proof (cases "w > h")
    case True
    then show ?thesis using assms short [of h w] product_fits [of h m]
      by (auto simp: fit_size_def sdiv_nonneg)
  next
    case False
    then show ?thesis using assms short [of w h] product_fits [of w m]
      by (auto simp: fit_size_def sdiv_nonneg)
  qed
qed

lemma fit_bounds:
  assumes "codec_documented c" "img_Size c i = (w, h)" "0 < w" "0 < h" "w < 2 ^ 31" "h < 2 ^ 31" "0 < m"
    and "img_Size c (fit c i m) = (w', h')"
  shows "0 \<le> w' \<and> 0 \<le> h' \<and> w' \<le> min m w \<and> h' \<le> min m h \<and> (w \<le> m \<and> h \<le> m \<longrightarrow> fit c i m = i) \<and>
    (w > m \<or> h > m \<longrightarrow> (w', h') = (if w > h then (m, h * m div w) else (w * m div h, m)))"
proof (cases "w \<le> m \<and> h \<le> m")
  case True
  then have "fit c i m = i" using assms(2) by (simp add: fit_def)
  then show ?thesis using True assms by auto
next
  case False
  obtain a b where ab: "fit_size m (w, h) = (a, b)" by fastforce
  from False assms(5,6) have "m < 2 ^ 32" "w > m \<or> h > m" by auto
  note bounds = fit_size_bounds [OF assms(3-7) this ab]
  have "fit c i m = img_Scale c (a, b) i" using False assms(2) ab by (auto simp: fit_def)
  then have "(w', h') = (a, b)" using assms(1,8) bounds by (simp add: codec_documented_def)
  then show ?thesis using bounds False by auto
qed

lemma read_within_limit:
  assumes "0 < n" "n < 2 ^ 63 - 1" "read_all (limit_reader r (wrap64 (n + 1))) = Inr raw" "int (length raw) \<le> n"
  shows "raw = fst r \<and> snd r = None"
proof -
  have "wrap64 (n + 1) = n + 1" using assms(1,2) by (intro wrap64_id) auto
  then show ?thesis using assms by (auto simp: limit_reader_def read_all_def split: if_splits option.splits)
qed

section \<open>Properties\<close>

text \<open>
  C34. A picture that is accepted was read to its end within the limit of bytes and has no more than fifty million
  pixels; what is encoded is at most \<^verbatim>\<open>MaxSide\<close> wide and high, never larger than the picture, the picture
  itself if it fits, and otherwise of its proportions rounded down.
\<close>

theorem normalized_image_is_bounded:
  assumes "codec_documented c" "NormalizeImage c r opts = Inr out" "MaxBytes opts < 2 ^ 63 - 1"
  shows "\<exists>i w h. img_Decode c (fst r) = Some i \<and> snd r = None \<and> img_Size c i = (w, h) \<and> w * h \<le> maxPixelsLimit \<and>
    (MaxBytes opts > 0 \<longrightarrow> int (length (fst r)) \<le> MaxBytes opts) \<and>
    (let m = (if MaxSide opts \<le> 0 then defaultMaxSide else MaxSide opts);
         q = (if Quality opts \<le> 0 then defaultQuality else Quality opts); (w', h') = img_Size c (fit c i m) in
     jpeg_Encode c q (fit c i m) = Inr out \<and> w' \<le> min m w \<and> h' \<le> min m h \<and>
     (w \<le> m \<and> h \<le> m \<longrightarrow> fit c i m = i) \<and>
     (w > m \<or> h > m \<longrightarrow> (w', h') = (if w > h then (m, h * m div w) else (w * m div h, m))))"
proof -
  let ?m = "if MaxSide opts \<le> 0 then defaultMaxSide else MaxSide opts"
  let ?q = "if Quality opts \<le> 0 then defaultQuality else Quality opts"
  let ?src = "if MaxBytes opts > 0 then limit_reader r (wrap64 (MaxBytes opts + 1)) else r"
  obtain raw w h i where raw: "read_all ?src = Inr raw" "MaxBytes opts > 0 \<longrightarrow> int (length raw) \<le> MaxBytes opts"
    and cfg: "img_DecodeConfig c raw = Some (w, h)" "wrap64 (w * h) \<le> maxPixelsLimit"
    and dec: "img_Decode c raw = Some i" and enc: "jpeg_Encode c ?q (fit c i ?m) = Inr out"
    using assms(2) by (auto simp: NormalizeImage_def Let_def not_less split: sum.splits option.splits if_splits)
  have whole: "raw = fst r \<and> snd r = None"
  proof (cases "MaxBytes opts > 0")
    case True
    then show ?thesis using read_within_limit [OF True assms(3)] raw by auto
  qed (use raw in \<open>auto simp: read_all_def split: option.splits\<close>)
  have size: "img_Size c i = (w, h)" "0 < w" "0 < h" "w < 2 ^ 31" "h < 2 ^ 31"
    using assms(1) cfg(1) dec unfolding codec_documented_def by blast+
  then have px: "w * h \<le> maxPixelsLimit" using cfg(2) product_fits [of w h] by simp
  have m: "0 < ?m" by (simp add: defaultMaxSide_def)
  obtain w' h' where s': "img_Size c (fit c i ?m) = (w', h')" by fastforce
  show ?thesis
    using fit_bounds [OF assms(1) size m s'] whole raw(2) dec size px enc s'
    by (intro exI [of _ i] exI [of _ w] exI [of _ h]) (simp add: Let_def)
qed

text \<open>A codec to which every file is a picture of 1000 by 400.\<close>

definition sample_codec :: "(int \<times> int) codec" where
  "sample_codec = \<lparr>img_DecodeConfig = (\<lambda>s. Some (1000, 400)), img_Decode = (\<lambda>s. Some (1000, 400)), img_Size = id,
     img_Scale = (\<lambda>d i. d), jpeg_Encode = (\<lambda>q i. Inr (digits (nat (fst i)) @ ''x'' @ digits (nat (snd i))))\<rparr>"

theorem normalized_image_is_bounded_witness:
  "\<exists>out. NormalizeImage sample_codec (''file'', None) \<lparr>MaxBytes = 10, MaxSide = 0, Quality = 0\<rparr> = Inr out \<and>
     jpeg_Encode sample_codec 85 (512, 204) = Inr out"
proof -
  let ?opts = "\<lparr>MaxBytes = 10, MaxSide = 0, Quality = 0\<rparr>"
  have doc: "codec_documented sample_codec" by (auto simp: codec_documented_def sample_codec_def)
  have run: "\<exists>out. NormalizeImage sample_codec (''file'', None) ?opts = Inr out"
    by (simp add: NormalizeImage_def read_all_def limit_reader_def sample_codec_def wrap_def maxPixelsLimit_def)
  then obtain out where out: "NormalizeImage sample_codec (''file'', None) ?opts = Inr out" by blast
  have "img_Scale sample_codec d i = d" "img_Size sample_codec i = i" for d i by (simp_all add: sample_codec_def)
  moreover have "img_Decode sample_codec ''file'' = Some (1000, 400)" by (simp add: sample_codec_def)
  ultimately show ?thesis
    using normalized_image_is_bounded [OF doc out] out by (auto simp: defaultMaxSide_def defaultQuality_def)
qed

text \<open>
  A picture more than \<^verbatim>\<open>MaxSide\<close> times as high as it is wide is scaled to one without any pixels.
\<close>

lemma narrow_image_collapses:
  assumes "img_Size c i = (w, h)" "0 < w" "0 < m" "w * m < h" "h < 2 ^ 63"
  shows "fit c i m = img_Scale c (0, m) i"
proof -
  have p: "m \<le> w * m" "w \<le> w * m" "0 < w * m" using assms(2,3) by simp_all
  have "h < 9223372036854775808" using assms(5) by simp
  with p(3) assms(4) have "wrap64 (w * m) = w * m" by (intro wrap64_id) linarith+
  moreover have "\<not> h \<le> m" "\<not> h < w" using p assms(4) by linarith+
  ultimately show ?thesis using assms by (simp add: fit_def fit_size_def sdiv_nonneg)
qed

end
