(* ===== verification/File_Storage.thy ===== *)
theory File_Storage
  imports Apperr
begin

text \<open>
  \<^verbatim>\<open>filestorage/filestorage.go\<close>: objects in an S3 bucket. The client library and the server behind it are the
  argument \<open>s3\<close>, with operations that read or change the server's state; \<open>s3_documented\<close> is what the package
  relies on.
\<close>

section \<open>The library\<close>

record Info =
  info_Key :: string
  info_Size :: int
  info_ContentType :: string
  info_ModifiedAt :: instant

type_synonym rule = "string \<times> string \<times> int"

text \<open>
  \<open>st_New\<close> is the check of an endpoint, given credentials, encryption and region; \<open>st_StatusCode\<close> the status
  that \<^verbatim>\<open>minio.ToErrorResponse\<close> finds in an error. A reader \<open>'r\<close> is what \<^verbatim>\<open>GetObject\<close> hands out.
\<close>

record ('s, 'r) s3 =
  st_New :: "string \<Rightarrow> string \<Rightarrow> string \<Rightarrow> bool \<Rightarrow> string \<Rightarrow> goerr option"
  st_BucketExists :: "string \<Rightarrow> 's \<Rightarrow> bool result"
  st_MakeBucket :: "string \<Rightarrow> string \<Rightarrow> 's \<Rightarrow> goerr option \<times> 's"
  st_SetLifecycle :: "string \<Rightarrow> rule list \<Rightarrow> 's \<Rightarrow> goerr option \<times> 's"
  st_PresignedPut :: "string \<Rightarrow> string \<Rightarrow> string \<Rightarrow> duration \<Rightarrow> string result"
  st_PresignedGet :: "string \<Rightarrow> string \<Rightarrow> string \<Rightarrow> duration \<Rightarrow> string result"
  st_StatObject :: "string \<Rightarrow> string \<Rightarrow> 's \<Rightarrow> Info result"
  st_GetObject :: "string \<Rightarrow> string \<Rightarrow> 's \<Rightarrow> 'r result"
  st_PutObject :: "string \<Rightarrow> string \<Rightarrow> string \<Rightarrow> int \<Rightarrow> string \<Rightarrow> 's \<Rightarrow> goerr option \<times> 's"
  st_RemoveObject :: "string \<Rightarrow> string \<Rightarrow> 's \<Rightarrow> goerr option \<times> 's"
  st_StatusCode :: "goerr \<Rightarrow> int"

section \<open>The client\<close>

record storage_Config =
  Endpoint :: string
  AccessKey :: string
  SecretKey :: string
  Bucket :: string
  Region :: string
  UseSSL :: bool
  PublicEndpoint :: string
  PresignTTL :: duration
  CreateBucket :: bool
  StagingPrefix :: string
  StagingTTL :: int

text \<open>A client knows the endpoints of its two connections; they may be the same.\<close>

record storage_Client =
  cl_api :: string
  cl_public :: string
  cl_cfg :: storage_Config

definition newAPI :: "('s, 'r) s3 \<Rightarrow> storage_Config \<Rightarrow> string \<Rightarrow> string result" where
  "newAPI s3 cfg endpoint =
     (case st_New s3 endpoint (AccessKey cfg) (SecretKey cfg) (UseSSL cfg) (Region cfg) of
        Some e \<Rightarrow> Inl (errorf (''filestorage: connect '' @ endpoint @ '': '') e)
      | None \<Rightarrow> Inr endpoint)"

definition applyLifecycle :: "('s, 'r) s3 \<Rightarrow> storage_Client \<Rightarrow> 's \<Rightarrow> goerr option \<times> 's" where
  "applyLifecycle s3 c s =
     (let cfg = cl_cfg c in
      if StagingPrefix cfg = [] \<or> StagingTTL cfg \<le> 0 then (None, s)
      else case st_SetLifecycle s3 (Bucket cfg) [(''expire-staging'', StagingPrefix cfg, StagingTTL cfg)] s of
        (Some e, s') \<Rightarrow> (Some (errorf (''filestorage: set lifecycle on '' @ Bucket cfg @ '': '') e), s')
      | (None, s') \<Rightarrow> (None, s'))"

definition ensure_bucket :: "('s, 'r) s3 \<Rightarrow> storage_Config \<Rightarrow> 's \<Rightarrow> goerr option \<times> 's" where
  "ensure_bucket s3 cfg s =
     (if \<not> CreateBucket cfg then (None, s)
      else case st_BucketExists s3 (Bucket cfg) s of
        Inl e \<Rightarrow> (Some (errorf (''filestorage: check bucket '' @ Bucket cfg @ '': '') e), s)
      | Inr True \<Rightarrow> (None, s)
      | Inr False \<Rightarrow>
          (case st_MakeBucket s3 (Bucket cfg) (Region cfg) s of
             (Some e, s') \<Rightarrow> (Some (errorf (''filestorage: create bucket '' @ Bucket cfg @ '': '') e), s')
           | (None, s') \<Rightarrow> (None, s')))"

definition public_endpoint :: "('s, 'r) s3 \<Rightarrow> storage_Config \<Rightarrow> string result" where
  "public_endpoint s3 cfg =
     (if PublicEndpoint cfg \<noteq> [] \<and> PublicEndpoint cfg \<noteq> Endpoint cfg then newAPI s3 cfg (PublicEndpoint cfg)
      else Inr (Endpoint cfg))"

definition storage_Open :: "('s, 'r) s3 \<Rightarrow> storage_Config \<Rightarrow> 's \<Rightarrow> storage_Client result \<times> 's" where
  "storage_Open s3 cfg0 s =
     (if Bucket cfg0 = [] then (Inl (ErrorString ''filestorage: S3_BUCKET is required''), s)
      else
        let cfg = (if PresignTTL cfg0 \<le> 0 then cfg0\<lparr>PresignTTL := 15 * minute\<rparr> else cfg0) in
        case newAPI s3 cfg (Endpoint cfg) of
          Inl e \<Rightarrow> (Inl e, s)
        | Inr api \<Rightarrow>
            (case public_endpoint s3 cfg of
               Inl e \<Rightarrow> (Inl e, s)
             | Inr public \<Rightarrow>
                 (case ensure_bucket s3 cfg s of
                    (Some e, s1) \<Rightarrow> (Inl e, s1)
                  | (None, s1) \<Rightarrow>
                      let c = \<lparr>cl_api = api, cl_public = public, cl_cfg = cfg\<rparr> in
                      (case applyLifecycle s3 c s1 of
                         (Some e, s2) \<Rightarrow> (Inl e, s2)
                       | (None, s2) \<Rightarrow> (Inr c, s2)))))"

definition storage_Ping :: "('s, 'r) s3 \<Rightarrow> storage_Client \<Rightarrow> 's \<Rightarrow> goerr option" where
  "storage_Ping s3 c s =
     (case st_BucketExists s3 (Bucket (cl_cfg c)) s of
        Inl e \<Rightarrow> Some (errorf ''filestorage: ping: '' e) | Inr _ \<Rightarrow> None)"

definition ttlOr :: "storage_Client \<Rightarrow> duration \<Rightarrow> duration" where
  "ttlOr c ttl = (if ttl > 0 then ttl else PresignTTL (cl_cfg c))"

definition PresignPut :: "('s, 'r) s3 \<Rightarrow> storage_Client \<Rightarrow> string \<Rightarrow> duration \<Rightarrow> string result" where
  "PresignPut s3 c key ttl =
     (case st_PresignedPut s3 (cl_public c) (Bucket (cl_cfg c)) key (ttlOr c ttl) of
        Inl e \<Rightarrow> Inl (errorf (''filestorage: presign put '' @ key @ '': '') e) | Inr link \<Rightarrow> Inr link)"

definition PresignGet :: "('s, 'r) s3 \<Rightarrow> storage_Client \<Rightarrow> string \<Rightarrow> duration \<Rightarrow> string result" where
  "PresignGet s3 c key ttl =
     (if key = [] then Inr []
      else case st_PresignedGet s3 (cl_public c) (Bucket (cl_cfg c)) key (ttlOr c ttl) of
        Inl e \<Rightarrow> Inl (errorf (''filestorage: presign get '' @ key @ '': '') e) | Inr link \<Rightarrow> Inr link)"

definition storage_Stat :: "('s, 'r) s3 \<Rightarrow> storage_Client \<Rightarrow> string \<Rightarrow> 's \<Rightarrow> Info result" where
  "storage_Stat s3 c key s =
     (case st_StatObject s3 (Bucket (cl_cfg c)) key s of
        Inl e \<Rightarrow> if st_StatusCode s3 e = 404 then Inl (Sentinel ErrObjectNotFound)
                 else Inl (errorf (''filestorage: stat '' @ key @ '': '') e)
      | Inr info \<Rightarrow> Inr info)"

definition storage_Get :: "('s, 'r) s3 \<Rightarrow> storage_Client \<Rightarrow> string \<Rightarrow> 's \<Rightarrow> 'r result" where
  "storage_Get s3 c key s =
     (case st_GetObject s3 (Bucket (cl_cfg c)) key s of
        Inl e \<Rightarrow> Inl (errorf (''filestorage: get '' @ key @ '': '') e) | Inr object \<Rightarrow> Inr object)"

definition storage_Put ::
  "('s, 'r) s3 \<Rightarrow> storage_Client \<Rightarrow> string \<Rightarrow> string \<Rightarrow> int \<Rightarrow> string \<Rightarrow> 's \<Rightarrow> goerr option \<times> 's" where
  "storage_Put s3 c key content len contentType s =
     (case st_PutObject s3 (Bucket (cl_cfg c)) key content len contentType s of
        (Some e, s') \<Rightarrow> (Some (errorf (''filestorage: put '' @ key @ '': '') e), s') | (None, s') \<Rightarrow> (None, s'))"

definition storage_Remove :: "('s, 'r) s3 \<Rightarrow> storage_Client \<Rightarrow> string \<Rightarrow> 's \<Rightarrow> goerr option \<times> 's" where
  "storage_Remove s3 c key s =
     (if key = [] then (None, s)
      else case st_RemoveObject s3 (Bucket (cl_cfg c)) key s of
        (Some e, s') \<Rightarrow> (Some (errorf (''filestorage: remove '' @ key @ '': '') e), s') | (None, s') \<Rightarrow> (None, s'))"

section \<open>What the server promises\<close>

text \<open>
  A bucket that was found or made exists and stays; objects are read as they were last put, until they are removed;
  what is done to one object leaves the others alone; an object that is not there is reported with status 404.
\<close>

definition same_but :: "('s, 'r) s3 \<Rightarrow> string \<Rightarrow> string \<Rightarrow> 's \<Rightarrow> 's \<Rightarrow> bool" where
  "same_but s3 b key s s' \<longleftrightarrow>
     (\<forall>b' key'. (b', key') \<noteq> (b, key) \<longrightarrow> st_StatObject s3 b' key' s' = st_StatObject s3 b' key' s) \<and>
     (\<forall>b'. st_BucketExists s3 b' s' = st_BucketExists s3 b' s)"

definition s3_documented :: "('s, 'r) s3 \<Rightarrow> bool" where
  "s3_documented s3 \<longleftrightarrow>
     (\<forall>b region s s'. st_MakeBucket s3 b region s = (None, s') \<longrightarrow> st_BucketExists s3 b s' = Inr True) \<and>
     (\<forall>b rules s e s'. st_SetLifecycle s3 b rules s = (e, s') \<longrightarrow> (\<forall>b'. st_BucketExists s3 b' s' = st_BucketExists s3 b' s)) \<and>
     (\<forall>b key content len ct s s'. 0 \<le> len \<longrightarrow> st_PutObject s3 b key content len ct s = (None, s') \<longrightarrow>
        same_but s3 b key s s' \<and>
        (\<exists>at. st_StatObject s3 b key s' = Inr \<lparr>info_Key = key, info_Size = len, info_ContentType = ct, info_ModifiedAt = at\<rparr>)) \<and>
     (\<forall>b key s s'. st_RemoveObject s3 b key s = (None, s') \<longrightarrow>
        same_but s3 b key s s' \<and> (\<exists>e. st_StatObject s3 b key s' = Inl e \<and> st_StatusCode s3 e = 404))"

lemma ensure_bucket_exists:
  "s3_documented s3 \<Longrightarrow> CreateBucket cfg \<Longrightarrow> ensure_bucket s3 cfg s = (None, s') \<Longrightarrow> st_BucketExists s3 (Bucket cfg) s' = Inr True"
  by (auto simp: ensure_bucket_def s3_documented_def split: sum.splits bool.splits prod.splits option.splits if_splits)

lemma applyLifecycle_keeps:
  "s3_documented s3 \<Longrightarrow> applyLifecycle s3 c s = (e, s') \<Longrightarrow> st_BucketExists s3 b s' = st_BucketExists s3 b s"
  unfolding applyLifecycle_def s3_documented_def
  by (auto simp: Let_def split: prod.splits option.splits if_splits)

lemma Open_client:
  assumes "storage_Open s3 cfg s = (Inr c, s')"
  shows "cl_cfg c = (if PresignTTL cfg \<le> 0 then cfg\<lparr>PresignTTL := 15 * minute\<rparr> else cfg) \<and> Bucket cfg \<noteq> [] \<and>
    (\<exists>s1. ensure_bucket s3 (cl_cfg c) s = (None, s1) \<and> applyLifecycle s3 c s1 = (None, s'))"
  using assms by (auto simp: storage_Open_def Let_def split: if_splits sum.splits prod.splits option.splits)

section \<open>Properties\<close>


text \<open>A server whose state is a map of objects, with every bucket present.\<close>

definition memory_s3 :: "((string \<times> string) \<rightharpoonup> (int \<times> string), unit) s3" where
  "memory_s3 =
     \<lparr>st_New = (\<lambda>_ _ _ _ _. None), st_BucketExists = (\<lambda>b s. Inr True), st_MakeBucket = (\<lambda>b r s. (None, s)),
      st_SetLifecycle = (\<lambda>b rs s. (None, s)), st_PresignedPut = (\<lambda>e b k t. Inr k), st_PresignedGet = (\<lambda>e b k t. Inr k),
      st_StatObject = (\<lambda>b k s. case s (b, k) of None \<Rightarrow> Inl (ErrorString ''NoSuchKey'')
         | Some (n, ct) \<Rightarrow> Inr \<lparr>info_Key = k, info_Size = n, info_ContentType = ct, info_ModifiedAt = 0\<rparr>),
      st_GetObject = (\<lambda>b k s. Inr ()), st_PutObject = (\<lambda>b k content n ct s. (None, s((b, k) \<mapsto> (n, ct)))),
      st_RemoveObject = (\<lambda>b k s. (None, s((b, k) := None))), st_StatusCode = (\<lambda>e. 404)\<rparr>"

lemma memory_s3_documented: "s3_documented memory_s3"
  by (auto simp: s3_documented_def same_but_def memory_s3_def)

definition sample_storage :: storage_Config where
  "sample_storage = \<lparr>Endpoint = ''localhost:9000'', AccessKey = [], SecretKey = [], Bucket = ''files'', Region = ''us-east-1'',
     UseSSL = False, PublicEndpoint = [], PresignTTL = 0, CreateBucket = True, StagingPrefix = ''staging/'', StagingTTL = 1\<rparr>"


end
