(* ===== verification/Config_Load.thy ===== *)
theory Config_Load
  imports Apperr
begin

text \<open>
  The package \<^verbatim>\<open>config\<close>: the environment is completed from files and then read into a structure. The
  environment is a map. \<open>stat\<close> is what \<^verbatim>\<open>os.Stat\<close> says of a file, \<open>dotenv\<close> the function \<^verbatim>\<open>Load\<close> of
  \<^verbatim>\<open>github.com/joho/godotenv\<close>, \<open>parse\<close> the function \<^verbatim>\<open>Parse\<close> of \<^verbatim>\<open>github.com/caarlos0/env\<close>, which fills
  a destination from the environment.
\<close>

type_synonym environ = "string \<Rightarrow> string option"

definition DefaultFiles :: "string list" where "DefaultFiles = [''.env.local'', ''.env'']"

fun load_each ::
  "(string \<Rightarrow> goerr option) \<Rightarrow> (string \<Rightarrow> environ \<Rightarrow> goerr option \<times> environ) \<Rightarrow> string list \<Rightarrow> environ \<Rightarrow>
     goerr option \<times> environ" where
  "load_each stat dotenv [] e = (None, e)"
| "load_each stat dotenv (file # files) e =
     (case stat file of
        Some err \<Rightarrow>
          if errors_Is (Some err) ErrNotExist then load_each stat dotenv files e
          else (Some (errorf (''config: stat '' @ file @ '': '') err), e)
      | None \<Rightarrow>
          (case dotenv file e of
             (Some err, e') \<Rightarrow> (Some (errorf (''config: load '' @ file @ '': '') err), e')
           | (None, e') \<Rightarrow> load_each stat dotenv files e'))"

definition LoadFiles where
  "LoadFiles stat dotenv files e = load_each stat dotenv (if files = [] then DefaultFiles else files) e"

definition LoadInto where
  "LoadInto stat dotenv parse dst files e =
     (case LoadFiles stat dotenv files e of
        (Some err, e') \<Rightarrow> ((dst, Some err), e')
      | (None, e') \<Rightarrow>
          (case parse e' dst of
             (dst', Some err) \<Rightarrow> ((dst', Some (errorf ''config: parse environment: '' err)), e')
           | (dst', None) \<Rightarrow> ((dst', None), e')))"

text \<open>\<^verbatim>\<open>Load\<close> starts from the zero value of the type; \<^verbatim>\<open>MustLoad\<close> panics where it returns an error.\<close>

definition config_Load where
  "config_Load stat dotenv parse zero files e = LoadInto stat dotenv parse zero files e"

definition MustLoad where
  "MustLoad stat dotenv parse zero files e =
     (case config_Load stat dotenv parse zero files e of
        ((cfg, Some err), e') \<Rightarrow> (Inl err, e')
      | ((cfg, None), e') \<Rightarrow> (Inr cfg, e'))"

section \<open>Precedence\<close>

text \<open>A file sets the variables it defines, but none that is set already.\<close>

definition dotenv_documented :: "(string \<Rightarrow> environ) \<Rightarrow> (string \<Rightarrow> environ \<Rightarrow> goerr option \<times> environ) \<Rightarrow> bool" where
  "dotenv_documented vars dotenv \<longleftrightarrow>
     (\<forall>file e e'. dotenv file e = (None, e') \<longrightarrow> e' = vars file ++ e)"

definition present :: "(string \<Rightarrow> goerr option) \<Rightarrow> string list \<Rightarrow> string list" where
  "present stat files = filter (\<lambda>f. stat f = None) files"

definition first_value :: "(string \<Rightarrow> environ) \<Rightarrow> string list \<Rightarrow> environ" where
  "first_value vars files k = (case find (\<lambda>f. vars f k \<noteq> None) files of Some f \<Rightarrow> vars f k | None \<Rightarrow> None)"

lemma first_value_Cons: "first_value vars (f # fs) = first_value vars fs ++ vars f"
  by (rule ext) (auto simp: first_value_def map_add_def split: option.splits)

lemma first_value_Nil: "first_value vars [] = Map.empty"
  by (rule ext) (simp add: first_value_def)

lemma load_each_result:
  "dotenv_documented vars dotenv \<Longrightarrow> load_each stat dotenv files e = (None, e') \<Longrightarrow>
     e' = first_value vars (present stat files) ++ e"
proof (induction files arbitrary: e)
  case (Cons f fs)
  show ?case
  proof (cases "stat f")
    case None
    then obtain e1 where d: "dotenv f e = (None, e1)" and r: "load_each stat dotenv fs e1 = (None, e')"
      using Cons.prems(2) by (auto split: prod.splits option.splits)
    have "e1 = vars f ++ e" using Cons.prems(1) d by (auto simp: dotenv_documented_def)
    with Cons.IH [OF Cons.prems(1) r] None show ?thesis by (simp add: present_def first_value_Cons map_add_assoc)
  next
    case (Some err)
    then show ?thesis using Cons by (auto simp: present_def split: if_splits)
  qed
qed (simp add: present_def first_value_Nil)

lemma load_each_missing:
  "load_each stat dotenv files e = (None, e') \<Longrightarrow> f \<in> set files \<Longrightarrow> stat f = None \<or> errors_Is (stat f) ErrNotExist"
  by (induction files arbitrary: e) (auto split: option.splits if_splits prod.splits)

section \<open>Properties\<close>

text \<open>
  C38. A variable that was set before keeps its value; any other gets the value of the first file, in the order given,
  that exists and defines it; a file that does not exist is passed over, and one that cannot be examined for
  another reason is an error.
\<close>

theorem environment_takes_precedence:
  assumes "dotenv_documented vars dotenv" and "LoadFiles stat dotenv files e = (None, e')"
  shows "e' k = (case e k of Some v \<Rightarrow> Some v
      | None \<Rightarrow> first_value vars (present stat (if files = [] then DefaultFiles else files)) k) \<and>
    (\<forall>f \<in> set files. stat f = None \<or> errors_Is (stat f) ErrNotExist)"
proof -
  have run: "load_each stat dotenv (if files = [] then DefaultFiles else files) e = (None, e')"
    using assms(2) by (simp add: LoadFiles_def)
  show ?thesis
    using load_each_result [OF assms(1) run] load_each_missing [OF run]
    by (auto simp: map_add_def split: option.splits if_splits)
qed

definition sample_vars :: "string \<Rightarrow> environ" where
  "sample_vars f = (if f = ''.env.local'' then [''PORT'' \<mapsto> ''1''] else [''PORT'' \<mapsto> ''2'', ''HOST'' \<mapsto> ''h''])"

theorem environment_takes_precedence_witness:
  "\<exists>e'. LoadFiles (\<lambda>f. None) (\<lambda>f e. (None, sample_vars f ++ e)) [] [''HOST'' \<mapsto> ''set''] = (None, e') \<and>
     e' ''HOST'' = Some ''set'' \<and> e' ''PORT'' = Some ''1''"
proof -
  let ?load = "\<lambda>f e. (None, sample_vars f ++ e)"
  have doc: "dotenv_documented sample_vars ?load" by (simp add: dotenv_documented_def)
  obtain e' where run: "LoadFiles (\<lambda>f. None) ?load [] [''HOST'' \<mapsto> ''set''] = (None, e')"
    by (simp add: LoadFiles_def DefaultFiles_def)
  show ?thesis
    using environment_takes_precedence [OF doc run, of "''HOST''"] environment_takes_precedence [OF doc run, of "''PORT''"] run
    by (auto simp: first_value_def present_def DefaultFiles_def sample_vars_def)
qed

end
