(* ===== verification/Safe_DSN.thy ===== *)
theory Safe_DSN
  imports Postgres Net_Address
begin

text \<open>
  The connection string of \<^verbatim>\<open>postgresql/config.go\<close>: \<^verbatim>\<open>DSNString\<close>, which the driver gets, \<^verbatim>\<open>SafeDSNString\<close>, which may be
  shown, and what they use of \<^verbatim>\<open>net/url\<close>: escaping, \<^verbatim>\<open>Parse\<close> and \<^verbatim>\<open>String\<close>. The rules for the host have changed
  between releases of Go, so the check of the host, which may depend on the scheme, is the argument \<open>parse_host\<close>;
  nothing is assumed about it. An error of the parser is \<^const>\<open>None\<close>: the only caller does not look at its text.
\<close>

section \<open>URLs\<close>

datatype url_part = PathPart | HostPart | UserPart | QueryPart | FragmentPart

definition alphanumeric :: "char \<Rightarrow> bool" where
  "alphanumeric c \<longleftrightarrow> (let b = byte c in 97 \<le> b \<and> b \<le> 122 \<or> 65 \<le> b \<and> b \<le> 90 \<or> 48 \<le> b \<and> b \<le> 57)"

text \<open>\<^verbatim>\<open>shouldEscape\<close> of \<^verbatim>\<open>net/url\<close>.\<close>

definition should_escape :: "url_part \<Rightarrow> char \<Rightarrow> bool" where
  "should_escape part c =
     (if alphanumeric c then False
      else if part = HostPart \<and> c \<in> set ''!$&()*+,;=:[]<>'' \<union> {CHR 0x22, CHR 0x27} then False
      else if c \<in> set ''-_.~'' then False
      else if c \<in> set ''$&+,/:;=?@'' then
        (case part of
           PathPart \<Rightarrow> c = CHR ''?''
         | UserPart \<Rightarrow> c \<in> set ''@/?:''
         | QueryPart \<Rightarrow> True
         | HostPart \<Rightarrow> True
         | FragmentPart \<Rightarrow> False)
      else \<not> (part = FragmentPart \<and> c \<in> set ''!()*''))"

definition upper_hex :: "nat \<Rightarrow> char" where
  "upper_hex n = (if n < 10 then char_of (48 + n) else char_of (55 + n))"

definition escape_char :: "url_part \<Rightarrow> char \<Rightarrow> string" where
  "escape_char part c =
     (if c = CHR '' '' \<and> part = QueryPart then ''+''
      else if should_escape part c then [CHR ''%'', upper_hex (byte c div 16), upper_hex (byte c mod 16)]
      else [c])"

definition url_escape :: "url_part \<Rightarrow> string \<Rightarrow> string" where
  "url_escape part s = concat (map (escape_char part) s)"

section \<open>The connection string\<close>

definition url_path :: "string \<Rightarrow> string" where
  "url_path p = (if p = ''*'' then ''*'' else url_escape PathPart p)"

definition DSNString :: "pg_Config \<Rightarrow> string" where
  "DSNString c =
     (if pg_DSN c \<noteq> [] then pg_DSN c
      else
        let cfg = pg_withDefaults c;
            path = url_path (pg_Database cfg) in
        ''postgres://'' @ url_escape UserPart (pg_User cfg) @ '':'' @ url_escape UserPart (pg_Password cfg) @ ''@'' @
        url_escape HostPart (join_host_port (pg_Host cfg) (itoa (pg_Port cfg))) @
        (if path \<noteq> [] \<and> hd path \<noteq> CHR ''/'' then ''/'' else []) @ path @
        ''?sslmode='' @ url_escape QueryPart (pg_SSLMode cfg))"

text \<open>Reading back an escaped user or password.\<close>

fun url_unescape :: "string \<Rightarrow> string option" where
  "url_unescape [] = Some []"
| "url_unescape (c # s) =
     (if c = CHR ''%'' then
        (case s of
           a # b # r \<Rightarrow>
             (case (hex_value a, hex_value b) of
                (Some x, Some y) \<Rightarrow> map_option ((#) (char_of (x * 16 + y))) (url_unescape r)
              | _ \<Rightarrow> None)
         | _ \<Rightarrow> None)
      else map_option ((#) c) (url_unescape s))"

lemma byte_upper_hex: "n < 16 \<Longrightarrow> byte (upper_hex n) = (if n < 10 then 48 + n else 55 + n)"
  by (simp add: upper_hex_def)

lemma hex_value_upper: "n < 16 \<Longrightarrow> hex_value (upper_hex n) = Some n"
  by (simp add: hex_value_def byte_upper_hex)

lemma escape_char_user:
  "escape_char UserPart c = [c] \<and> c \<notin> set ''%@/?:#'' \<or>
   escape_char UserPart c = [CHR ''%'', upper_hex (byte c div 16), upper_hex (byte c mod 16)]"
proof -
  have "\<forall>c \<in> set ''%@/?:#''. should_escape UserPart c" by (simp add: should_escape_def alphanumeric_def)
  then show ?thesis by (cases "should_escape UserPart c") (auto simp: escape_char_def)
qed

lemma escape_char_cases:
  "part \<noteq> QueryPart \<Longrightarrow> escape_char part c = [c] \<and> \<not> should_escape part c \<or>
     escape_char part c = [CHR ''%'', upper_hex (byte c div 16), upper_hex (byte c mod 16)]"
  by (simp add: escape_char_def)

lemma unescape_escape_part: "part \<noteq> QueryPart \<Longrightarrow> url_unescape (url_escape part s) = Some s"
proof (induction s)
  case (Cons c s)
  have "byte c div 16 < 16" "byte c mod 16 < 16" by (auto simp: div_less_iff_less_mult)
  moreover have "char_of (byte c div 16 * 16 + byte c mod 16) = c" by (simp add: div_mult_mod_eq)
  moreover have "should_escape part CHR ''%''" by (cases part) (simp_all add: should_escape_def alphanumeric_def)
  ultimately show ?case
    using escape_char_cases [OF Cons.prems, of c] Cons by (auto simp: url_escape_def hex_value_upper)
qed (simp add: url_escape_def)

lemmas unescape_escape = unescape_escape_part [of UserPart, simplified]

lemma upper_hex_plain: "n < 16 \<Longrightarrow> upper_hex n \<notin> set ''@/?:#''"
proof -
  assume "n < 16"
  then have "byte (upper_hex n) \<noteq> 64 \<and> byte (upper_hex n) \<noteq> 47 \<and> byte (upper_hex n) \<noteq> 63 \<and>
      byte (upper_hex n) \<noteq> 58 \<and> byte (upper_hex n) \<noteq> 35" by (simp add: byte_upper_hex)
  then show ?thesis by auto
qed

lemma escape_user_no_delimiter: "c \<in> set (url_escape UserPart s) \<Longrightarrow> c \<notin> set ''@/?:#''"
proof -
  assume "c \<in> set (url_escape UserPart s)"
  then obtain x where x: "c \<in> set (escape_char UserPart x)" by (auto simp: url_escape_def)
  have small: "byte x div 16 < 16" "byte x mod 16 < 16" by (auto simp: div_less_iff_less_mult)
  show ?thesis
    using escape_char_user [of x] x upper_hex_plain [OF small(1)] upper_hex_plain [OF small(2)] by auto
qed

text \<open>
  Whatever the user and the password are, the string is cut at the same places: before the first colon after the
  scheme is the user, from there to the first at sign the password.
\<close>

lemma dsn_keeps_credentials:
  assumes "pg_DSN c = []"
  shows "\<exists>u p rest. DSNString c = ''postgres://'' @ u @ '':'' @ p @ ''@'' @ rest \<and>
    set u \<inter> set ''@/?:#'' = {} \<and> set p \<inter> set ''@/?:#'' = {} \<and>
    url_unescape u = Some (pg_User (pg_withDefaults c)) \<and> url_unescape p = Some (pg_Password c)"
proof -
  let ?u = "url_escape UserPart (pg_User (pg_withDefaults c))" and ?p = "url_escape UserPart (pg_Password (pg_withDefaults c))"
  have "\<exists>rest. DSNString c = ''postgres://'' @ ?u @ '':'' @ ?p @ ''@'' @ rest" using assms by (simp add: DSNString_def Let_def)
  moreover have "set ?u \<inter> set ''@/?:#'' = {}" "set ?p \<inter> set ''@/?:#'' = {}" using escape_user_no_delimiter by blast+
  moreover have "pg_Password (pg_withDefaults c) = pg_Password c" by (simp add: pg_withDefaults_def)
  ultimately show ?thesis using unescape_escape by metis
qed

section \<open>Cutting strings\<close>

definition strings_Cut :: "char \<Rightarrow> string \<Rightarrow> string \<times> string" where
  "strings_Cut sep s = (takeWhile (\<lambda>c. c \<noteq> sep) s, drop 1 (dropWhile (\<lambda>c. c \<noteq> sep) s))"

fun cut_last :: "char \<Rightarrow> string \<Rightarrow> (string \<times> string) option" where
  "cut_last sep [] = None"
| "cut_last sep (c # s) =
     (case cut_last sep s of
        Some (a, b) \<Rightarrow> Some (c # a, b)
      | None \<Rightarrow> if c = sep then Some ([], s) else None)"

lemma strings_Cut_append [simp]:
  "sep \<notin> set a \<Longrightarrow> strings_Cut sep (a @ s) = (a @ fst (strings_Cut sep s), snd (strings_Cut sep s))"
  by (induction a) (auto simp: strings_Cut_def)

lemma strings_Cut_Cons [simp]:
  "strings_Cut sep (c # s) = (if c = sep then ([], s) else (c # fst (strings_Cut sep s), snd (strings_Cut sep s)))"
  by (simp add: strings_Cut_def)

lemma strings_Cut_Nil [simp]: "strings_Cut sep [] = ([], [])"
  by (simp add: strings_Cut_def)

lemma cut_last_append:
  "cut_last sep (a @ sep # s) =
     Some (a @ (case cut_last sep s of None \<Rightarrow> [] | Some (b, _) \<Rightarrow> sep # b), case cut_last sep s of None \<Rightarrow> s | Some (_, h) \<Rightarrow> h)"
  by (induction a) (simp_all split: option.splits)

section \<open>Parsed URLs\<close>

text \<open>Reads the host for a scheme, or refuses it.\<close>

type_synonym host_parser = "string \<Rightarrow> string \<Rightarrow> string option"

record Userinfo =
  ui_username :: string
  ui_password :: "string option"

record URL =
  url_Scheme :: string
  url_Opaque :: string
  url_User :: "Userinfo option"
  url_Host :: string
  url_Path :: string
  url_RawPath :: string
  url_OmitHost :: bool
  url_ForceQuery :: bool
  url_RawQuery :: string
  url_Fragment :: string
  url_RawFragment :: string

definition empty_URL :: URL where
  "empty_URL = \<lparr>url_Scheme = [], url_Opaque = [], url_User = None, url_Host = [], url_Path = [], url_RawPath = [],
     url_OmitHost = False, url_ForceQuery = False, url_RawQuery = [], url_Fragment = [], url_RawFragment = []\<rparr>"

definition control :: "char \<Rightarrow> bool" where "control c \<longleftrightarrow> byte c < 32 \<or> byte c = 127"

definition letter :: "char \<Rightarrow> bool" where
  "letter c \<longleftrightarrow> 97 \<le> byte c \<and> byte c \<le> 122 \<or> 65 \<le> byte c \<and> byte c \<le> 90"

definition scheme_char :: "char \<Rightarrow> bool" where
  "scheme_char c \<longleftrightarrow> letter c \<or> digit c \<or> c \<in> set ''+-.''"

text \<open>\<^verbatim>\<open>getScheme\<close>: scheme and rest.\<close>

definition getScheme :: "string \<Rightarrow> (string \<times> string) option" where
  "getScheme raw =
     (let sch = takeWhile scheme_char raw; rest = dropWhile scheme_char raw in
      if rest \<noteq> [] \<and> hd rest = CHR '':'' then
        if sch = [] then None
        else if letter (hd sch) then Some (sch, tl rest) else Some ([], raw)
      else Some ([], raw))"

definition user_char :: "char \<Rightarrow> bool" where
  "user_char c \<longleftrightarrow> alphanumeric c \<or> c \<in> set ''-._:~!$&()*+,;=%@'' \<union> {CHR 0x27}"

definition validUserinfo :: "string \<Rightarrow> bool" where
  "validUserinfo s \<longleftrightarrow> (\<forall>c \<in> set s. user_char c)"

definition parseUserinfo :: "string \<Rightarrow> Userinfo option" where
  "parseUserinfo info =
     (if \<not> validUserinfo info then None
      else if CHR '':'' \<notin> set info then
        (case url_unescape info of None \<Rightarrow> None | Some u \<Rightarrow> Some \<lparr>ui_username = u, ui_password = None\<rparr>)
      else
        case strings_Cut CHR '':'' info of (u0, p0) \<Rightarrow>
          (case url_unescape u0 of
             None \<Rightarrow> None
           | Some u \<Rightarrow>
               (case url_unescape p0 of
                  None \<Rightarrow> None
                | Some p \<Rightarrow> Some \<lparr>ui_username = u, ui_password = Some p\<rparr>)))"

definition parseAuthority ::
  "(string \<Rightarrow> string option) \<Rightarrow> string \<Rightarrow> (Userinfo option \<times> string) option" where
  "parseAuthority parse_host authority =
     (case cut_last CHR ''@'' authority of
        None \<Rightarrow> map_option (Pair None) (parse_host authority)
      | Some (info, h) \<Rightarrow>
          (case parse_host h of
             None \<Rightarrow> None
           | Some host \<Rightarrow> map_option (\<lambda>ui. (Some ui, host)) (parseUserinfo info)))"

text \<open>\<^verbatim>\<open>setPath\<close> and \<^verbatim>\<open>setFragment\<close> keep the written form when it is not the default encoding.\<close>

definition setPath :: "string \<Rightarrow> URL \<Rightarrow> URL option" where
  "setPath p u =
     map_option (\<lambda>path. u\<lparr>url_Path := path, url_RawPath := if p = url_escape PathPart path then [] else p\<rparr>) (url_unescape p)"

definition setFragment :: "string \<Rightarrow> URL \<Rightarrow> URL option" where
  "setFragment f u =
     map_option (\<lambda>frag. u\<lparr>url_Fragment := frag, url_RawFragment := if f = url_escape FragmentPart frag then [] else f\<rparr>)
       (url_unescape f)"

text \<open>The part of \<^verbatim>\<open>parse\<close> after scheme and query have been taken off.\<close>

definition parse_hierarchy :: "host_parser \<Rightarrow> string \<Rightarrow> URL \<Rightarrow> URL option" where
  "parse_hierarchy parse_host rest u =
     (if take 1 rest \<noteq> ''/'' \<and> url_Scheme u \<noteq> [] then Some (u\<lparr>url_Opaque := rest\<rparr>)
      else if take 1 rest \<noteq> ''/'' \<and> CHR '':'' \<in> set (fst (strings_Cut CHR ''/'' rest)) then None
      else if (url_Scheme u \<noteq> [] \<or> take 3 rest \<noteq> ''///'') \<and> take 2 rest = ''//'' then
        (case parseAuthority (parse_host (url_Scheme u)) (takeWhile (\<lambda>c. c \<noteq> CHR ''/'') (drop 2 rest)) of
           None \<Rightarrow> None
         | Some (ui, host) \<Rightarrow>
             setPath (dropWhile (\<lambda>c. c \<noteq> CHR ''/'') (drop 2 rest)) (u\<lparr>url_User := ui, url_Host := host\<rparr>))
      else setPath rest (u\<lparr>url_OmitHost := (url_Scheme u \<noteq> [] \<and> take 1 rest = ''/'')\<rparr>))"

text \<open>
  \<^verbatim>\<open>ForceQuery\<close> is set when the only question mark is the last character; cutting there gives the same rest and an
  empty query.
\<close>

definition url_parse :: "host_parser \<Rightarrow> string \<Rightarrow> URL option" where
  "url_parse parse_host raw =
     (if \<exists>c \<in> set raw. control c then None
      else if raw = ''*'' then Some (empty_URL\<lparr>url_Path := ''*''\<rparr>)
      else
        case getScheme raw of
          None \<Rightarrow> None
        | Some (sch, rest) \<Rightarrow>
            (case strings_Cut CHR ''?'' rest of (before, query) \<Rightarrow>
               parse_hierarchy parse_host before
                 (empty_URL\<lparr>url_Scheme := to_lower sch, url_ForceQuery := (rest = before @ ''?''), url_RawQuery := query\<rparr>)))"

definition url_Parse :: "host_parser \<Rightarrow> string \<Rightarrow> URL option" where
  "url_Parse parse_host raw =
     (case strings_Cut CHR ''#'' raw of (before, frag) \<Rightarrow>
        (case url_parse parse_host before of
           None \<Rightarrow> None
         | Some u \<Rightarrow> if frag = [] then Some u else setFragment frag u))"

section \<open>Printing\<close>

definition validEncoded :: "url_part \<Rightarrow> string \<Rightarrow> bool" where
  "validEncoded part s \<longleftrightarrow>
     (\<forall>c \<in> set s. c \<in> set ''!$&()*+,;=:@[]%'' \<union> {CHR 0x27} \<or> \<not> should_escape part c)"

definition EscapedPath :: "URL \<Rightarrow> string" where
  "EscapedPath u =
     (if url_RawPath u \<noteq> [] \<and> validEncoded PathPart (url_RawPath u) \<and> url_unescape (url_RawPath u) = Some (url_Path u)
      then url_RawPath u
      else url_path (url_Path u))"

definition EscapedFragment :: "URL \<Rightarrow> string" where
  "EscapedFragment u =
     (if url_RawFragment u \<noteq> [] \<and> validEncoded FragmentPart (url_RawFragment u) \<and>
         url_unescape (url_RawFragment u) = Some (url_Fragment u)
      then url_RawFragment u
      else url_escape FragmentPart (url_Fragment u))"

definition Userinfo_String :: "Userinfo \<Rightarrow> string" where
  "Userinfo_String ui =
     url_escape UserPart (ui_username ui) @
     (case ui_password ui of None \<Rightarrow> [] | Some p \<Rightarrow> '':'' @ url_escape UserPart p)"

definition URL_authority :: "URL \<Rightarrow> string" where
  "URL_authority u =
     (if (url_Scheme u \<noteq> [] \<or> url_Host u \<noteq> [] \<or> url_User u \<noteq> None) \<and>
         \<not> (url_OmitHost u \<and> url_Host u = [] \<and> url_User u = None)
      then (if url_Host u \<noteq> [] \<or> url_Path u \<noteq> [] \<or> url_User u \<noteq> None then ''//'' else []) @
           (case url_User u of None \<Rightarrow> [] | Some ui \<Rightarrow> Userinfo_String ui @ ''@'') @
           url_escape HostPart (url_Host u)
      else [])"

definition URL_String :: "URL \<Rightarrow> string" where
  "URL_String u =
     (let sch = (if url_Scheme u \<noteq> [] then url_Scheme u @ '':'' else []);
          auth = URL_authority u;
          path = EscapedPath u in
      sch @
      (if url_Opaque u \<noteq> [] then url_Opaque u
       else auth @
         (if path \<noteq> [] \<and> hd path \<noteq> CHR ''/'' \<and> url_Host u \<noteq> [] then ''/''
          else if sch @ auth = [] \<and> CHR '':'' \<in> set (fst (strings_Cut CHR ''/'' path)) then ''./'' else []) @ path) @
      (if url_ForceQuery u \<or> url_RawQuery u \<noteq> [] then ''?'' @ url_RawQuery u else []) @
      (if url_Fragment u \<noteq> [] then ''#'' @ EscapedFragment u else []))"

text \<open>The password of a URL as it may be shown.\<close>

definition mask_password :: "URL \<Rightarrow> URL" where
  "mask_password u =
     (case url_User u of
        None \<Rightarrow> u
      | Some ui \<Rightarrow>
          (case ui_password ui of
             None \<Rightarrow> u
           | Some _ \<Rightarrow> u\<lparr>url_User := Some \<lparr>ui_username = ui_username ui, ui_password = Some ''xxxxx''\<rparr>\<rparr>))"

definition SafeDSNString :: "host_parser \<Rightarrow> pg_Config \<Rightarrow> string" where
  "SafeDSNString parse_host c =
     (case url_Parse parse_host (DSNString c) of
        None \<Rightarrow> ''postgres://<unparsable dsn>''
      | Some parsed \<Rightarrow> URL_String (mask_password parsed))"

section \<open>The password is not shown\<close>

text \<open>How a password may be written in a URL.\<close>

definition password_text :: "string \<Rightarrow> bool" where
  "password_text p \<longleftrightarrow> validUserinfo p \<and> url_unescape p \<noteq> None"

lemma validUserinfo_simps [simp]:
  "validUserinfo []" "validUserinfo (a @ b) \<longleftrightarrow> validUserinfo a \<and> validUserinfo b"
  "validUserinfo (c # b) \<longleftrightarrow> user_char c \<and> validUserinfo b"
  by (auto simp: validUserinfo_def)

lemma user_char_marks [simp]: "user_char CHR '':''" "user_char CHR ''@''"
  by (simp_all add: user_char_def)

lemma user_char_clean:
  assumes "user_char c"
  shows "\<not> control c \<and> c \<noteq> CHR ''/'' \<and> c \<noteq> CHR ''?'' \<and> c \<noteq> CHR ''#''"
proof (cases "alphanumeric c")
  case False
  have "\<forall>c \<in> set ''-._:~!$&()*+,;=%@'' \<union> {CHR 0x27}. \<not> control c \<and> c \<noteq> CHR ''/'' \<and> c \<noteq> CHR ''?'' \<and> c \<noteq> CHR ''#''"
    by (simp add: control_def)
  with False assms show ?thesis unfolding user_char_def by blast
qed (auto simp: alphanumeric_def Let_def control_def)

lemma valid_text_clean:
  "validUserinfo s \<Longrightarrow> (\<exists>c \<in> set s. control c) = False \<and> CHR ''/'' \<notin> set s \<and> CHR ''?'' \<notin> set s \<and> CHR ''#'' \<notin> set s"
  using user_char_clean by (fastforce simp: validUserinfo_def)

lemma url_unescape_append:
  "url_unescape p = Some p' \<Longrightarrow> url_unescape (p @ w) = map_option ((@) p') (url_unescape w)"
  by (induction p arbitrary: p' rule: url_unescape.induct)
     (auto simp: option.map_comp comp_def map_option_case split: if_splits list.splits option.splits)

lemma escaped_password_text: "password_text (url_escape UserPart p)"
proof -
  have hex: "n < 16 \<Longrightarrow> user_char (upper_hex n)" for n
    by (simp add: user_char_def alphanumeric_def byte_upper_hex)
  have "validUserinfo (escape_char UserPart c)" for c
  proof (cases "should_escape UserPart c")
    case True
    have "byte c div 16 < 16" "byte c mod 16 < 16" by (auto simp: div_less_iff_less_mult)
    with True show ?thesis by (simp add: escape_char_def hex) (simp add: user_char_def)
  next
    case False
    then have "user_char c" by (auto simp: should_escape_def user_char_def split: if_splits)
    with False show ?thesis by (simp add: escape_char_def)
  qed
  then have "validUserinfo (url_escape UserPart p)" by (auto simp: url_escape_def validUserinfo_def)
  then show ?thesis by (simp add: password_text_def unescape_escape)
qed

definition mask_user :: "Userinfo \<Rightarrow> Userinfo" where
  "mask_user ui = ui\<lparr>ui_password := map_option (\<lambda>_. ''xxxxx'') (ui_password ui)\<rparr>"

lemma mask_password_eq: "mask_password u = u\<lparr>url_User := map_option mask_user (url_User u)\<rparr>"
  by (cases u) (auto simp: mask_password_def mask_user_def split: option.splits)

lemma parseUserinfo_mask:
  assumes "password_text p" and "password_text q" and "CHR '':'' \<notin> set u"
  shows "map_option mask_user (parseUserinfo (u @ CHR '':'' # p @ w)) =
    map_option mask_user (parseUserinfo (u @ CHR '':'' # q @ w))"
proof -
  from assms obtain p' q' where "url_unescape p = Some p'" "url_unescape q = Some q'"
    by (auto simp: password_text_def)
  with assms show ?thesis
    by (cases "url_unescape w"; cases "url_unescape u")
       (simp_all add: parseUserinfo_def password_text_def url_unescape_append mask_user_def)
qed

lemma parseAuthority_mask:
  assumes "password_text p" and "password_text q" and "CHR '':'' \<notin> set u"
  shows "map_option (map_prod (map_option mask_user) id) (parseAuthority ph (u @ CHR '':'' # p @ CHR ''@'' # a)) =
    map_option (map_prod (map_option mask_user) id) (parseAuthority ph (u @ CHR '':'' # q @ CHR ''@'' # a))"
proof -
  let ?w = "case cut_last CHR ''@'' a of None \<Rightarrow> [] | Some (b, _) \<Rightarrow> CHR ''@'' # b"
  let ?h = "case cut_last CHR ''@'' a of None \<Rightarrow> a | Some (_, h) \<Rightarrow> h"
  have "cut_last CHR ''@'' (u @ CHR '':'' # x @ CHR ''@'' # a) = Some (u @ CHR '':'' # x @ ?w, ?h)" for x
    using cut_last_append [of "CHR ''@''" "u @ CHR '':'' # x" a] by simp
  moreover have "map_option (map_prod (map_option mask_user) id) (map_option (\<lambda>ui. (Some ui, host)) r) =
      map_option (\<lambda>ui. (Some ui, host)) (map_option mask_user r)" for r and host :: string
    by (simp add: option.map_comp comp_def)
  ultimately show ?thesis
    using parseUserinfo_mask [OF assms, of ?w] by (cases "ph ?h") (simp_all add: parseAuthority_def)
qed

text \<open>A URL with user and password.\<close>

definition credentials_url :: "string \<Rightarrow> string \<Rightarrow> string \<Rightarrow> string \<Rightarrow> string" where
  "credentials_url sch u p r = sch @ ''://'' @ u @ '':'' @ p @ ''@'' @ r"

definition valid_scheme :: "string \<Rightarrow> bool" where
  "valid_scheme sch \<longleftrightarrow> sch \<noteq> [] \<and> letter (hd sch) \<and> (\<forall>c \<in> set sch. scheme_char c)"

lemma takeWhile_until: "c \<notin> set a \<Longrightarrow> takeWhile (\<lambda>x. x \<noteq> c) (a @ s) = a @ takeWhile (\<lambda>x. x \<noteq> c) s"
  "c \<notin> set a \<Longrightarrow> dropWhile (\<lambda>x. x \<noteq> c) (a @ s) = dropWhile (\<lambda>x. x \<noteq> c) s"
  by (induction a) auto

lemma setPath_mask:
  "map_option mask_password (setPath r (x\<lparr>url_User := ui, url_Host := h\<rparr>)) =
     setPath r (x\<lparr>url_User := map_option mask_user ui, url_Host := h\<rparr>)"
  by (cases x) (simp add: setPath_def mask_password_eq option.map_comp comp_def)

lemma setFragment_mask: "map_option mask_password (setFragment f x) = setFragment f (mask_password x)"
  by (cases x) (simp add: setFragment_def mask_password_eq option.map_comp comp_def)

lemma hierarchy_mask:
  assumes pw: "password_text p" "password_text q" and u: "set u \<inter> set '':/?#'' = {}" and sch: "url_Scheme x \<noteq> []"
  shows "map_option mask_password (parse_hierarchy ph (''//'' @ u @ '':'' @ p @ ''@'' @ r) x) =
    map_option mask_password (parse_hierarchy ph (''//'' @ u @ '':'' @ q @ ''@'' @ r) x)"
proof -
  let ?a = "takeWhile (\<lambda>c. c \<noteq> CHR ''/'') r" and ?d = "dropWhile (\<lambda>c. c \<noteq> CHR ''/'') r"
  define place where "place v = (case v of None \<Rightarrow> None
    | Some (ui, host) \<Rightarrow> setPath ?d (x\<lparr>url_User := ui, url_Host := host\<rparr>))" for v
  have mask: "map_option mask_password (place v) = place (map_option (map_prod (map_option mask_user) id) v)" for v
    by (cases v) (auto simp: place_def setPath_mask)
  have "parse_hierarchy ph (''//'' @ u @ '':'' @ y @ ''@'' @ r) x =
      place (parseAuthority (ph (url_Scheme x)) (u @ CHR '':'' # y @ CHR ''@'' # ?a))" if "password_text y" for y
  proof -
    from that have "CHR ''/'' \<notin> set (u @ '':'' @ y @ ''@'')"
      using u valid_text_clean [of y] by (auto simp: password_text_def)
    from takeWhile_until [OF this, of r] sch show ?thesis
      by (simp add: parse_hierarchy_def place_def split: option.split)
  qed
  with pw u show ?thesis by (simp add: mask parseAuthority_mask [of p q])
qed

lemma getScheme_scheme: "valid_scheme sch \<Longrightarrow> getScheme (sch @ CHR '':'' # t) = Some (sch, t)"
proof -
  assume "valid_scheme sch"
  moreover have "\<not> scheme_char CHR '':''" by (simp add: scheme_char_def letter_def digit_def)
  ultimately show ?thesis by (simp add: getScheme_def valid_scheme_def)
qed

lemma url_parse_mask:
  assumes pw: "password_text p" "password_text q" and u: "set u \<inter> set '':/?#'' = {}" and sch: "valid_scheme sch"
  shows "map_option mask_password (url_parse ph (credentials_url sch u p r)) =
    map_option mask_password (url_parse ph (credentials_url sch u q r))"
proof -
  have parse: "url_parse ph (credentials_url sch u y r) =
      (if \<exists>c \<in> set (credentials_url sch u [] r). control c then None
       else parse_hierarchy ph (''//'' @ u @ '':'' @ y @ ''@'' @ fst (strings_Cut CHR ''?'' r))
         (empty_URL\<lparr>url_Scheme := to_lower sch, url_ForceQuery := (r = fst (strings_Cut CHR ''?'' r) @ ''?''),
            url_RawQuery := snd (strings_Cut CHR ''?'' r)\<rparr>))" if "password_text y" for y
  proof -
    have y: "(\<exists>c \<in> set y. control c) = False" "CHR ''?'' \<notin> set (''//'' @ u @ '':'' @ y @ ''@'')"
      using that u valid_text_clean [of y] by (auto simp: password_text_def)
    have "strings_Cut CHR ''?'' (''//'' @ u @ '':'' @ y @ ''@'' @ r) =
        (''//'' @ u @ '':'' @ y @ ''@'' @ fst (strings_Cut CHR ''?'' r), snd (strings_Cut CHR ''?'' r))"
      using strings_Cut_append [OF y(2), of r] by simp
    moreover have "getScheme (credentials_url sch u y r) = Some (sch, ''//'' @ u @ '':'' @ y @ ''@'' @ r)"
      using getScheme_scheme [OF sch, of "''//'' @ u @ '':'' @ y @ ''@'' @ r"] by (simp add: credentials_url_def)
    moreover have "(\<exists>c \<in> set (credentials_url sch u y r). control c) = (\<exists>c \<in> set (credentials_url sch u [] r). control c)"
      using y(1) by (auto simp: credentials_url_def)
    moreover have "credentials_url sch u y r \<noteq> ''*''"
      by (simp add: credentials_url_def append_eq_Cons_conv)
    ultimately show ?thesis by (simp add: url_parse_def)
  qed
  have "to_lower sch \<noteq> []" using sch by (simp add: to_lower_def valid_scheme_def)
  with pw show ?thesis by (simp only: parse) (simp add: hierarchy_mask [OF pw u, simplified])
qed

lemma url_Parse_mask:
  assumes pw: "password_text p" "password_text q" and u: "set u \<inter> set '':/?#'' = {}" and sch: "valid_scheme sch"
  shows "map_option mask_password (url_Parse ph (credentials_url sch u p r)) =
    map_option mask_password (url_Parse ph (credentials_url sch u q r))"
proof -
  have "CHR ''#'' \<notin> set sch"
    using sch by (auto simp: valid_scheme_def scheme_char_def letter_def digit_def)
  then have cut: "strings_Cut CHR ''#'' (credentials_url sch u y r) =
      (credentials_url sch u y (fst (strings_Cut CHR ''#'' r)), snd (strings_Cut CHR ''#'' r))" if "password_text y" for y
    using that u valid_text_clean [of y] strings_Cut_append [of "CHR ''#''" "sch @ ''://'' @ u @ '':'' @ y @ ''@''" r]
    by (auto simp: password_text_def credentials_url_def)
  define finish where "finish v = (case v of None \<Rightarrow> None
    | Some x \<Rightarrow> if snd (strings_Cut CHR ''#'' r) = [] then Some x else setFragment (snd (strings_Cut CHR ''#'' r)) x)" for v
  have "map_option mask_password (finish v) = finish (map_option mask_password v)" for v
    by (cases v) (auto simp: finish_def setFragment_mask)
  moreover have "url_Parse ph (credentials_url sch u y r) =
      finish (url_parse ph (credentials_url sch u y (fst (strings_Cut CHR ''#'' r))))" if "password_text y" for y
    using cut [OF that] by (simp add: url_Parse_def finish_def)
  ultimately show ?thesis using url_parse_mask [OF assms] pw by metis
qed

lemma safe_of_parsed:
  "map_option mask_password (url_Parse ph (DSNString c)) = map_option mask_password (url_Parse ph (DSNString d)) \<Longrightarrow>
     SafeDSNString ph c = SafeDSNString ph d"
  by (auto simp: SafeDSNString_def split: option.splits)

section \<open>What is shown of a configuration\<close>

text \<open>The characters that an escaped text never has.\<close>

lemma escaped_chars:
  assumes "c \<in> set (url_escape part s)"
  shows "alphanumeric c \<or> c = CHR ''%'' \<or> c = CHR ''+'' \<or> \<not> should_escape part c"
proof -
  have hex: "n < 16 \<Longrightarrow> alphanumeric (upper_hex n)" for n by (simp add: alphanumeric_def byte_upper_hex)
  obtain x where x: "c \<in> set (escape_char part x)" using assms by (auto simp: url_escape_def)
  have "byte x div 16 < 16" "byte x mod 16 < 16" by (auto simp: div_less_iff_less_mult)
  from hex [OF this(1)] hex [OF this(2)] x show ?thesis by (auto simp: escape_char_def split: if_splits)
qed

lemma control_escaped: "control c \<Longrightarrow> should_escape part c \<and> \<not> alphanumeric c \<and> c \<noteq> CHR ''%'' \<and> c \<noteq> CHR ''+''"
proof -
  assume c: "control c"
  then have "\<not> alphanumeric c" by (auto simp: control_def alphanumeric_def Let_def)
  moreover have "\<forall>x \<in> set ''!$&()*+,;=:[]<>-_.~/?@%'' \<union> {CHR 0x22, CHR 0x27}. \<not> control x" by (simp add: control_def)
  with c have "c \<notin> set ''!$&()*+,;=:[]<>-_.~/?@%'' \<union> {CHR 0x22, CHR 0x27}" by blast
  ultimately show ?thesis by (auto simp: should_escape_def)
qed

lemma escaped_clean:
  "\<forall>c \<in> set (url_escape part s). \<not> control c"
  "part \<noteq> FragmentPart \<Longrightarrow> CHR ''?'' \<notin> set (url_escape part s)"
  "CHR ''#'' \<notin> set (url_escape part s)"
  "CHR ''/'' \<notin> set (url_escape HostPart s)" "CHR ''@'' \<notin> set (url_escape HostPart s)"
  using escaped_chars control_escaped
  by (blast, auto dest!: escaped_chars simp: should_escape_def alphanumeric_def split: url_part.splits if_splits)

lemma url_escape_append: "url_escape part (a @ b) = url_escape part a @ url_escape part b"
  by (simp add: url_escape_def)

lemma cut_last_none: "sep \<notin> set s \<Longrightarrow> cut_last sep s = None"
  by (induction s) auto

lemma parse_postgres:
  assumes u: "password_text u" "CHR '':'' \<notin> set u" "url_unescape u = Some u'"
    and p: "password_text p" "url_unescape p = Some p'"
    and h: "\<forall>c \<in> set h. \<not> control c" "set h \<inter> set ''/?#@'' = {}"
    and path: "path = [] \<or> hd path = CHR ''/''" "\<forall>c \<in> set path. \<not> control c" "set path \<inter> set ''?#'' = {}"
      "url_unescape path = Some path'"
    and query: "query \<noteq> []" "\<forall>c \<in> set query. \<not> control c" "CHR ''#'' \<notin> set query"
  shows "url_Parse ph (credentials_url ''postgres'' u p (h @ path @ ''?'' @ query)) =
    map_option (\<lambda>host. empty_URL\<lparr>url_Scheme := ''postgres'', url_User := Some \<lparr>ui_username = u', ui_password = Some p'\<rparr>,
        url_Host := host, url_Path := path', url_RawPath := if path = url_escape PathPart path' then [] else path,
        url_RawQuery := query\<rparr>)
      (ph ''postgres'' h)"
proof -
  let ?front = "''//'' @ u @ '':'' @ p @ ''@'' @ h" and ?raw = "credentials_url ''postgres'' u p (h @ path @ ''?'' @ query)"
  have clean: "CHR ''?'' \<notin> set (?front @ path)" "CHR ''#'' \<notin> set ?raw" "\<forall>c \<in> set ?raw. \<not> control c"
    "CHR ''/'' \<notin> set (u @ '':'' @ p @ ''@'' @ h)"
    using valid_text_clean [of u] valid_text_clean [of p] u p h path query
    by (auto simp: password_text_def credentials_url_def control_def)
  have frag: "strings_Cut CHR ''#'' ?raw = (?raw, [])"
    using strings_Cut_append [OF clean(2), of "[]"] by simp
  have sch: "getScheme ?raw = Some (''postgres'', (?front @ path) @ ''?'' @ query)"
    using getScheme_scheme [of "''postgres''"]
    by (simp add: credentials_url_def valid_scheme_def letter_def scheme_char_def)
  have cut: "strings_Cut CHR ''?'' ((?front @ path) @ ''?'' @ query) = (?front @ path, query)"
    using strings_Cut_append [OF clean(1), of "''?'' @ query"] by simp
  have low: "to_lower ''postgres'' = ''postgres''" by (simp add: to_lower_def)
  have split: "takeWhile (\<lambda>c. c \<noteq> CHR ''/'') (u @ '':'' @ p @ ''@'' @ h @ path) = u @ CHR '':'' # p @ CHR ''@'' # h"
    "dropWhile (\<lambda>c. c \<noteq> CHR ''/'') (u @ '':'' @ p @ ''@'' @ h @ path) = path"
    using takeWhile_until [OF clean(4), of path] path(1) by (cases path; simp)+
  have "cut_last CHR ''@'' (u @ CHR '':'' # p @ CHR ''@'' # h) = Some (u @ CHR '':'' # p, h)"
    using cut_last_append [of "CHR ''@''" "u @ CHR '':'' # p" h] cut_last_none [of "CHR ''@''" h] h by simp
  then have auth: "parseAuthority (ph ''postgres'') (u @ CHR '':'' # p @ CHR ''@'' # h) =
      map_option (Pair (Some \<lparr>ui_username = u', ui_password = Some p'\<rparr>)) (ph ''postgres'' h)"
    using u p by (cases "ph ''postgres'' h") (simp_all add: parseAuthority_def parseUserinfo_def password_text_def)
  show ?thesis
    using frag sch cut clean(3) split auth path(4) query(1)
    by (cases "ph ''postgres'' h")
       (simp_all add: url_Parse_def url_parse_def low parse_hierarchy_def setPath_def empty_URL_def credentials_url_def)
qed

text \<open>The path of a connection string, and that it is printed as it was read.\<close>

definition dsn_path :: "string \<Rightarrow> string" where
  "dsn_path db = (if url_path db \<noteq> [] \<and> hd (url_path db) \<noteq> CHR ''/'' then ''/'' else []) @ url_path db"

lemma dsn_path_star: "dsn_path ''*'' = ''/*''"
  by (simp add: dsn_path_def url_path_def)

lemma dsn_path_parts:
  obtains path' where "url_unescape (dsn_path db) = Some path'" "dsn_path db = [] \<or> hd (dsn_path db) = CHR ''/''"
    "\<forall>c \<in> set (dsn_path db). \<not> control c" "set (dsn_path db) \<inter> set ''?#'' = {}"
    "\<And>u. url_Path u = path' \<Longrightarrow> url_RawPath u = (if dsn_path db = url_escape PathPart path' then [] else dsn_path db) \<Longrightarrow>
       EscapedPath u = dsn_path db"
proof (cases "db = ''*''")
  case True
  have "''/*'' \<noteq> url_escape PathPart ''/*''"
    by (simp add: url_escape_def escape_char_def should_escape_def alphanumeric_def)
  with True show ?thesis
    by (intro that [of "''/*''"])
       (simp_all add: dsn_path_star control_def EscapedPath_def validEncoded_def should_escape_def alphanumeric_def)
next
  case False
  define path' where "path' = (if dsn_path db = url_escape PathPart db then db else CHR ''/'' # db)"
  have slash: "url_escape PathPart (CHR ''/'' # db) = CHR ''/'' # url_escape PathPart db"
    by (simp add: url_escape_def escape_char_def should_escape_def)
  have esc: "dsn_path db = url_escape PathPart path'"
    using False by (auto simp: path'_def dsn_path_def url_path_def slash)
  have lead: "dsn_path db = [] \<or> hd (dsn_path db) = CHR ''/''" by (auto simp: dsn_path_def)
  have "path' \<noteq> ''*''" using False by (auto simp: path'_def)
  with lead show ?thesis
    using escaped_clean(1-3) [where part = PathPart and s = path']
    by (intro that [of path']) (simp_all add: esc unescape_escape_part EscapedPath_def url_path_def)
qed

lemma safe_dsn_of_fields:
  fixes c
  defines "cfg \<equiv> pg_withDefaults c"
  defines "hostport \<equiv> join_host_port (pg_Host cfg) (itoa (pg_Port cfg))"
  assumes "pg_DSN c = []"
  shows "SafeDSNString ph c =
    (case ph ''postgres'' (url_escape HostPart hostport) of
       None \<Rightarrow> ''postgres://<unparsable dsn>''
     | Some host \<Rightarrow> ''postgres://'' @ url_escape UserPart (pg_User cfg) @ '':xxxxx@'' @ url_escape HostPart host @
         dsn_path (pg_Database cfg) @ ''?sslmode='' @ url_escape QueryPart (pg_SSLMode cfg))"
proof -
  let ?u = "url_escape UserPart (pg_User cfg)" and ?p = "url_escape UserPart (pg_Password cfg)"
    and ?q = "''sslmode='' @ url_escape QueryPart (pg_SSLMode cfg)" and ?path = "dsn_path (pg_Database cfg)"
  have dsn: "DSNString c = credentials_url ''postgres'' ?u ?p (url_escape HostPart hostport @ ?path @ ''?'' @ ?q)"
    using assms by (simp add: DSNString_def Let_def credentials_url_def dsn_path_def)
  have user: "CHR '':'' \<notin> set ?u" using escape_user_no_delimiter [of "CHR '':''"] by auto
  have q: "?q \<noteq> []" "\<forall>c \<in> set ?q. \<not> control c" "CHR ''#'' \<notin> set ?q"
    using escaped_clean(1,3) [where part = QueryPart and s = "pg_SSLMode cfg"] by (auto simp: control_def)
  have h: "\<forall>c \<in> set (url_escape HostPart hostport). \<not> control c" "set (url_escape HostPart hostport) \<inter> set ''/?#@'' = {}"
    using escaped_clean(1-3) [where part = HostPart and s = hostport] escaped_clean(4,5) [of hostport] by auto
  obtain path' where path: "url_unescape ?path = Some path'" "?path = [] \<or> hd ?path = CHR ''/''"
    "\<forall>c \<in> set ?path. \<not> control c" "set ?path \<inter> set ''?#'' = {}"
    "\<And>u. url_Path u = path' \<Longrightarrow> url_RawPath u = (if ?path = url_escape PathPart path' then [] else ?path) \<Longrightarrow>
       EscapedPath u = ?path"
    by (rule dsn_path_parts [of "pg_Database cfg"]) blast
  note parsed = parse_postgres [OF escaped_password_text user unescape_escape escaped_password_text unescape_escape h
      path(2-4) path(1) q, of ph]
  show ?thesis
  proof (cases "ph ''postgres'' (url_escape HostPart hostport)")
    case (Some host)
    have "URL_String (mask_password (empty_URL\<lparr>url_Scheme := ''postgres'', url_User := Some \<lparr>ui_username = pg_User cfg,
          ui_password = Some (pg_Password cfg)\<rparr>, url_Host := host, url_Path := path',
          url_RawPath := if ?path = url_escape PathPart path' then [] else ?path, url_RawQuery := ?q\<rparr>)) =
        ''postgres://'' @ ?u @ '':xxxxx@'' @ url_escape HostPart host @ ?path @ ''?'' @ ?q"
      using path(2) q(1)
      by (auto simp: URL_String_def Let_def path(5) mask_password_def URL_authority_def Userinfo_String_def empty_URL_def
          url_escape_def escape_char_def should_escape_def alphanumeric_def)
    with Some show ?thesis unfolding SafeDSNString_def dsn parsed by simp
  next
    case None
    then show ?thesis unfolding SafeDSNString_def dsn parsed by simp
  qed
qed

text \<open>The host of a configuration as it stands in its connection string.\<close>

definition dsn_host :: "pg_Config \<Rightarrow> string" where
  "dsn_host c = (let cfg = pg_withDefaults c in url_escape HostPart (join_host_port (pg_Host cfg) (itoa (pg_Port cfg))))"

text \<open>
  C37. The text that is logged and put into errors does not show the password. For a configuration given by its fields
  it is the connection string with \<^verbatim>\<open>xxxxx\<close> for the password and with the host as the URL parser reads it, or the
  fixed text when the parser refuses the host. For a configuration given by a URL with user and password it is the
  same whatever the password is.
\<close>

theorem safe_dsn_hides_password:
  assumes "valid_scheme sch" and "set u \<inter> set '':/?#'' = {}" and "password_text p" and "password_text q"
  shows "SafeDSNString ph (c\<lparr>pg_DSN := credentials_url sch u p r\<rparr>) =
      SafeDSNString ph (c\<lparr>pg_DSN := credentials_url sch u q r\<rparr>) \<and>
    (pg_DSN c = [] \<longrightarrow> (\<exists>rest. SafeDSNString ph c =
      (case ph ''postgres'' (dsn_host c) of
         None \<Rightarrow> ''postgres://<unparsable dsn>''
       | Some host \<Rightarrow> ''postgres://'' @ url_escape UserPart (pg_User (pg_withDefaults c)) @ '':xxxxx@'' @
           url_escape HostPart host @ rest) \<and>
      DSNString c = ''postgres://'' @ url_escape UserPart (pg_User (pg_withDefaults c)) @ '':'' @
        url_escape UserPart (pg_Password c) @ ''@'' @
        dsn_host c @ rest))"
proof (intro conjI impI)
  have dsn: "DSNString (c\<lparr>pg_DSN := credentials_url sch u y r\<rparr>) = credentials_url sch u y r" for y
    by (simp add: DSNString_def credentials_url_def)
  show "SafeDSNString ph (c\<lparr>pg_DSN := credentials_url sch u p r\<rparr>) =
      SafeDSNString ph (c\<lparr>pg_DSN := credentials_url sch u q r\<rparr>)"
    by (rule safe_of_parsed) (simp only: dsn url_Parse_mask [OF assms(3,4,2,1)])
next
  assume "pg_DSN c = []"
  from safe_dsn_of_fields [OF this] this
  show "\<exists>rest. SafeDSNString ph c =
      (case ph ''postgres'' (dsn_host c) of
         None \<Rightarrow> ''postgres://<unparsable dsn>''
       | Some host \<Rightarrow> ''postgres://'' @ url_escape UserPart (pg_User (pg_withDefaults c)) @ '':xxxxx@'' @
           url_escape HostPart host @ rest) \<and>
      DSNString c = ''postgres://'' @ url_escape UserPart (pg_User (pg_withDefaults c)) @ '':'' @
        url_escape UserPart (pg_Password c) @ ''@'' @
        dsn_host c @ rest"
    by (intro exI [of _ "dsn_path (pg_Database (pg_withDefaults c)) @ ''?sslmode='' @ url_escape QueryPart (pg_SSLMode (pg_withDefaults c))"])
       (simp add: dsn_host_def DSNString_def Let_def dsn_path_def pg_withDefaults_def)
qed

definition sample_fields :: pg_Config where
  "sample_fields = DefaultConfig\<lparr>pg_Host := ''db'', pg_User := ''app'', pg_Password := ''s3/cret''\<rparr>"

theorem safe_dsn_hides_password_witness:
  "SafeDSNString (\<lambda>_. Some) (sample_fields\<lparr>pg_DSN := credentials_url ''postgres'' ''app'' ''s3cret'' ''db/app''\<rparr>) =
     SafeDSNString (\<lambda>_. Some) (sample_fields\<lparr>pg_DSN := credentials_url ''postgres'' ''app'' ''other'' ''db/app''\<rparr>) \<and>
   (\<exists>rest. SafeDSNString (\<lambda>_. Some) sample_fields = ''postgres://app:xxxxx@'' @ rest)"
proof -
  have texts: "password_text ''s3cret''" "password_text ''other''"
    by (simp_all add: password_text_def user_char_def alphanumeric_def)
  have sch: "valid_scheme ''postgres''" by (simp add: valid_scheme_def letter_def scheme_char_def)
  have u: "set ''app'' \<inter> set '':/?#'' = {}" by simp
  have c: "pg_DSN sample_fields = []" "pg_User (pg_withDefaults sample_fields) = ''app''"
    by (simp_all add: sample_fields_def DefaultConfig_def pg_withDefaults_def)
  have "url_escape UserPart ''app'' = ''app''"
    by (simp add: url_escape_def escape_char_def should_escape_def alphanumeric_def)
  with safe_dsn_hides_password [OF sch u texts, where ph = "\<lambda>_. Some" and c = sample_fields and r = "''db/app''"] c
  show ?thesis by auto
qed

text \<open>
  A connection string of the other kind that the driver accepts, with keywords and values, is to the URL parser a path
  without user information: the password is shown.
\<close>

lemma upper_hex_eval: "upper_hex 2 = CHR ''2''" "upper_hex 0 = CHR ''0''"
  by code_simp+

definition keyword_dsn :: string where "keyword_dsn = ''host=db password=s3cret''"

lemma keyword_dsn_parts:
  "getScheme keyword_dsn = Some ([], keyword_dsn)"
  "\<forall>c \<in> set keyword_dsn. \<not> control c" "set keyword_dsn \<inter> set '':/?#%*'' = {}"
  "url_unescape keyword_dsn = Some keyword_dsn"
  "url_escape PathPart keyword_dsn = ''host=db%20password=s3cret''"
proof -
  show "getScheme keyword_dsn = Some ([], keyword_dsn)"
    by (simp add: keyword_dsn_def getScheme_def scheme_char_def letter_def digit_def)
  show "\<forall>c \<in> set keyword_dsn. \<not> control c" by (simp add: keyword_dsn_def control_def)
  show "set keyword_dsn \<inter> set '':/?#%*'' = {}" by (simp add: keyword_dsn_def)
  show "url_unescape keyword_dsn = Some keyword_dsn" by (simp add: keyword_dsn_def)
  show "url_escape PathPart keyword_dsn = ''host=db%20password=s3cret''"
    by (simp add: keyword_dsn_def url_escape_def escape_char_def should_escape_def alphanumeric_def upper_hex_eval)
qed

lemma relative_URL_String:
  assumes "EscapedPath (empty_URL\<lparr>url_Path := p, url_RawPath := r\<rparr>) = shown" and "CHR '':'' \<notin> set shown"
  shows "URL_String (empty_URL\<lparr>url_Path := p, url_RawPath := r\<rparr>) = shown"
proof -
  have "CHR '':'' \<notin> set (fst (strings_Cut CHR ''/'' shown))"
    using assms(2) by (auto simp: strings_Cut_def dest: set_takeWhileD)
  with assms(1) show ?thesis by (simp add: URL_String_def Let_def URL_authority_def) (simp add: empty_URL_def)
qed

lemma safe_dsn_shows_keyword_password:
  "SafeDSNString ph (c\<lparr>pg_DSN := ''host=db password=s3cret''\<rparr>) = ''host=db%20password=s3cret''"
proof -
  have cut: "strings_Cut sep keyword_dsn = (keyword_dsn, [])" if "sep \<in> set ''?#''" for sep
    using that strings_Cut_append [of sep keyword_dsn "[]"] keyword_dsn_parts(3) by auto
  have plain: "keyword_dsn \<noteq> ''*''" "take 1 keyword_dsn \<noteq> ''/''" "take 2 keyword_dsn \<noteq> ''//''" "keyword_dsn \<noteq> []"
    "keyword_dsn \<noteq> url_escape PathPart keyword_dsn" "hd keyword_dsn \<noteq> CHR ''/''" "\<not> validEncoded PathPart keyword_dsn"
    unfolding keyword_dsn_parts(5)
    by (simp_all add: keyword_dsn_def validEncoded_def should_escape_def alphanumeric_def)
  have colon: "CHR '':'' \<notin> set (fst (strings_Cut CHR ''/'' keyword_dsn))"
    using keyword_dsn_parts(3) set_takeWhileD by (fastforce simp: strings_Cut_def)
  have "url_Parse ph keyword_dsn = Some (empty_URL\<lparr>url_Path := keyword_dsn, url_RawPath := keyword_dsn\<rparr>)"
    using cut plain colon keyword_dsn_parts(2)
    by (simp add: url_Parse_def url_parse_def keyword_dsn_parts(1,4) parse_hierarchy_def setPath_def to_lower_def
        empty_URL_def)
  moreover have "DSNString (c\<lparr>pg_DSN := keyword_dsn\<rparr>) = keyword_dsn" using plain(4) by (simp add: DSNString_def)
  moreover have "EscapedPath (empty_URL\<lparr>url_Path := keyword_dsn, url_RawPath := keyword_dsn\<rparr>) = ''host=db%20password=s3cret''"
    using plain(1,7) by (simp add: EscapedPath_def url_path_def keyword_dsn_parts(5))
  then have "URL_String (empty_URL\<lparr>url_Path := keyword_dsn, url_RawPath := keyword_dsn\<rparr>) = ''host=db%20password=s3cret''"
    by (rule relative_URL_String) simp
  ultimately have "SafeDSNString ph (c\<lparr>pg_DSN := keyword_dsn\<rparr>) = ''host=db%20password=s3cret''"
    by (simp add: SafeDSNString_def mask_password_def empty_URL_def)
  then show ?thesis by (simp only: keyword_dsn_def)
qed

end
