(* ===== verification/Connections.thy ===== *)
theory Connections
  imports Safe_DSN
begin

text \<open>
  How the packages open their connections: \<^verbatim>\<open>Open\<close> of \<^verbatim>\<open>postgresql/db.go\<close> and the package \<^verbatim>\<open>redisclient\<close>. The
  drivers are arguments; the number of handles that are open is the state. Messages show the connection string as
  \<^const>\<open>SafeDSNString\<close> prints it, with the check of the host by \<^verbatim>\<open>net/url\<close> as the argument \<open>parse_host\<close>.
\<close>

section \<open>The pool of PostgreSQL connections\<close>

text \<open>What a pool is configured with; a hook sees a new connection \<open>'c\<close> and may refuse it.\<close>

record 'c pool_config =
  pc_MinConns :: int
  pc_MaxConns :: int
  pc_MaxConnLifetime :: duration
  pc_MaxConnIdleTime :: duration
  pc_HealthCheckPeriod :: duration
  pc_ConnectTimeout :: duration
  pc_SimpleProtocol :: bool
  pc_StatementCacheCapacity :: int
  pc_DescriptionCacheCapacity :: int
  pc_Traced :: bool
  pc_AfterConnect :: "('c \<Rightarrow> goerr option) option"

type_synonym 'c pool_option = "'c pool_config \<Rightarrow> 'c pool_config"

definition WithTracing :: "'c pool_option" where
  "WithTracing cfg = cfg\<lparr>pc_Traced := True\<rparr>"

definition WithAfterConnect :: "('c \<Rightarrow> goerr option) \<Rightarrow> 'c pool_option" where
  "WithAfterConnect hook cfg =
     cfg\<lparr>pc_AfterConnect := Some (\<lambda>conn.
        case pc_AfterConnect cfg of
          None \<Rightarrow> hook conn
        | Some previous \<Rightarrow> (case previous conn of Some e \<Rightarrow> Some e | None \<Rightarrow> hook conn))\<rparr>"

definition WithPoolConfig :: "('c pool_config \<Rightarrow> 'c pool_config) \<Rightarrow> 'c pool_option" where
  "WithPoolConfig mutate = mutate"

record 'c pgx =
  px_ParseConfig :: "string \<Rightarrow> 'c pool_config result"
  px_NewWithConfig :: "'c pool_config \<Rightarrow> goerr option"
  px_Ping :: "'c pool_config \<Rightarrow> duration \<Rightarrow> goerr option"

definition pool_settings :: "pg_Config \<Rightarrow> 'c pool_config \<Rightarrow> 'c pool_config" where
  "pool_settings cfg p =
     (let p1 = p\<lparr>pc_MinConns := pg_MinConns cfg, pc_MaxConns := pg_MaxConns cfg,
                 pc_MaxConnLifetime := pg_MaxConnLifetime cfg, pc_MaxConnIdleTime := pg_MaxConnIdleTime cfg,
                 pc_HealthCheckPeriod := pg_HealthCheckPeriod cfg, pc_ConnectTimeout := pg_ConnectTimeout cfg\<rparr> in
      if pg_DisablePreparedStatements cfg
      then p1\<lparr>pc_SimpleProtocol := True, pc_StatementCacheCapacity := 0, pc_DescriptionCacheCapacity := 0\<rparr> else p1)"

text \<open>The number of open pools is passed along.\<close>

definition pg_Open ::
  "'c pgx \<Rightarrow> host_parser \<Rightarrow> pg_Config \<Rightarrow> 'c pool_option list \<Rightarrow> nat \<Rightarrow> 'c pool_config result \<times> nat" where
  "pg_Open px parse_host cfg0 opts n =
     (case pg_Validate cfg0 of
        Some e \<Rightarrow> (Inl e, n)
      | None \<Rightarrow>
          let cfg = pg_withDefaults cfg0 in
          case px_ParseConfig px (DSNString cfg) of
            Inl e \<Rightarrow> (Inl (errorf (''postgresql: parse config for '' @ SafeDSNString parse_host cfg @ '': '') e), n)
          | Inr parsed \<Rightarrow>
              let p = fold (\<lambda>opt q. opt q) opts (pool_settings cfg parsed) in
              (case px_NewWithConfig px p of
                 Some e \<Rightarrow> (Inl (errorf (''postgresql: open '' @ SafeDSNString parse_host cfg @ '': '') e), n)
               | None \<Rightarrow>
                   (case px_Ping px p (pg_ConnectTimeout cfg) of
                      Some e \<Rightarrow> (Inl (errorf (''postgresql: ping '' @ SafeDSNString parse_host cfg @ '': '') e), n)
                    | None \<Rightarrow> (Inr p, Suc n))))"

text \<open>A hook runs after those that were set before it, and only if they accept the connection.\<close>

lemma WithAfterConnect_order:
  "pc_AfterConnect (WithAfterConnect g (WithAfterConnect f (cfg\<lparr>pc_AfterConnect := None\<rparr>))) =
     Some (\<lambda>conn. case f conn of Some e \<Rightarrow> Some e | None \<Rightarrow> g conn)"
  by (simp add: WithAfterConnect_def)

lemma pg_Open_handles: "pg_Open px parse_host cfg opts n = (r, n') \<Longrightarrow> n' = (case r of Inl _ \<Rightarrow> n | Inr _ \<Rightarrow> Suc n)"
  by (auto simp: pg_Open_def Let_def split: option.splits sum.splits)

lemma pg_Open_sizes:
  "pg_Open px parse_host cfg [] n = (Inr p, n') \<Longrightarrow> 0 \<le> pc_MinConns p \<and> pc_MinConns p \<le> pc_MaxConns p \<and> 0 < pc_MaxConns p"
  by (auto simp: pg_Open_def pool_settings_def pg_Validate_None_iff Let_def split: option.splits sum.splits if_splits)

section \<open>The Redis client\<close>

record redis_Config =
  rc_URL :: string
  rc_Host :: string
  rc_Port :: int
  rc_Username :: string
  rc_Password :: string
  rc_DB :: int
  rc_PoolSize :: int
  rc_MinIdleConns :: int
  rc_DialTimeout :: duration
  rc_ReadTimeout :: duration
  rc_WriteTimeout :: duration
  rc_MaxRetries :: int
  rc_ConnMaxLifetime :: duration

record redis_options =
  ro_Addr :: string
  ro_Username :: string
  ro_Password :: string
  ro_DB :: int
  ro_PoolSize :: int
  ro_MinIdleConns :: int
  ro_DialTimeout :: duration
  ro_ReadTimeout :: duration
  ro_WriteTimeout :: duration
  ro_MaxRetries :: int
  ro_ConnMaxLifetime :: duration

definition orDefault :: "string \<Rightarrow> string \<Rightarrow> string" where
  "orDefault v fallback = (if v = [] then fallback else v)"

definition orDefaultInt :: "int \<Rightarrow> int \<Rightarrow> int" where
  "orDefaultInt v fallback = (if v = 0 then fallback else v)"

definition orDefaultDuration :: "duration \<Rightarrow> duration \<Rightarrow> duration" where
  "orDefaultDuration v fallback = (if v = 0 then fallback else v)"

text \<open>\<open>parse_url\<close> is \<^verbatim>\<open>redis.ParseURL\<close>.\<close>

definition redis_Options :: "(string \<Rightarrow> redis_options result) \<Rightarrow> redis_Config \<Rightarrow> redis_options result" where
  "redis_Options parse_url c =
     (case (if rc_URL c \<noteq> [] then
              (case parse_url (rc_URL c) of Inl e \<Rightarrow> Inl (errorf ''redisclient: parse REDIS_URL: '' e) | Inr o0 \<Rightarrow> Inr o0)
            else
              Inr \<lparr>ro_Addr = orDefault (rc_Host c) ''localhost'' @ '':'' @ itoa (orDefaultInt (rc_Port c) 6379),
                   ro_Username = rc_Username c, ro_Password = rc_Password c, ro_DB = rc_DB c, ro_PoolSize = 0,
                   ro_MinIdleConns = 0, ro_DialTimeout = 0, ro_ReadTimeout = 0, ro_WriteTimeout = 0, ro_MaxRetries = 0,
                   ro_ConnMaxLifetime = 0\<rparr>) of
        Inl e \<Rightarrow> Inl e
      | Inr o1 \<Rightarrow>
          Inr (o1\<lparr>ro_PoolSize := orDefaultInt (rc_PoolSize c) 10, ro_MinIdleConns := orDefaultInt (rc_MinIdleConns c) 2,
                  ro_DialTimeout := orDefaultDuration (rc_DialTimeout c) (5 * second),
                  ro_ReadTimeout := orDefaultDuration (rc_ReadTimeout c) (3 * second),
                  ro_WriteTimeout := orDefaultDuration (rc_WriteTimeout c) (3 * second),
                  ro_MaxRetries := orDefaultInt (rc_MaxRetries c) 3,
                  ro_ConnMaxLifetime := orDefaultDuration (rc_ConnMaxLifetime c) (30 * minute)\<rparr>))"

text \<open>
  \<open>ping\<close> is what the server answers within the given time; a client is its options with its hooks. The number of
  open clients is passed along.
\<close>

definition redis_Open ::
  "(string \<Rightarrow> redis_options result) \<Rightarrow> (redis_options \<Rightarrow> 'h list \<Rightarrow> duration \<Rightarrow> goerr option) \<Rightarrow> redis_Config \<Rightarrow> 'h list \<Rightarrow>
     nat \<Rightarrow> (redis_options \<times> 'h list) result \<times> nat" where
  "redis_Open parse_url ping c hooks n =
     (case redis_Options parse_url c of
        Inl e \<Rightarrow> (Inl e, n)
      | Inr opts \<Rightarrow>
          (case ping opts hooks (ro_DialTimeout opts) of
             Some e \<Rightarrow> (Inl (errorf (''redisclient: ping '' @ ro_Addr opts @ '': '') e), n)
           | None \<Rightarrow> (Inr (opts, hooks), Suc n)))"

lemma redis_Open_handles: "redis_Open parse_url ping c hooks n = (r, n') \<Longrightarrow> n' = (case r of Inl _ \<Rightarrow> n | Inr _ \<Rightarrow> Suc n)"
  by (auto simp: redis_Open_def split: option.splits sum.splits)

end
