(* ===== verification/Migrate.thy ===== *)
theory Migrate
  imports Connections
begin

text \<open>
  The package \<^verbatim>\<open>migrate\<close>: every operation opens a connection of its own, makes a provider of
  \<^verbatim>\<open>github.com/pressly/goose\<close> and runs one action on it. The file system, the driver and the provider are the
  argument \<open>g\<close>; what is opened, locked and closed is recorded in the state.
\<close>

definition TableName :: string where "TableName = ''schema_migrations''"

record migrate_Config =
  mg_Dir :: string
  mg_Table :: string
  DisableSessionLock :: bool

text \<open>A provider is made for a table, with a session lock or without.\<close>

record provider =
  pr_Table :: string
  pr_Locked :: bool

text \<open>An applied migration: its version.\<close>

record ('s, 'm) goose =
  gs_Sub :: "string \<Rightarrow> goerr option"
  gs_ParseConfig :: "string \<Rightarrow> goerr option"
  gs_Ping :: "'s \<Rightarrow> goerr option"
  gs_NewLocker :: "goerr option"
  gs_NewProvider :: "provider \<Rightarrow> 's \<Rightarrow> goerr option"
  gs_Up :: "provider \<Rightarrow> 's \<Rightarrow> int list result \<times> 's"
  gs_UpTo :: "provider \<Rightarrow> int \<Rightarrow> 's \<Rightarrow> goerr option \<times> 's"
  gs_Down :: "provider \<Rightarrow> 's \<Rightarrow> goerr option \<times> 's"
  gs_GetDBVersion :: "provider \<Rightarrow> 's \<Rightarrow> int \<times> goerr option"
  gs_HasPending :: "provider \<Rightarrow> 's \<Rightarrow> bool \<times> goerr option"
  gs_Status :: "provider \<Rightarrow> 's \<Rightarrow> 'm list \<times> goerr option"

datatype db_event = DbOpened | DbClosed | Applied int

record 's migr =
  mg_db :: 's
  mg_events :: "db_event list"

definition note_event :: "db_event \<Rightarrow> 's migr \<Rightarrow> 's migr" where
  "note_event ev s = s\<lparr>mg_events := mg_events s @ [ev]\<rparr>"

text \<open>An action returns a value and an error; the value is what the variable of its caller then holds.\<close>

type_synonym ('s, 'r) migrate_action = "provider \<Rightarrow> 's migr \<Rightarrow> ('r \<times> goerr option) \<times> 's migr"

definition provider_of :: "migrate_Config \<Rightarrow> provider" where
  "provider_of cfg =
     \<lparr>pr_Table = (if mg_Table cfg = [] then TableName else mg_Table cfg), pr_Locked = (\<not> DisableSessionLock cfg)\<rparr>"

text \<open>What happens while the connection is open.\<close>

definition with_database ::
  "('s, 'm) goose \<Rightarrow> string \<Rightarrow> migrate_Config \<Rightarrow> 'r \<Rightarrow> ('s, 'r) migrate_action \<Rightarrow> 's migr \<Rightarrow> ('r \<times> goerr option) \<times> 's migr" where
  "with_database g safe cfg zero act s =
     (case gs_Ping g (mg_db s) of
        Some e \<Rightarrow> ((zero, Some (errorf (''migrate: ping '' @ safe @ '': '') e)), s)
      | None \<Rightarrow>
          if \<not> DisableSessionLock cfg \<and> gs_NewLocker g \<noteq> None then
            ((zero, map_option (errorf ''migrate: create session locker: '') (gs_NewLocker g)), s)
          else
            (case gs_NewProvider g (provider_of cfg) (mg_db s) of
               Some e \<Rightarrow> ((zero, Some (errorf ''migrate: create provider: '' e)), s)
             | None \<Rightarrow>
                 (case act (provider_of cfg) s of
                    ((v, Some e), s') \<Rightarrow> ((v, Some (errorf ''migrate: '' e)), s')
                  | ((v, None), s') \<Rightarrow> ((v, None), s'))))"

definition withProvider ::
  "('s, 'm) goose \<Rightarrow> host_parser \<Rightarrow> pg_Config \<Rightarrow> migrate_Config \<Rightarrow> 'r \<Rightarrow> ('s, 'r) migrate_action \<Rightarrow> 's migr \<Rightarrow>
     ('r \<times> goerr option) \<times> 's migr" where
  "withProvider g parse_host dbCfg cfg zero act s =
     (if mg_Dir cfg = [] then ((zero, Some (ErrorString ''migrate: dir is required'')), s)
      else case pg_Validate dbCfg of
        Some e \<Rightarrow> ((zero, Some e), s)
      | None \<Rightarrow>
          (case gs_Sub g (mg_Dir cfg) of
             Some e \<Rightarrow> ((zero, Some (errorf (''migrate: open '' @ mg_Dir cfg @ '': '') e)), s)
           | None \<Rightarrow>
               (case gs_ParseConfig g (DSNString dbCfg) of
                  Some e \<Rightarrow> ((zero, Some (errorf (''migrate: parse config for '' @ SafeDSNString parse_host dbCfg @ '': '') e)), s)
                | None \<Rightarrow>
                    (case with_database g (SafeDSNString parse_host dbCfg) cfg zero act (note_event DbOpened s) of
                       (r, s') \<Rightarrow> (r, note_event DbClosed s')))))"

section \<open>The operations\<close>

definition up_action :: "('s, 'm) goose \<Rightarrow> ('s, int) migrate_action" where
  "up_action g p s =
     (case gs_Up g p (mg_db s) of
        (Inl e, d) \<Rightarrow> ((0, Some e), s\<lparr>mg_db := d\<rparr>)
      | (Inr applied, d) \<Rightarrow>
          (gs_GetDBVersion g p d, s\<lparr>mg_db := d, mg_events := mg_events s @ map Applied applied\<rparr>))"

definition migrate_Up where
  "migrate_Up g parse_host dbCfg cfg s = withProvider g parse_host dbCfg cfg 0 (up_action g) s"

definition UpTo where
  "UpTo g parse_host dbCfg cfg version s =
     withProvider g parse_host dbCfg cfg () (\<lambda>p s. case gs_UpTo g p version (mg_db s) of (e, d) \<Rightarrow> (((), e), s\<lparr>mg_db := d\<rparr>)) s"

definition Down where
  "Down g parse_host dbCfg cfg s =
     withProvider g parse_host dbCfg cfg () (\<lambda>p s. case gs_Down g p (mg_db s) of (e, d) \<Rightarrow> (((), e), s\<lparr>mg_db := d\<rparr>)) s"

definition migrate_Version where
  "migrate_Version g parse_host dbCfg cfg s = withProvider g parse_host dbCfg cfg 0 (\<lambda>p s. (gs_GetDBVersion g p (mg_db s), s)) s"

definition HasPending where
  "HasPending g parse_host dbCfg cfg s = withProvider g parse_host dbCfg cfg False (\<lambda>p s. (gs_HasPending g p (mg_db s), s)) s"

definition migrate_Status where
  "migrate_Status g parse_host dbCfg cfg s = withProvider g parse_host dbCfg cfg [] (\<lambda>p s. (gs_Status g p (mg_db s), s)) s"

section \<open>Connections are closed\<close>

text \<open>Actions note only what they applied.\<close>

definition plain_action :: "('s, 'r) migrate_action \<Rightarrow> bool" where
  "plain_action act \<longleftrightarrow> (\<forall>p s r s'. act p s = (r, s') \<longrightarrow> (\<exists>vs. mg_events s' = mg_events s @ map Applied vs))"

lemma up_action_plain: "plain_action (up_action g)"
  unfolding plain_action_def
proof (intro allI impI)
  fix p s r s' assume "up_action g p s = (r, s')"
  then show "\<exists>vs. mg_events s' = mg_events s @ map Applied vs"
    by (cases "fst (gs_Up g p (mg_db s))") (auto simp: up_action_def split: prod.splits intro: exI [of _ "[]"])
qed

lemma with_database_events:
  assumes "plain_action act" "with_database g safe cfg zero act s = (r, s')"
  shows "\<exists>vs. mg_events s' = mg_events s @ map Applied vs"
proof -
  have "s' = s \<or> (\<exists>r'. act (provider_of cfg) s = (r', s'))"
    using assms(2) by (auto simp: with_database_def split: option.splits if_splits prod.splits)
  then show ?thesis
  proof
    assume "s' = s"
    then show ?thesis by (intro exI [of _ "[]"]) simp
  next
    assume "\<exists>r'. act (provider_of cfg) s = (r', s')"
    then show ?thesis using assms(1) unfolding plain_action_def by blast
  qed
qed

text \<open>
  On every path a connection that was opened is closed, once and last, whatever the action did; a refused
  configuration opens none.
\<close>

lemma withProvider_closes:
  assumes "plain_action act" "withProvider g parse_host dbCfg cfg zero act s = (r, s')"
  shows "mg_events s' = mg_events s \<and> s' = s \<and> snd r \<noteq> None \<or>
    (\<exists>vs. mg_events s' = mg_events s @ [DbOpened] @ map Applied vs @ [DbClosed])"
proof -
  let ?s0 = "note_event DbOpened s"
  consider "s' = s" "snd r \<noteq> None" | s1 where "with_database g (SafeDSNString parse_host dbCfg) cfg zero act ?s0 = (r, s1)" "s' = note_event DbClosed s1"
    using assms(2) by (auto simp: withProvider_def split: if_splits option.splits prod.splits)
  then show ?thesis
  proof cases
    case (2 s1)
    from with_database_events [OF assms(1) 2(1)] 2(2) show ?thesis by (auto simp: note_event_def)
  qed simp
qed

end
