(* ===== verification/Observability.thy ===== *)
theory Observability
  imports Complex_Main Apperr
begin

text \<open>
  The package \<^verbatim>\<open>observability\<close>, as far as it decides anything: \<^verbatim>\<open>Init\<close> and the defaults of its configuration.
  The global state of OpenTelemetry is a record; creating the exporter, merging the resource and shutting down
  are arguments. The sample ratio, a \<^verbatim>\<open>float64\<close>, is a rational number; it is only compared and handed on. (For
  a value that is not a number both comparisons fail and it is handed on as well.)
\<close>

record otel_Config =
  ot_Enabled :: bool
  ot_ServiceName :: string
  ot_ServiceVersion :: string
  ot_Environment :: string
  ot_Endpoint :: string
  ot_Insecure :: bool
  ot_SampleRatio :: rat
  ot_ExportTimeout :: duration
  ot_ShutdownTimeout :: duration

definition otel_withDefaults :: "otel_Config \<Rightarrow> otel_Config" where
  "otel_withDefaults c =
     c\<lparr>ot_Endpoint := (if ot_Endpoint c = [] then ''localhost:4317'' else ot_Endpoint c),
       ot_Environment := (if ot_Environment c = [] then ''development'' else ot_Environment c),
       ot_ExportTimeout := (if ot_ExportTimeout c = 0 then 10 * second else ot_ExportTimeout c),
       ot_ShutdownTimeout := (if ot_ShutdownTimeout c = 0 then 5 * second else ot_ShutdownTimeout c),
       ot_SampleRatio := (if ot_SampleRatio c \<le> 0 \<or> ot_SampleRatio c > 1 then 1 else ot_SampleRatio c)\<rparr>"

datatype tracer_provider =
    NoopProvider
  | SdkProvider (endpoint: string) (export_timeout: duration) (insecure: bool) (attributes: "(string \<times> string) list") (ratio: rat)

record otel =
  propagators :: "string list"
  tracer_provider :: tracer_provider

text \<open>What shutting down does: nothing, or both the provider and the exporter, within a time of their own.\<close>

datatype shutdown = NoShutdown | ShutdownWithin duration

text \<open>
  \<open>new_exporter\<close> is given endpoint, time and whether the connection is plain; \<open>merge\<close> the attributes of the service.
\<close>

definition otel_Init ::
  "(string \<Rightarrow> duration \<Rightarrow> bool \<Rightarrow> goerr option) \<Rightarrow> ((string \<times> string) list \<Rightarrow> (string \<times> string) list result) \<Rightarrow> otel_Config \<Rightarrow> otel \<Rightarrow>
     shutdown result \<times> otel" where
  "otel_Init new_exporter merge cfg0 st =
     (let st1 = st\<lparr>propagators := [''tracecontext'', ''baggage'']\<rparr> in
      if \<not> ot_Enabled cfg0 then (Inr NoShutdown, st1\<lparr>tracer_provider := NoopProvider\<rparr>)
      else
        let cfg = otel_withDefaults cfg0 in
        case new_exporter (ot_Endpoint cfg) (ot_ExportTimeout cfg) (ot_Insecure cfg) of
          Some e \<Rightarrow> (Inl (errorf ''observability: create otlp exporter: '' e), st1)
        | None \<Rightarrow>
            (case merge [(''service.name'', ot_ServiceName cfg), (''service.version'', ot_ServiceVersion cfg),
                         (''deployment.environment'', ot_Environment cfg)] of
               Inl e \<Rightarrow> (Inl (errorf ''observability: build resource: '' e), st1)
             | Inr attrs \<Rightarrow>
                 (Inr (ShutdownWithin (ot_ShutdownTimeout cfg)),
                  st1\<lparr>tracer_provider := SdkProvider (ot_Endpoint cfg) (ot_ExportTimeout cfg) (ot_Insecure cfg) attrs
                         (ot_SampleRatio cfg)\<rparr>)))"

text \<open>\<^verbatim>\<open>errors.Join\<close> of what the provider and the exporter return.\<close>

definition run_shutdown :: "shutdown \<Rightarrow> (duration \<Rightarrow> goerr option) \<Rightarrow> (duration \<Rightarrow> goerr option) \<Rightarrow> goerr list" where
  "run_shutdown sd provider_Shutdown exporter_Shutdown =
     (case sd of
        NoShutdown \<Rightarrow> []
      | ShutdownWithin t \<Rightarrow> List.map_filter id [provider_Shutdown t, exporter_Shutdown t])"

text \<open>A tracer is that of the provider which is set when it is asked for.\<close>

definition Tracer :: "string \<Rightarrow> otel \<Rightarrow> tracer_provider \<times> string" where
  "Tracer name st = (tracer_provider st, name)"

definition otel_complete :: "otel_Config \<Rightarrow> bool" where
  "otel_complete c \<longleftrightarrow> ot_Endpoint c \<noteq> [] \<and> ot_Environment c \<noteq> [] \<and> ot_ExportTimeout c \<noteq> 0 \<and> ot_ShutdownTimeout c \<noteq> 0 \<and>
     0 < ot_SampleRatio c \<and> ot_SampleRatio c \<le> 1"

interpretation otel_cfg: defaulting otel_withDefaults otel_complete
  by unfold_locales (auto simp: otel_complete_def otel_withDefaults_def second_def not_less)

text \<open>A ratio of zero, no trace at all, becomes one: every trace.\<close>

lemma zero_ratio_samples_everything:
  assumes "ot_Enabled cfg" "ot_SampleRatio cfg = 0" "otel_Init new_exporter merge cfg st = (Inr sd, st')"
  shows "ratio (tracer_provider st') = 1"
  using assms by (auto simp: otel_Init_def otel_withDefaults_def Let_def split: option.splits sum.splits)

lemma failed_init_keeps_provider:
  "otel_Init new_exporter merge cfg st = (Inl e, st') \<Longrightarrow> tracer_provider st' = tracer_provider st"
  by (auto simp: otel_Init_def Let_def split: option.splits sum.splits if_splits)

lemma tracer_of_disabled_tracing:
  "\<not> ot_Enabled cfg \<Longrightarrow> Tracer name (snd (otel_Init new_exporter merge cfg st)) = (NoopProvider, name)"
  by (simp add: Tracer_def otel_Init_def Let_def)

end
