(* ===== verification/Spec2Isabelle.thy ===== *)
theory Spec2Isabelle
  imports Outbox_Accounting Grpc_Serve Client_Connection Service_Run Gateway_Server Limited_Server Addr_Roundtrip Password
    Secret Image_Upload File_Storage Config_Load Migrate Observability
begin

text \<open>
  Verification of the Go module \<^verbatim>\<open>hockey-libs\<close>, the libraries that the services of HockeyNights share.

  \<^bold>\<open>The program.\<close> A service is a gRPC server, usually with an HTTP gateway and an outbox worker beside it, run together
  by \<^verbatim>\<open>runner\<close> until a signal arrives or one of them fails. A request passes the interceptors of \<^verbatim>\<open>grpcserver\<close>
  (recovery, request id, logging, metrics, error mapping, then those of the service: authentication with \<^verbatim>\<open>token\<close>,
  roles, rate limits with \<^verbatim>\<open>ratelimit\<close>, validation). A handler works on the database through \<^verbatim>\<open>postgresql\<close>,
  stores events with \<^verbatim>\<open>outbox.Enqueue\<close> in the transaction of its own data, calls other services through
  \<^verbatim>\<open>grpcclient\<close>, which forwards request id and token, and returns errors of \<^verbatim>\<open>apperr\<close>, which the server maps to
  statuses.

  \<^bold>\<open>Theories.\<close>
  \<^item> \<open>Go_Prelude\<close>, \<open>Go_Text\<close>, \<open>Go_Encoding\<close>: what the source uses of the language and its standard library:
    64-bit integers with wrap-around, strings as bytes with UTF-8, decimal, base64 and hex. The interfaces
    \<open>transition_invariant\<close> (a step relation with an invariant), \<open>defaulting\<close> (the methods \<^verbatim>\<open>withDefaults\<close>) and
    \<open>base64_alphabet\<close> are locales.
  \<^item> \<open>Apperr\<close>: \<^verbatim>\<open>apperr/apperr.go\<close> and error chains with \<^verbatim>\<open>errors.Is\<close> and \<^verbatim>\<open>errors.As\<close>. Every fallible function of the
    development returns \<open>goerr + 'a\<close> or an optional \<open>goerr\<close>.
  \<^item> \<open>Postgres\<close>: \<^verbatim>\<open>postgresql/config.go\<close>, \<^verbatim>\<open>errors.go\<close>, \<^verbatim>\<open>tx.go\<close>. A transaction body returns or panics; the driver is
    a record of operations and \<open>transactional\<close> the locale of what \<^verbatim>\<open>InTx\<close> relies on.
  \<^item> \<open>Outbox_Queue\<close>: \<^verbatim>\<open>outbox/outbox.go\<close>. The table is a list of rows, each SQL statement a function on it; faults of
    the database before or after a statement, locked rows and the clock are in the state. The locale \<open>lease_queue\<close>
    is the interface \<^verbatim>\<open>Queue\<close>, interpreted by \<open>Repository\<close>.
  \<^item> \<open>Outbox_Worker\<close>: \<^verbatim>\<open>outbox/worker.go\<close>, \<^verbatim>\<open>terminal.go\<close>, \<^verbatim>\<open>metrics.go\<close>, proved over \<open>lease_queue\<close> and its extension
    \<open>counted_queue\<close>. \<open>Outbox_Liveness\<close> adds the progress that the worker makes, over \<open>reliable_queue\<close>, which extends it by
    what a queue promises while its database answers, and \<open>Outbox_Accounting\<close> the meaning of its counters, over
    \<open>accountable_queue\<close>, which extends that by what the counting relies on.
  \<^item> \<open>Metrics_Registry\<close>: \<^verbatim>\<open>observability/metrics.go\<close> and the registry that the server and the worker put their metrics in.
  \<^item> \<open>Token\<close>, \<open>Logger\<close>, \<open>Request_Context\<close>: \<^verbatim>\<open>token\<close>, \<^verbatim>\<open>logger\<close>, \<^verbatim>\<open>requestid\<close>, and the context of a request.
  \<^item> \<open>Grpc_Server\<close>: the interceptors and the chain of \<^verbatim>\<open>grpcserver\<close>; the locale \<open>gate\<close> is the contract of an
    interceptor that lets a request through or refuses it, interpreted by five interceptors.
  \<^item> \<open>Net_Address\<close>, \<open>Client_IP\<close>: \<^verbatim>\<open>net/netip\<close> as used; \<^verbatim>\<open>grpcserver/clientip.go\<close>, \<^verbatim>\<open>ratelimit.go\<close>, \<^verbatim>\<open>loopback.go\<close>.
    \<open>Addr_Roundtrip\<close> shows that the text of an address is parsed back to it.
  \<^item> \<open>Limited_Server\<close>: the limiter of \<open>Rate_Limiter\<close> behind the interceptor of \<open>Client_IP\<close>, over a sequence of requests.
  \<^item> \<open>Grpc_Serve\<close>: the server object of \<^verbatim>\<open>grpcserver/server.go\<close>: its configuration, its options with the chains, and the order
    in which \<^verbatim>\<open>Run\<close> registers the services.
  \<^item> \<open>Grpc_Client\<close>, \<open>Client_Connection\<close>: \<^verbatim>\<open>grpcclient\<close>, composed with the server of \<open>Grpc_Server\<close>; its options and chains, and the
    opening of a connection.
  \<^item> \<open>Component_Runner\<close>: \<^verbatim>\<open>runner/runner.go\<close> as step relations over its goroutines and over the signals.
  \<^item> \<open>Server_Lifecycle\<close>: \<^verbatim>\<open>Run\<close> and \<^verbatim>\<open>stop\<close> of \<^verbatim>\<open>grpcserver/server.go\<close> and \<^verbatim>\<open>httpserver/server.go\<close>, both
    interpretations of the locale \<open>stoppable\<close>.
  \<^item> \<open>Service_Run\<close>: the servers as components of the runner, a step relation over both, again \<open>stoppable\<close>. The steps of a server
    and of the runner are those of their own theories; the server's context is the group's, and the runner learns of
    a component's end from the server. The listeners are bound: a server that cannot listen returns before it has steps.
  \<^item> \<open>Http_Api\<close>: \<^verbatim>\<open>httpserver/ops.go\<close> with the mux of \<^verbatim>\<open>net/http\<close> as documented, \<^verbatim>\<open>grpcgateway\<close>, \<^verbatim>\<open>cmd/healthcheck\<close>.
  \<^item> \<open>Gateway_Server\<close>: the gateway in front of a server, from the headers of a request to what the interceptors make of them.
  \<^item> \<open>Rate_Limiter\<close>, \<open>Password\<close>, \<open>Secret\<close>, \<open>Image_Upload\<close>, \<open>File_Storage\<close>: \<^verbatim>\<open>ratelimit\<close>, \<^verbatim>\<open>password\<close>, \<^verbatim>\<open>secret\<close> and
    the two files of \<^verbatim>\<open>filestorage\<close>.
  \<^item> \<open>Safe_DSN\<close>: the connection string of \<^verbatim>\<open>postgresql/config.go\<close>, as the driver gets it and as it is shown.
  \<^item> \<open>Config_Load\<close>, \<open>Connections\<close>, \<open>Migrate\<close>, \<open>Observability\<close>: \<^verbatim>\<open>config\<close>, the opening of connections in \<^verbatim>\<open>postgresql\<close>
    and \<^verbatim>\<open>redisclient\<close>, \<^verbatim>\<open>migrate\<close>, and \<^verbatim>\<open>observability/tracing.go\<close>.

  \<^bold>\<open>What is shown.\<close>
  \<^item> Outbox: an event is stored exactly when its transaction commits; a claimed row belongs to one worker until its
    lease ends and is due again after it; a worker loses no message over any run, with any faults; each row of a
    batch ends as the outcome of its delivery demands; a backlog is drained in as many iterations as it has batches;
    the counters are the numbers of deliveries by their outcome;
    back-off, lease and stored text are within their bounds.
  \<^item> Requests: the chain of the server equals a straight-line specification; every error becomes a status and nothing
    internal is sent; handlers behind authentication have the claims of an accepted token; counters and gauges
    account for each request, after a panic too. A server is set up once, with its services in order and its health checks
    not logged. The chain of a client equals its specification too; across services, and through the gateway, request
    id and token arrive as they were sent.
  \<^item> Tokens and passwords: round trips, and rejection of everything the configuration does not ask for. The password of
    the database is not shown in messages, except that of a connection string made of keywords and values.
  \<^item> Limits: the client's address cannot be forged past the trusted proxies, except through the gateway; the limiter refines a
    counter over fixed windows and admits exactly its limit, so that a flooding client reaches a handler no more often than
    that. Addresses and their texts correspond, so that limits by text are limits by address.
  \<^item> Life cycle: the runner and the servers always come to an end, and report the errors they should; so does a service of
    both, which returns in time only when every server has stopped.
  \<^item> Files and HTTP: stored objects are found again; pictures are bounded; CORS grants only what is allowed.
  \<^item> Flaws of the code are theorems or lemmas as well (an address forged through the gateway, a lease rounded below the
    need of a batch, the missing request id in the log of a panic, a masked root cause, a shadowed static token).

  \<^bold>\<open>Parameters.\<close> Third-party code is an argument of the functions that call it; what they rely on is a predicate
  \<open>\<dots>_documented\<close> (\<open>jwt_documented\<close>, \<open>status_documented\<close>, \<open>argon2_documented\<close>, \<open>semaphore_documented\<close>,
  \<open>keys_documented\<close>, \<open>redis_documented\<close>, \<open>codec_documented\<close>, \<open>s3_documented\<close>, \<open>dotenv_documented\<close>, \<open>matcher_documented\<close>). The witness of each property that
  uses one instantiates it by a concrete function. Randomness and clocks are arguments.

  \<^bold>\<open>Termination.\<close> No definition uses fuel. Loops over data are structural or have a measure; loops that wait (the worker,
  the runner, the servers, the client that waits for its connection) are step relations or run over a given sequence
  of events, and that they end is proved where the code promises it.

  \<^bold>\<open>Not modelled.\<close> The check of a host by \<^verbatim>\<open>net/url\<close>, which differs between releases of Go (an argument of
  \<open>SafeDSNString\<close>); the redirects of \<^verbatim>\<open>http.ServeMux\<close> (an argument of \<open>mux_ServeHTTP\<close>); the log lines of the runner, of the
  servers' life cycle and of the opening of connections; the SQL of the migrations, of which only the schema is used;
  the tests.
\<close>

section \<open>Properties across components\<close>

text \<open>What a client may see of an error of the database: a code, a fixed message and a fixed reason.\<close>

definition database_status :: "goerr \<Rightarrow> code \<times> string \<times> string" where
  "database_status e =
     (if errors_Is (Some e) ErrNoRows then (codes_NotFound, ''resource not found'', ''not_found'')
      else case asPgError (Some e) of
        Some (PgError s _ _) \<Rightarrow>
          if s = ''23505'' then (codes_AlreadyExists, ''resource already exists'', ''already_exists'')
          else if s = ''23503'' then (codes_FailedPrecondition, ''related resource is missing'', ''foreign_key_violation'')
          else if s \<in> {''23502'', ''23514'', ''23P01''} then
            (codes_InvalidArgument, ''request violates a data constraint'', ''constraint_violation'')
          else if s \<in> {''40001'', ''40P01'', ''55P03''} then (codes_Aborted, ''concurrent update, please retry'', ''write_conflict'')
          else if s = ''57014'' then (codes_DeadlineExceeded, ''request timed out'', ''query_canceled'')
          else (codes_Internal, ''internal server error'', [])
      | _ \<Rightarrow> (codes_Internal, ''internal server error'', []))"

lemma MapError_of_app:
  "MapError fe (Some (AppError k c m f x)) =
     Some (if CodeOf k = codes_Internal then internal_status else StatusError (CodeOf k) m (with_reason c))"
  by (simp add: MapError_def apperr_As_def errors_As_def walk.simps [of "AppError k c m f x"])

lemma reasons_sent:
  "with_reason ''not_found'' = [ErrorInfo ''not_found'' errorDomain]"
  "with_reason ''already_exists'' = [ErrorInfo ''already_exists'' errorDomain]"
  "with_reason ''foreign_key_violation'' = [ErrorInfo ''foreign_key_violation'' errorDomain]"
  "with_reason ''constraint_violation'' = [ErrorInfo ''constraint_violation'' errorDomain]"
  "with_reason ''write_conflict'' = [ErrorInfo ''write_conflict'' errorDomain]"
  "with_reason ''query_canceled'' = [ErrorInfo ''query_canceled'' errorDomain]"
  by (simp_all add: with_reason_def utf8_valid_Cons)

text \<open>
  C14. From the database to the client: an error that the driver reports, wrapped in whatever text, reaches the client
  of a server through \<^verbatim>\<open>postgresql.MapError\<close> and the error mapping of the chain as one of seven fixed answers,
  chosen by the SQLSTATE alone; no text of the database, of a constraint or of the wrapping is sent.
\<close>

theorem database_errors_reach_clients_as_fixed_statuses:
  "MapError fe (pg_MapError (Some e)) =
     (case database_status e of (c, m, reason) \<Rightarrow>
        Some (StatusError c m (if reason = [] then [] else [ErrorInfo reason ''hockeynights''])))"
proof (cases "errors_Is (Some e) ErrNoRows")
  case True
  then show ?thesis
    by (simp add: pg_MapError_def apperr_Wrap_def MapError_of_app database_status_def reasons_sent errorDomain_def)
next
  case False
  show ?thesis
  proof (cases "asPgError (Some e)")
    case None
    with False show ?thesis
      by (simp add: pg_MapError_def apperr_Wrap_def MapError_of_app database_status_def internal_status_def status_Error_def)
  next
    case (Some x)
    then obtain s c t where "x = PgError s c t" by (blast dest: asPgError_SomeD)
    with False Some show ?thesis
      by (simp add: pg_MapError_def pg_classify_def sqlstate_defs pg_mapped_eq MapError_of_app database_status_def
          reasons_sent errorDomain_def internal_status_def status_Error_def)
  qed
qed

text \<open>
  One registry serves a whole service: what \<^verbatim>\<open>NewRegistry\<close> puts into it leaves room for the metrics of one server and of one
  outbox worker, in either order, as long as the library's own collectors use none of their names.
\<close>

definition service_metrics :: "string set" where
  "service_metrics =
     {''grpc_server_requests_total'', ''grpc_server_request_duration_seconds'', ''grpc_server_requests_in_flight'',
      ''outbox_pending_messages'', ''outbox_failed_messages'', ''outbox_messages_total''}"

lemma one_registry_for_a_service:
  assumes "go \<inter> process = {}" and "(go \<union> process) \<inter> service_metrics = {}"
  shows "\<exists>reg reg1 m1 reg2 m2 reg3. NewRegistry go process = Some reg \<and>
    server_NewMetrics reg = Some reg1 \<and> NewMetrics reg1 = Some (m1, reg2) \<and>
    NewMetrics reg = Some (m2, reg3) \<and> server_NewMetrics reg3 = Some reg2"
  using assms
  by (auto simp: NewRegistry_Some server_NewMetrics_def NewMetrics_def DurationBuckets_increasing MustRegister_def service_metrics_def)

end
